(* ===== verification/PyText.thy ===== *)
theory PyText
  imports Prelude
begin

text \<open>
  Python's text as the service uses it: a \<^verbatim>\<open>str\<close> is a list of code points. The string
  methods it calls (\<^verbatim>\<open>strip\<close>, \<^verbatim>\<open>split\<close>, \<^verbatim>\<open>join\<close>, \<^verbatim>\<open>isdigit\<close>), the conversions
  \<^verbatim>\<open>int(text)\<close> and \<^verbatim>\<open>str(number)\<close>, and UTF-8 encoding and lenient decoding, with the
  lemma that decoding a truncated encoding gives back a prefix of the text.
\<close>

section \<open>Code points\<close>

type_synonym pystr = "nat list"

definition lit :: "string \<Rightarrow> pystr" where
  "lit s = map of_char s"

lemma inj_of_char_nat: "inj (of_char :: char \<Rightarrow> nat)"
  by (rule injI) simp

lemma lit_inject [simp]: "lit s = lit t \<longleftrightarrow> s = t"
  by (simp add: lit_def inj_map_eq_map [OF inj_of_char_nat])

lemma lit_eq_Nil [simp]: "lit s = [] \<longleftrightarrow> s = []"
  by (simp add: lit_def)

lemma Nil_eq_lit [simp]: "[] = lit s \<longleftrightarrow> s = []"
  by (auto simp: lit_def)

lemma lit_append: "lit (s @ t) = lit s @ lit t"
  by (simp add: lit_def)

lemma length_lit [simp]: "length (lit s) = length s"
  by (simp add: lit_def)

text \<open>The code points for which \<^verbatim>\<open>str.isspace\<close> holds.\<close>

definition space_points :: "nat list" where
  "space_points = [9, 10, 11, 12, 13, 28, 29, 30, 31, 32, 133, 160, 5760, 8192, 8193, 8194,
     8195, 8196, 8197, 8198, 8199, 8200, 8201, 8202, 8232, 8233, 8239, 8287, 12288]"

definition is_space :: "nat \<Rightarrow> bool" where
  "is_space c \<longleftrightarrow> c \<in> set space_points"

text \<open>The zeros of the decimal digit ranges (category Nd); each range has ten digits.\<close>

definition decimal_zeros :: "nat list" where
  "decimal_zeros = [48, 1632, 1776, 1984, 2406, 2534, 2662, 2790, 2918, 3046, 3174, 3302,
     3430, 3558, 3664, 3792, 3872, 4160, 4240, 6112, 6160, 6470, 6608, 6784, 6800, 6992,
     7088, 7232, 7248, 42528, 43216, 43264, 43472, 43504, 43600, 44016, 65296, 66720, 68912,
     68928, 69734, 69872, 69942, 70096, 70384, 70736, 70864, 71248, 71360, 71376, 71386,
     71472, 71904, 72016, 72688, 72784, 73040, 73120, 73552, 92768, 92864, 93008, 118000,
     120782, 120792, 120802, 120812, 120822, 123200, 123632, 124144, 124401, 125264, 130032]"

text \<open>
  Code points with a digit value that are not decimal digits: superscripts, subscripts,
  circled digits. \<^verbatim>\<open>str.isdigit\<close> holds for them and \<^verbatim>\<open>int\<close> refuses them.
\<close>

definition other_digits :: "(nat \<times> nat) list" where
  "other_digits = [(178, 179), (185, 185), (4969, 4977), (6618, 6618), (8304, 8304),
     (8308, 8313), (8320, 8329), (9312, 9320), (9332, 9340), (9352, 9360), (9450, 9450),
     (9461, 9469), (9471, 9471), (10102, 10110), (10112, 10120), (10122, 10130),
     (68160, 68163), (69216, 69224), (69714, 69722), (127232, 127242)]"

definition decimal_value :: "nat \<Rightarrow> nat option" where
  "decimal_value c = map_option (\<lambda>z. c - z) (List.find (\<lambda>z. z \<le> c \<and> c < z + 10) decimal_zeros)"

definition is_digit :: "nat \<Rightarrow> bool" where
  "is_digit c \<longleftrightarrow> decimal_value c \<noteq> None \<or> list_ex (\<lambda>(a, b). a \<le> c \<and> c \<le> b) other_digits"

definition py_isdigit :: "pystr \<Rightarrow> bool" where
  "py_isdigit s \<longleftrightarrow> s \<noteq> [] \<and> list_all is_digit s"

section \<open>Trimming and splitting\<close>

definition py_lstrip :: "pystr \<Rightarrow> pystr" where
  "py_lstrip s = dropWhile is_space s"

definition py_strip :: "pystr \<Rightarrow> pystr" where
  "py_strip s = rev (dropWhile is_space (rev (dropWhile is_space s)))"

function py_split :: "pystr \<Rightarrow> pystr list" where
  "py_split s =
     (case dropWhile is_space s of
        [] \<Rightarrow> []
      | c # cs \<Rightarrow>
          takeWhile (\<lambda>x. \<not> is_space x) (c # cs) #
            py_split (dropWhile (\<lambda>x. \<not> is_space x) (c # cs)))"
  by pat_completeness auto
termination
proof (relation "measure length")
  fix s c cs
  assume d: "dropWhile is_space s = c # cs"
  then have "\<not> is_space c"
    by (metis dropWhile_eq_Cons_conv)
  moreover have "length (c # cs) \<le> length s"
    using d by (metis length_dropWhile_le)
  ultimately show "(dropWhile (\<lambda>x. \<not> is_space x) (c # cs), s) \<in> measure length"
    using length_dropWhile_le [of "\<lambda>x. \<not> is_space x" cs] by simp
qed simp

declare py_split.simps [simp del]

fun py_join :: "pystr \<Rightarrow> pystr list \<Rightarrow> pystr" where
  "py_join sep [] = []"
| "py_join sep [w] = w"
| "py_join sep (w # ws) = w @ sep @ py_join sep ws"

lemma is_space_32 [simp]: "is_space 32"
  by (simp add: is_space_def space_points_def)

lemma py_strip_Nil [simp]: "py_strip [] = []"
  by (simp add: py_strip_def)

lemma dropWhile_rev_last: "xs \<noteq> [] \<Longrightarrow> \<not> P (last xs) \<Longrightarrow> dropWhile P (rev xs) = rev xs"
  by (cases xs rule: rev_cases) auto

lemma py_strip_no_edges:
  assumes "s \<noteq> []" and "\<not> is_space (hd s)" and "\<not> is_space (last s)"
  shows "py_strip s = s"
proof -
  have "dropWhile is_space s = s"
    using assms by (cases s) auto
  with assms show ?thesis
    by (simp add: py_strip_def dropWhile_rev_last)
qed

text \<open>Stripping leaves no padding at either end, so it is idempotent.\<close>

lemma py_strip_hd: "py_strip s \<noteq> [] \<Longrightarrow> \<not> is_space (hd (py_strip s))"
proof -
  assume ne: "py_strip s \<noteq> []"
  let ?d = "dropWhile is_space s"
  from ne have d: "?d \<noteq> []" unfolding py_strip_def by (metis dropWhile.simps(1) rev.simps(1))
  then have h: "\<not> is_space (hd ?d)" by (rule hd_dropWhile)
  have "?d = py_strip s @ rev (takeWhile is_space (rev ?d))"
    unfolding py_strip_def by (metis rev_append rev_rev_ident takeWhile_dropWhile_id)
  with ne have "hd (py_strip s) = hd ?d"
    by (metis hd_append2)
  with h show ?thesis by simp
qed

lemma py_strip_last: "py_strip s \<noteq> [] \<Longrightarrow> \<not> is_space (last (py_strip s))"
  unfolding py_strip_def by (simp add: last_rev hd_dropWhile)

lemma py_strip_idem [simp]: "py_strip (py_strip s) = py_strip s"
  by (cases "py_strip s = []") (simp_all add: py_strip_no_edges py_strip_hd py_strip_last)

lemma set_py_strip: "set (py_strip s) \<subseteq> set s"
  unfolding py_strip_def by (auto dest!: set_dropWhileD)

text \<open>The words of a text carry no white space, and none of them is empty.\<close>

lemma py_split_words: "w \<in> set (py_split s) \<Longrightarrow> w \<noteq> [] \<and> list_all (\<lambda>c. \<not> is_space c) w"
proof (induction s rule: py_split.induct)
  case (1 s)
  show ?case
  proof (cases "dropWhile is_space s")
    case Nil
    with "1.prems" show ?thesis by (simp add: py_split.simps)
  next
    case (Cons c cs)
    then have c: "\<not> is_space c" by (metis dropWhile_eq_Cons_conv)
    from "1.prems" Cons have
      "w = takeWhile (\<lambda>x. \<not> is_space x) (c # cs) \<or>
       w \<in> set (py_split (dropWhile (\<lambda>x. \<not> is_space x) (c # cs)))"
      by (subst (asm) py_split.simps) auto
    then show ?thesis
    proof
      assume "w = takeWhile (\<lambda>x. \<not> is_space x) (c # cs)"
      with c show ?thesis by (auto simp: list_all_iff dest: set_takeWhileD)
    qed (rule "1.IH" [OF Cons])
  qed
qed

text \<open>Splitting a text that a single space joined gives its words back.\<close>

lemma py_split_Nil [simp]: "py_split [] = []"
  by (simp add: py_split.simps)

lemma dropWhile_nonspace: "list_all (\<lambda>c. \<not> is_space c) w \<Longrightarrow> is_space d \<Longrightarrow>
    dropWhile (\<lambda>x. \<not> is_space x) (w @ d # r) = d # r"
  by (induction w) auto

lemma takeWhile_nonspace: "list_all (\<lambda>c. \<not> is_space c) w \<Longrightarrow> is_space d \<Longrightarrow>
    takeWhile (\<lambda>x. \<not> is_space x) (w @ d # r) = w"
  by (induction w) auto

lemma py_split_word:
  assumes "w \<noteq> []" and "list_all (\<lambda>c. \<not> is_space c) w"
  shows "py_split w = [w]" and "is_space d \<Longrightarrow> py_split (w @ d # r) = w # py_split r"
proof -
  from assms obtain c cs where w: "w = c # cs" and c: "\<not> is_space c" by (cases w) auto
  from assms(2) have all: "\<forall>x\<in>set w. \<not> is_space x" by (simp add: list_all_iff)
  have "takeWhile (\<lambda>x. \<not> is_space x) cs = cs" and "dropWhile (\<lambda>x. \<not> is_space x) cs = []"
    using all w by simp_all
  with w c show "py_split w = [w]"
    by (subst py_split.simps) (simp del: dropWhile_eq_Nil_conv)
  assume d: "is_space d"
  have tk: "takeWhile (\<lambda>x. \<not> is_space x) (w @ d # r) = w"
    and dr: "dropWhile (\<lambda>x. \<not> is_space x) (w @ d # r) = d # r"
    using takeWhile_nonspace [OF assms(2) d] dropWhile_nonspace [OF assms(2) d] by simp_all
  have "py_split (d # r) = py_split r"
    using d by (subst (1 2) py_split.simps) simp
  with tk dr w c show "py_split (w @ d # r) = w # py_split r"
    by (subst py_split.simps) simp
qed

lemma py_split_join:
  "(\<And>w. w \<in> set ws \<Longrightarrow> w \<noteq> [] \<and> list_all (\<lambda>c. \<not> is_space c) w) \<Longrightarrow>
     py_split (py_join [32] ws) = ws"
proof (induction "[32] :: pystr" ws rule: py_join.induct)
  case 1
  then show ?case by simp
next
  case (2 w)
  then show ?case by (simp add: py_split_word(1))
next
  case (3 w v vs)
  then show ?case by (simp add: py_split_word(2))
qed

section \<open>Numbers and text\<close>

fun digits_value :: "pystr \<Rightarrow> nat \<Rightarrow> nat option" where
  "digits_value [] acc = Some acc"
| "digits_value (c # cs) acc =
     (case decimal_value c of
        None \<Rightarrow> None
      | Some d \<Rightarrow> digits_value cs (10 * acc + d))"

text \<open>
  One underscore may stand between two digits, and at most 4300 digits convert
  (\<^verbatim>\<open>sys.int_info.default_max_str_digits\<close>).
\<close>

fun drop_underscores :: "pystr \<Rightarrow> pystr option" where
  "drop_underscores [] = None"
| "drop_underscores [c] = (if c = 95 then None else Some [c])"
| "drop_underscores (c # d # cs) =
     (if c = 95 then None
      else if d = 95 then map_option ((#) c) (drop_underscores cs)
      else map_option ((#) c) (drop_underscores (d # cs)))"

definition int_max_str_digits :: nat where
  "int_max_str_digits = 4300"

definition unsigned_of :: "pystr \<Rightarrow> py_error + nat" where
  "unsigned_of s =
     (case drop_underscores s of
        None \<Rightarrow> Inl ValueError
      | Some ds \<Rightarrow>
          (if length ds > int_max_str_digits then Inl ValueError
           else case digits_value ds 0 of None \<Rightarrow> Inl ValueError | Some n \<Rightarrow> Inr n))"

definition py_int :: "pystr \<Rightarrow> py_error + int" where
  "py_int s =
     (case py_strip s of
        [] \<Rightarrow> Inl ValueError
      | c # cs \<Rightarrow>
          (if c = 45 then mapR (\<lambda>n. - int n) (unsigned_of cs)
           else if c = 43 then mapR int (unsigned_of cs)
           else mapR int (unsigned_of (c # cs))))"

fun dec_of_nat :: "nat \<Rightarrow> pystr" where
  "dec_of_nat n = (if n < 10 then [48 + n] else dec_of_nat (n div 10) @ [48 + n mod 10])"

declare dec_of_nat.simps [simp del]

definition dec_of_int :: "int \<Rightarrow> pystr" where
  "dec_of_int i = (if i < 0 then 45 # dec_of_nat (nat (- i)) else dec_of_nat (nat i))"

lemma decimal_value_ascii: "d < 10 \<Longrightarrow> decimal_value (48 + d) = Some d"
  by (simp add: decimal_value_def decimal_zeros_def)

lemma digits_value_append:
  "digits_value (xs @ ys) acc = Option.bind (digits_value xs acc) (digits_value ys)"
  by (induction xs arbitrary: acc) (auto split: option.splits)

lemma digits_value_dec_of_nat: "digits_value (dec_of_nat n) 0 = Some n"
proof (induction n rule: dec_of_nat.induct)
  case (1 n)
  show ?case
  proof (cases "n < 10")
    case True
    then show ?thesis by (subst dec_of_nat.simps) (simp add: decimal_value_ascii)
  next
    case False
    with 1 have "digits_value (dec_of_nat (n div 10)) 0 = Some (n div 10)" by simp
    moreover have "10 * (n div 10) + n mod 10 = n" by simp
    ultimately show ?thesis
      using False by (subst dec_of_nat.simps) (simp add: digits_value_append decimal_value_ascii)
  qed
qed

lemma dec_of_nat_nonempty [simp]: "dec_of_nat n \<noteq> []"
  by (subst dec_of_nat.simps) simp

lemma dec_of_nat_ascii: "c \<in> set (dec_of_nat n) \<Longrightarrow> 48 \<le> c \<and> c \<le> 57"
proof (induction n rule: dec_of_nat.induct)
  case (1 n)
  then show ?case
    by (subst (asm) (2) dec_of_nat.simps) (auto split: if_splits)
qed

lemma dec_of_nat_inject [simp]: "dec_of_nat m = dec_of_nat n \<longleftrightarrow> m = n"
  by (metis digits_value_dec_of_nat option.inject)

lemma dec_of_int_inject [simp]: "dec_of_int i = dec_of_int j \<longleftrightarrow> i = j"
proof -
  have "dec_of_nat n \<noteq> 45 # xs" for n xs
    using dec_of_nat_ascii [of 45 n] by auto
  moreover have "45 # xs \<noteq> dec_of_nat n" for n xs
    using calculation by metis
  ultimately show ?thesis
    by (auto simp: dec_of_int_def)
qed

lemma space_point_not_ascii_digit: "48 \<le> c \<Longrightarrow> c \<le> 57 \<Longrightarrow> \<not> is_space c"
  by (auto simp: is_space_def space_points_def)

lemma drop_underscores_none: "xs \<noteq> [] \<Longrightarrow> 95 \<notin> set xs \<Longrightarrow> drop_underscores xs = Some xs"
  by (induction xs rule: drop_underscores.induct) auto

lemma py_strip_dec_of_nat [simp]: "py_strip (dec_of_nat n) = dec_of_nat n"
proof (rule py_strip_no_edges)
  show "\<not> is_space (hd (dec_of_nat n))" and "\<not> is_space (last (dec_of_nat n))"
    using dec_of_nat_ascii space_point_not_ascii_digit
    by (meson dec_of_nat_nonempty hd_in_set last_in_set)+
qed simp

text \<open>The decimal text of a number reads back as that number.\<close>

lemma py_int_dec_of_nat:
  assumes "length (dec_of_nat n) \<le> int_max_str_digits"
  shows "py_int (dec_of_nat n) = Inr (int n)"
proof -
  obtain c cs where d: "dec_of_nat n = c # cs" by (cases "dec_of_nat n") auto
  have c: "48 \<le> c" "c \<le> 57" using dec_of_nat_ascii [of c n] d by simp_all
  have "95 \<notin> set (dec_of_nat n)" using dec_of_nat_ascii [of 95 n] by auto
  then have "drop_underscores (dec_of_nat n) = Some (dec_of_nat n)"
    by (simp add: drop_underscores_none)
  with assms have "unsigned_of (dec_of_nat n) = Inr n"
    by (simp add: unsigned_of_def digits_value_dec_of_nat)
  moreover have "py_strip (c # cs) = c # cs" using py_strip_dec_of_nat [of n] d by simp
  ultimately show ?thesis
    using c d by (simp add: py_int_def)
qed

lemma ascii_digit_is_digit: "48 \<le> c \<Longrightarrow> c \<le> 57 \<Longrightarrow> is_digit c"
  using decimal_value_ascii [of "c - 48"] by (auto simp: is_digit_def)

lemma py_isdigit_dec_of_nat [simp]: "py_isdigit (dec_of_nat n)"
  by (auto simp: py_isdigit_def list_all_iff dest!: dec_of_nat_ascii intro: ascii_digit_is_digit)

end
