(* ===== verification/Utf8.thy ===== *)
theory Utf8
  imports PyText
begin

text \<open>
  UTF-8 as Python's \<^verbatim>\<open>str.encode("utf-8")\<close> and
  \<^verbatim>\<open>bytes.decode("utf-8", errors="ignore")\<close> do it: the encoder refuses surrogates, the
  decoder drops every byte that is not part of a well-formed sequence. The main lemma is the
  one truncation needs: cutting an encoded text at any byte and decoding leniently gives a
  prefix of the text, the longest whose encoding fits.
\<close>

section \<open>Encoding\<close>

type_synonym bytes = "nat list"

definition surrogate :: "nat \<Rightarrow> bool" where
  "surrogate c \<longleftrightarrow> 55296 \<le> c \<and> c \<le> 57343"

definition utf8_char :: "nat \<Rightarrow> bytes" where
  "utf8_char c =
     (if c < 128 then [c]
      else if c < 2048 then [192 + c div 64, 128 + c mod 64]
      else if c < 65536 then [224 + c div 4096, 128 + c div 64 mod 64, 128 + c mod 64]
      else [240 + c div 262144, 128 + c div 4096 mod 64, 128 + c div 64 mod 64, 128 + c mod 64])"

definition utf8_encode :: "pystr \<Rightarrow> py_error + bytes" where
  "utf8_encode s =
     mapR concat (mapE (\<lambda>c. if surrogate c \<or> 1114111 < c then Inl UnicodeEncodeError
                            else Inr (utf8_char c)) s)"

text \<open>A text that the encoder accepts: the scalar values only.\<close>

definition scalar :: "nat \<Rightarrow> bool" where
  "scalar c \<longleftrightarrow> \<not> surrogate c \<and> c \<le> 1114111"

lemma utf8_encode_iff:
  "utf8_encode s = Inr bs \<longleftrightarrow> list_all scalar s \<and> bs = concat (map utf8_char s)"
proof -
  let ?f = "\<lambda>c. if surrogate c \<or> 1114111 < c then Inl UnicodeEncodeError else Inr (utf8_char c)"
  have "mapE ?f s = Inr ys \<longleftrightarrow> list_all scalar s \<and> ys = map utf8_char s" for ys
    by (induction s arbitrary: ys) (auto simp: scalar_def)
  then show ?thesis by (auto simp: utf8_encode_def)
qed

lemma utf8_encode_error:
  "utf8_encode s = Inl e \<Longrightarrow> \<not> list_all scalar s"
  using utf8_encode_iff [of s "concat (map utf8_char s)"] by auto

lemma utf8_encode_scalars [simp]:
  "list_all scalar s \<Longrightarrow> utf8_encode s = Inr (concat (map utf8_char s))"
  by (simp add: utf8_encode_iff)

section \<open>Lenient decoding\<close>

definition continuation :: "nat \<Rightarrow> bool" where
  "continuation b \<longleftrightarrow> 128 \<le> b \<and> b \<le> 191"

text \<open>The second byte that may follow a lead byte of a three- or four-byte sequence.\<close>

definition second3 :: "nat \<Rightarrow> nat \<Rightarrow> bool" where
  "second3 b0 b1 \<longleftrightarrow> continuation b1 \<and> (b0 = 224 \<longrightarrow> 160 \<le> b1) \<and> (b0 = 237 \<longrightarrow> b1 \<le> 159)"

definition second4 :: "nat \<Rightarrow> nat \<Rightarrow> bool" where
  "second4 b0 b1 \<longleftrightarrow> continuation b1 \<and> (b0 = 240 \<longrightarrow> 144 \<le> b1) \<and> (b0 = 244 \<longrightarrow> b1 \<le> 143)"

fun utf8_decode_ignore :: "bytes \<Rightarrow> pystr" where
  "utf8_decode_ignore [] = []"
| "utf8_decode_ignore (b0 # bs) =
     (if b0 < 128 then b0 # utf8_decode_ignore bs
      else if 194 \<le> b0 \<and> b0 \<le> 223 then
        (case bs of
           b1 # r \<Rightarrow>
             (if continuation b1 then (64 * (b0 - 192) + (b1 - 128)) # utf8_decode_ignore r
              else utf8_decode_ignore bs)
         | [] \<Rightarrow> [])
      else if 224 \<le> b0 \<and> b0 \<le> 239 then
        (case bs of
           b1 # b2 # r \<Rightarrow>
             (if second3 b0 b1 \<and> continuation b2
              then (4096 * (b0 - 224) + 64 * (b1 - 128) + (b2 - 128)) # utf8_decode_ignore r
              else utf8_decode_ignore bs)
         | _ \<Rightarrow> utf8_decode_ignore bs)
      else if 240 \<le> b0 \<and> b0 \<le> 244 then
        (case bs of
           b1 # b2 # b3 # r \<Rightarrow>
             (if second4 b0 b1 \<and> continuation b2 \<and> continuation b3
              then (262144 * (b0 - 240) + 4096 * (b1 - 128) + 64 * (b2 - 128) + (b3 - 128)) #
                     utf8_decode_ignore r
              else utf8_decode_ignore bs)
         | _ \<Rightarrow> utf8_decode_ignore bs)
      else utf8_decode_ignore bs)"

declare utf8_decode_ignore.simps(2) [simp del]

lemma length_utf8_char: "1 \<le> length (utf8_char c) \<and> length (utf8_char c) \<le> 4"
  by (simp add: utf8_char_def)

lemma utf8_char_nonempty [simp]: "utf8_char c \<noteq> []"
  using length_utf8_char [of c] by auto

lemma decode_stray [simp]: "continuation b \<Longrightarrow> utf8_decode_ignore (b # bs) = utf8_decode_ignore bs"
  by (subst utf8_decode_ignore.simps(2)) (simp add: continuation_def)

text \<open>
  The base-64 digits of a code point. Working with the digits instead of \<open>div\<close> and \<open>mod\<close>
  keeps the goals linear.
\<close>

lemma base64_digits:
  fixes c :: nat
  obtains d3 d2 d1 d0 where "c = 262144 * d3 + 4096 * d2 + 64 * d1 + d0"
    and "d2 < 64" "d1 < 64" "d0 < 64"
    and "c mod 64 = d0" "c div 64 mod 64 = d1" "c div 4096 mod 64 = d2" "c div 262144 = d3"
    and "c div 64 = 4096 * d3 + 64 * d2 + d1" "c div 4096 = 64 * d3 + d2"
proof -
  have q1: "c div 4096 = c div 64 div 64" and q2: "c div 262144 = c div 4096 div 64"
    by (simp_all add: div_mult2_eq [symmetric])
  have e0: "c = 64 * (c div 64) + c mod 64" by simp
  have e1: "c div 64 = 64 * (c div 4096) + c div 64 mod 64" unfolding q1 by simp
  have e2: "c div 4096 = 64 * (c div 262144) + c div 4096 mod 64" unfolding q2 by simp
  show thesis
  proof (rule that [of "c div 262144" "c div 4096 mod 64" "c div 64 mod 64" "c mod 64"])
    show "c div 64 = 4096 * (c div 262144) + 64 * (c div 4096 mod 64) + c div 64 mod 64"
      using e1 e2 by linarith
    then show "c = 262144 * (c div 262144) + 4096 * (c div 4096 mod 64) + 64 * (c div 64 mod 64) + c mod 64"
      using e0 by linarith
  qed (rule e2 mod_less_divisor refl zero_less_numeral)+
qed

lemma continuation_low [simp]: "n < 64 \<Longrightarrow> continuation (128 + n)"
  by (simp add: continuation_def)

text \<open>One encoded character in front of anything decodes to that character.\<close>

lemma decode_char_append:
  assumes "scalar c"
  shows "utf8_decode_ignore (utf8_char c @ r) = c # utf8_decode_ignore r"
proof -
  obtain d3 d2 d1 d0 where c: "c = 262144 * d3 + 4096 * d2 + 64 * d1 + d0"
    and lt: "d2 < 64" "d1 < 64" "d0 < 64"
    and ds: "c mod 64 = d0" "c div 64 mod 64 = d1" "c div 4096 mod 64 = d2" "c div 262144 = d3"
    and qs: "c div 64 = 4096 * d3 + 64 * d2 + d1" "c div 4096 = 64 * d3 + d2"
    by (rule base64_digits)
  consider (one) "c < 128" | (two) "128 \<le> c" "c < 2048" | (three) "2048 \<le> c" "c < 65536"
    | (four) "65536 \<le> c" "c \<le> 1114111"
    using assms by (force simp: scalar_def)
  then show ?thesis
  proof cases
    case one
    then show ?thesis by (simp add: utf8_char_def utf8_decode_ignore.simps(2))
  next
    case two
    then have d: "d3 = 0" "d2 = 0" using c by linarith+
    then have d1: "2 \<le> d1" "d1 < 32" using two c lt by linarith+
    have "utf8_char c = [192 + d1, 128 + d0]"
      using two d by (simp add: utf8_char_def ds qs)
    moreover have "64 * d1 + d0 = c" using c d by simp
    ultimately show ?thesis using d1 lt
      by (simp add: utf8_decode_ignore.simps(2) [of "192 + d1"])
  next
    case three
    then have d: "d3 = 0" "d2 < 16" using c lt by linarith+
    have "second3 (224 + d2) (128 + d1)"
      using three assms c d lt by (auto simp: second3_def scalar_def surrogate_def)
    moreover have "utf8_char c = [224 + d2, 128 + d1, 128 + d0]"
      using three d lt by (simp add: utf8_char_def ds qs)
    moreover have "4096 * d2 + 64 * d1 + d0 = c" using c d by simp
    ultimately show ?thesis using d lt
      by (simp add: utf8_decode_ignore.simps(2) [of "224 + d2"])
  next
    case four
    then have d: "d3 < 5" using c by linarith
    have "second4 (240 + d3) (128 + d2)"
      using four c d lt by (auto simp: second4_def)
    moreover have "utf8_char c = [240 + d3, 128 + d2, 128 + d1, 128 + d0]"
      using four by (simp add: utf8_char_def ds)
    ultimately show ?thesis using d lt
      by (simp add: utf8_decode_ignore.simps(2) [of "240 + d3"] c)
  qed
qed

text \<open>A character cut short decodes to nothing: a lead byte alone is dropped, and so is
  every continuation byte after it.\<close>

lemma decode_lead_short:
  "192 \<le> b \<Longrightarrow> utf8_decode_ignore [b] = []"
  "224 \<le> b \<Longrightarrow> continuation b1 \<Longrightarrow> utf8_decode_ignore [b, b1] = []"
  "240 \<le> b \<Longrightarrow> continuation b1 \<Longrightarrow> continuation b2 \<Longrightarrow> utf8_decode_ignore [b, b1, b2] = []"
  by (simp_all add: utf8_decode_ignore.simps(2) [of b])

lemma decode_cut_char:
  assumes "k < length (utf8_char c)" and "scalar c"
  shows "utf8_decode_ignore (take k (utf8_char c)) = []"
proof -
  have cont: "continuation (128 + n mod 64)" for n by simp
  have k: "k = 0 \<or> k = 1 \<or> k = 2 \<or> k = 3"
    using assms(1) length_utf8_char [of c] by linarith
  consider "c < 128" | "128 \<le> c" "c < 2048" | "2048 \<le> c" "c < 65536" | "65536 \<le> c"
    by linarith
  then show ?thesis
    using assms(1) k
    by cases (auto simp: utf8_char_def decode_lead_short cont)
qed

text \<open>
  Cutting the encoding of a text after any number of bytes and decoding leniently gives
  the characters that fit whole.
\<close>

fun fitting :: "nat \<Rightarrow> pystr \<Rightarrow> pystr" where
  "fitting k [] = []"
| "fitting k (c # cs) =
     (if length (utf8_char c) \<le> k then c # fitting (k - length (utf8_char c)) cs else [])"

lemma decode_take:
  "list_all scalar s \<Longrightarrow> utf8_decode_ignore (take k (concat (map utf8_char s))) = fitting k s"
proof (induction s arbitrary: k)
  case Nil
  then show ?case by simp
next
  case (Cons c cs)
  then show ?case
    by (cases "length (utf8_char c) \<le> k") (simp_all add: decode_char_append decode_cut_char)
qed

lemma decode_encode: "utf8_encode s = Inr bs \<Longrightarrow> utf8_decode_ignore bs = s"
proof -
  have "list_all scalar s \<Longrightarrow> utf8_decode_ignore (concat (map utf8_char s)) = s" for s
    by (induction s) (simp_all add: decode_char_append)
  then show "utf8_encode s = Inr bs \<Longrightarrow> utf8_decode_ignore bs = s"
    by (simp add: utf8_encode_iff)
qed

lemma fitting_prefix: "\<exists>r. s = fitting k s @ r"
  by (induction k s rule: fitting.induct) auto

lemma fitting_scalar: "list_all scalar s \<Longrightarrow> list_all scalar (fitting k s)"
  by (induction k s rule: fitting.induct) auto

lemma fitting_length: "length (concat (map utf8_char (fitting k s))) \<le> k"
  by (induction k s rule: fitting.induct) auto

text \<open>What is cut off is less than one more character: at most three bytes are lost.\<close>

lemma fitting_maximal:
  "k \<le> length (concat (map utf8_char s)) \<Longrightarrow> k < length (concat (map utf8_char (fitting k s))) + 4"
proof (induction k s rule: fitting.induct)
  case (1 k)
  then show ?case by simp
next
  case (2 k c cs)
  show ?case
  proof (cases "length (utf8_char c) \<le> k")
    case True
    with 2 have "k - length (utf8_char c) <
        length (concat (map utf8_char (fitting (k - length (utf8_char c)) cs))) + 4"
      by (simp add: le_diff_conv)
    with True show ?thesis by simp
  next
    case False
    with length_utf8_char [of c] show ?thesis by simp
  qed
qed

lemma utf8_encode_ascii: "list_all (\<lambda>c. c < 128) s \<Longrightarrow> utf8_encode s = Inr s"
proof -
  assume a: "list_all (\<lambda>c. c < 128) s"
  then have "list_all scalar s" by (auto simp: list_all_iff scalar_def surrogate_def)
  moreover from a have "concat (map utf8_char s) = s"
    by (induction s) (simp_all add: utf8_char_def)
  ultimately show ?thesis by simp
qed

end
