(* ===== verification/PyValue.thy ===== *)
theory PyValue
  imports Utf8
begin

text \<open>
  The dynamic values the service handles: what \<^verbatim>\<open>orjson.loads\<close> returns for a message body
  and what a normalized record holds. The Python operations on them (truth value, equality,
  \<^verbatim>\<open>.get\<close>, subscription, iteration, \<^verbatim>\<open>in\<close>, \<^verbatim>\<open>or\<close>, \<^verbatim>\<open>len\<close>, \<^verbatim>\<open>str\<close>) return errors as values.
  The record \<open>runtime\<close> collects the code outside the repository that the models call.
\<close>

section \<open>Values\<close>

datatype pyval =
    PNone
  | PBool bool
  | PInt int
  | PFloat rat
  | PStr pystr
  | PList "pyval list"
  | PDict "(pystr \<times> pyval) list"

text \<open>
  What the modelled code calls outside \<^verbatim>\<open>src/\<close>: the shared runtime package (\<^verbatim>\<open>common\<close>) and
  the parts of the standard library whose result the code uses as opaque text.
\<close>

record runtime =
  map_discogs_formats :: "pyval list \<Rightarrow> py_error + (pystr \<times> pyval) list"
  flatten_descriptions :: "pyval \<Rightarrow> py_error + pystr list"
  legacy_format_names_to_media :: "pystr list \<Rightarrow> py_error + (pystr \<times> pyval) list"
  medium_label :: "pystr \<Rightarrow> pystr option"
  strip_person_name :: "pystr \<Rightarrow> pystr"
  categorize_role :: "pyval \<Rightarrow> py_error + pystr"
  sha256_hexdigest :: "bytes \<Rightarrow> pystr"
  casefold :: "pystr \<Rightarrow> pystr"
  repr_other :: "pyval \<Rightarrow> pystr"

section \<open>Truth, type tests, equality\<close>

fun truthy :: "pyval \<Rightarrow> bool" where
  "truthy PNone = False"
| "truthy (PBool b) = b"
| "truthy (PInt i) = (i \<noteq> 0)"
| "truthy (PFloat q) = (q \<noteq> 0)"
| "truthy (PStr s) = (s \<noteq> [])"
| "truthy (PList xs) = (xs \<noteq> [])"
| "truthy (PDict d) = (d \<noteq> [])"

fun is_dict :: "pyval \<Rightarrow> bool" where
  "is_dict (PDict _) = True"
| "is_dict _ = False"

fun is_list :: "pyval \<Rightarrow> bool" where
  "is_list (PList _) = True"
| "is_list _ = False"

text \<open>\<^verbatim>\<open>True == 1 == 1.0\<close>: numbers and booleans are compared by value.\<close>

fun number_of :: "pyval \<Rightarrow> rat option" where
  "number_of (PBool b) = Some (of_bool b)"
| "number_of (PInt i) = Some (of_int i)"
| "number_of (PFloat q) = Some q"
| "number_of _ = None"

fun py_eq :: "pyval \<Rightarrow> pyval \<Rightarrow> bool" where
  "py_eq (PList xs) (PList ys) = list_all2 py_eq xs ys"
| "py_eq a b =
     (case (number_of a, number_of b) of
        (Some p, Some q) \<Rightarrow> p = q
      | _ \<Rightarrow> a = b)"

definition py_or :: "pyval \<Rightarrow> pyval \<Rightarrow> pyval" where
  "py_or a b = (if truthy a then a else b)"

section \<open>Dictionaries, subscription, iteration\<close>

text \<open>Field names are literals of the source, so keys are given as HOL strings.\<close>

definition dget :: "(pystr \<times> pyval) list \<Rightarrow> string \<Rightarrow> pyval" where
  "dget d k = (case map_of d (lit k) of None \<Rightarrow> PNone | Some v \<Rightarrow> v)"

definition dget_default :: "(pystr \<times> pyval) list \<Rightarrow> string \<Rightarrow> pyval \<Rightarrow> pyval" where
  "dget_default d k v0 = (case map_of d (lit k) of None \<Rightarrow> v0 | Some v \<Rightarrow> v)"

text \<open>\<^verbatim>\<open>v.get(k)\<close> and \<^verbatim>\<open>v.get(k, default)\<close>: only a dictionary has the method.\<close>

fun py_get :: "pyval \<Rightarrow> string \<Rightarrow> py_error + pyval" where
  "py_get (PDict d) k = Inr (dget d k)"
| "py_get _ k = Inl AttributeError"

fun py_get_default :: "pyval \<Rightarrow> string \<Rightarrow> pyval \<Rightarrow> py_error + pyval" where
  "py_get_default (PDict d) k v0 = Inr (dget_default d k v0)"
| "py_get_default _ k v0 = Inl AttributeError"

text \<open>\<^verbatim>\<open>v[k]\<close> with a string key.\<close>

fun py_item :: "pyval \<Rightarrow> string \<Rightarrow> py_error + pyval" where
  "py_item (PDict d) k = (case map_of d (lit k) of None \<Rightarrow> Inl KeyError | Some v \<Rightarrow> Inr v)"
| "py_item _ k = Inl TypeError"

text \<open>\<^verbatim>\<open>k in v\<close> for a dictionary.\<close>

definition dhas :: "(pystr \<times> pyval) list \<Rightarrow> string \<Rightarrow> bool" where
  "dhas d k \<longleftrightarrow> map_of d (lit k) \<noteq> None"

text \<open>\<^verbatim>\<open>for x in v\<close>: lists yield elements, dictionaries keys, texts one-character texts.\<close>

fun py_iter :: "pyval \<Rightarrow> py_error + pyval list" where
  "py_iter (PList xs) = Inr xs"
| "py_iter (PDict d) = Inr (map (PStr \<circ> fst) d)"
| "py_iter (PStr s) = Inr (map (\<lambda>c. PStr [c]) s)"
| "py_iter _ = Inl TypeError"

fun py_len :: "pyval \<Rightarrow> py_error + nat" where
  "py_len (PList xs) = Inr (length xs)"
| "py_len (PDict d) = Inr (length d)"
| "py_len (PStr s) = Inr (length s)"
| "py_len _ = Inl TypeError"

text \<open>\<^verbatim>\<open>v[0]\<close>. A dictionary has no key \<^verbatim>\<open>0\<close>: its keys are texts.\<close>

fun py_first :: "pyval \<Rightarrow> py_error + pyval" where
  "py_first (PList xs) = (case xs of [] \<Rightarrow> Inl IndexError | x # _ \<Rightarrow> Inr x)"
| "py_first (PStr s) = (case s of [] \<Rightarrow> Inl IndexError | c # _ \<Rightarrow> Inr (PStr [c]))"
| "py_first (PDict d) = Inl KeyError"
| "py_first _ = Inl TypeError"

text \<open>\<^verbatim>\<open>str(v)\<close>; the rendering of floats and containers is the interpreter's own.\<close>

fun py_str :: "'z runtime_scheme \<Rightarrow> pyval \<Rightarrow> pystr" where
  "py_str rt PNone = lit ''None''"
| "py_str rt (PBool b) = (if b then lit ''True'' else lit ''False'')"
| "py_str rt (PInt i) = dec_of_int i"
| "py_str rt (PStr s) = s"
| "py_str rt v = repr_other rt v"

section \<open>Facts\<close>

lemma py_get_Inr [simp]: "py_get v k = Inr x \<longleftrightarrow> (\<exists>d. v = PDict d \<and> x = dget d k)"
  by (cases v) auto

lemma py_get_default_Inr [simp]:
  "py_get_default v k v0 = Inr x \<longleftrightarrow> (\<exists>d. v = PDict d \<and> x = dget_default d k v0)"
  by (cases v) auto

lemma py_item_Inr [simp]: "py_item v k = Inr x \<longleftrightarrow> (\<exists>d. v = PDict d \<and> map_of d (lit k) = Some x)"
  by (cases v) (auto split: option.splits)

lemma dget_Some: "map_of d (lit k) = Some x \<Longrightarrow> dget d k = x"
  by (simp add: dget_def)

lemma dget_truthy: "truthy (dget d k) \<Longrightarrow> map_of d (lit k) = Some (dget d k)"
  by (auto simp: dget_def split: option.splits)

lemma dget_default_dget: "dget_default d k PNone = dget d k"
  by (simp add: dget_def dget_default_def)

lemma py_or_truthy [simp]: "truthy a \<Longrightarrow> py_or a b = a"
  by (simp add: py_or_def)

lemma py_eq_refl [simp]: "py_eq a a"
proof (induction a)
  case (PList xs)
  then show ?case by (simp add: list_all2_same)
qed (auto split: option.splits)

lemma py_eq_PStr [simp]: "py_eq (PStr s) v \<longleftrightarrow> v = PStr s" "py_eq v (PStr s) \<longleftrightarrow> v = PStr s"
  by (cases v; auto split: option.splits)+

lemma py_eq_PNone [simp]: "py_eq PNone v \<longleftrightarrow> v = PNone" "py_eq v PNone \<longleftrightarrow> v = PNone"
  by (cases v; auto split: option.splits)+

lemma py_eq_sym: "py_eq a b = py_eq b a"
proof (induction a b rule: py_eq.induct)
  case (1 xs ys)
  then show ?case by (simp add: list_all2_conv_all_nth in_set_conv_nth) metis
qed (auto split: option.splits)

text \<open>
  A list of reference objects keeps, for each one with a usable id, that id: the
  comprehension \<^verbatim>\<open>[x["id"] for x in (v or []) if x.get("id")]\<close>.
\<close>

fun ref_id :: "pyval \<Rightarrow> py_error + pyval option" where
  "ref_id x = bindE (py_get x ''id'') (\<lambda>i.
     if truthy i then bindE (py_item x ''id'') (\<lambda>j. Inr (Some j)) else Inr None)"

definition ref_ids :: "pyval \<Rightarrow> py_error + pyval list" where
  "ref_ids v = bindE (py_iter (py_or v (PList []))) (collectE ref_id)"

text \<open>The comprehension \<^verbatim>\<open>[x for x in (v or []) if x]\<close>.\<close>

definition truthy_items :: "pyval \<Rightarrow> py_error + pyval list" where
  "truthy_items v = bindE (py_iter (py_or v (PList []))) (\<lambda>xs. Inr (filter truthy xs))"

lemma ref_id_Some: "ref_id x = Inr (Some i) \<Longrightarrow> truthy i"
  by (auto simp: dget_def split: if_splits)

lemma ref_ids_truthy: "ref_ids v = Inr is \<Longrightarrow> i \<in> set is \<Longrightarrow> truthy i"
  by (auto simp: ref_ids_def collectE_set simp del: ref_id.simps dest: ref_id_Some)

lemma truthy_items_truthy: "truthy_items v = Inr xs \<Longrightarrow> x \<in> set xs \<Longrightarrow> truthy x"
  by (auto simp: truthy_items_def)

lemma truthy_not_None: "truthy v \<Longrightarrow> v \<noteq> PNone"
  by auto

end
