(* ===== verification/References.thy ===== *)
theory References
  imports PyValue
begin

text \<open>
  \<^verbatim>\<open>graphinator/reference_name.py\<close> and \<^verbatim>\<open>graphinator/master_reference.py\<close>: the display name
  a release carries for an entity it references, and the "no master" sentinel. Both return
  trimmed text or nothing.
\<close>

type_synonym pydict = "(pystr \<times> pyval) list"

section \<open>Reference names\<close>

definition reference_name :: "pyval \<Rightarrow> py_error + pyval" where
  "reference_name reference =
     bindE (py_get reference ''name'') (\<lambda>name.
       case name of
         PStr s \<Rightarrow> Inr (if py_strip s = [] then PNone else PStr (py_strip s))
       | _ \<Rightarrow> Inr PNone)"

lemma reference_name_dict:
  "reference_name (PDict d) =
     Inr (case dget d ''name'' of
            PStr s \<Rightarrow> (if py_strip s = [] then PNone else PStr (py_strip s))
          | _ \<Rightarrow> PNone)"
  by (simp add: reference_name_def split: pyval.splits)

lemma reference_name_cases:
  assumes "reference_name r = Inr v"
  obtains "v = PNone" | s where "v = PStr s" and "s \<noteq> []" and "py_strip s = s"
proof -
  from assms obtain d where v: "v = (case dget d ''name'' of
      PStr s \<Rightarrow> (if py_strip s = [] then PNone else PStr (py_strip s)) | _ \<Rightarrow> PNone)"
    by (cases r) (auto simp: reference_name_dict, auto simp: reference_name_def)
  with that show thesis by (cases "dget d ''name''") (auto split: if_splits)
qed

section \<open>The no-master sentinel\<close>

definition NO_MASTER_ID :: pystr where
  "NO_MASTER_ID = lit ''0''"

definition usable_master_id :: "pyval \<Rightarrow> pystr option" where
  "usable_master_id value =
     (case value of
        PInt i \<Rightarrow> (let t = dec_of_int i in if t = [] \<or> t = NO_MASTER_ID then None else Some t)
      | PStr s \<Rightarrow> (let t = py_strip s in if t = [] \<or> t = NO_MASTER_ID then None else Some t)
      | _ \<Rightarrow> None)"

lemma dec_of_int_nonempty [simp]: "dec_of_int i \<noteq> []"
  by (simp add: dec_of_int_def)

lemma py_strip_dec_of_int [simp]: "py_strip (dec_of_int i) = dec_of_int i"
proof (cases "i < 0")
  case True
  let ?ds = "dec_of_nat (nat (- i))"
  have "\<not> is_space (last (45 # ?ds))"
    using space_point_not_ascii_digit dec_of_nat_ascii [of "last ?ds" "nat (- i)"] by simp
  moreover have "\<not> is_space 45" by (simp add: is_space_def space_points_def)
  ultimately show ?thesis
    using True by (simp add: dec_of_int_def py_strip_no_edges)
qed (simp add: dec_of_int_def)

lemma dec_of_int_0: "dec_of_int 0 = NO_MASTER_ID"
  by (simp add: dec_of_int_def NO_MASTER_ID_def lit_def dec_of_nat.simps)

lemma dec_of_int_sentinel [simp]: "dec_of_int i = NO_MASTER_ID \<longleftrightarrow> i = 0"
  by (metis dec_of_int_0 dec_of_int_inject)

lemma usable_master_id_Some:
  assumes "usable_master_id v = Some t"
  shows "t \<noteq> []" and "t \<noteq> NO_MASTER_ID" and "py_strip t = t"
  using assms by (auto simp: usable_master_id_def Let_def split: pyval.splits if_splits)

lemma usable_master_id_None_iff:
  "usable_master_id v = None \<longleftrightarrow>
     (case v of PInt i \<Rightarrow> i = 0 | PStr s \<Rightarrow> py_strip s = [] \<or> py_strip s = NO_MASTER_ID | _ \<Rightarrow> True)"
  by (auto simp: usable_master_id_def Let_def split: pyval.splits)

text \<open>
  The text that comes out is a fixed point: passing a usable id through the rule again, as
  the second write path does with an already normalized id, changes nothing.
\<close>

lemma usable_master_id_fixed: "usable_master_id v = Some t \<Longrightarrow> usable_master_id (PStr t) = Some t"
  using usable_master_id_Some [of v t] by (simp add: usable_master_id_def)

text \<open>The number and the text of an id, padded or not, are one id.\<close>

lemma usable_master_id_int_text:
  "usable_master_id (PInt i) = usable_master_id (PStr (dec_of_int i))"
  by (simp add: usable_master_id_def)

end
