(* ===== verification/KeyedRows.thy ===== *)
theory KeyedRows
  imports References
begin

text \<open>
  The contract the two row builders of a release share. \<^verbatim>\<open>issued_on_rows\<close> and
  \<^verbatim>\<open>credited_to_rows\<close> both run over the items of a canonical block, skip the unusable
  ones, and accumulate into a dictionary so that several items with one key make one row, in
  source order. The locale states what one step promises; its consequences for the whole
  loop are proved once and used by both.
\<close>

locale keyed_rows =
  fixes step :: "'i \<Rightarrow> ('k \<times> 'r) list \<Rightarrow> py_error + ('k \<times> 'r) list"
    and key :: "'i \<Rightarrow> py_error + 'k option"
    and row_ok :: "'k \<Rightarrow> 'r \<Rightarrow> bool"
  assumes step_key: "step i d = Inr d' \<Longrightarrow> \<exists>ko. key i = Inr ko"
    and step_skip: "step i d = Inr d' \<Longrightarrow> key i = Inr None \<Longrightarrow> d' = d"
    and step_new: "step i d = Inr d' \<Longrightarrow> key i = Inr (Some k) \<Longrightarrow> k \<notin> fst ` set d \<Longrightarrow>
        \<exists>r. d' = d @ [(k, r)]"
    and step_old: "step i d = Inr d' \<Longrightarrow> key i = Inr (Some k) \<Longrightarrow> k \<in> fst ` set d \<Longrightarrow>
        map fst d' = map fst d"
    and step_ok: "step i d = Inr d' \<Longrightarrow> \<forall>(k, r) \<in> set d. row_ok k r \<Longrightarrow>
        \<forall>(k, r) \<in> set d'. row_ok k r"
begin

text \<open>The keys after the loop are the usable keys of the items, each once, first seen first.\<close>

lemma step_keys:
  assumes "step i d = Inr d'"
  obtains ko where "key i = Inr ko"
    and "map fst d' = (case ko of None \<Rightarrow> map fst d | Some k \<Rightarrow> dict_key k (map fst d))"
proof -
  obtain ko where ko: "key i = Inr ko" using step_key [OF assms] by blast
  have "map fst d' = (case ko of None \<Rightarrow> map fst d | Some k \<Rightarrow> dict_key k (map fst d))"
    using step_skip [OF assms] step_old [OF assms] step_new [OF assms] ko
    by (auto simp: dict_key_def split: option.splits)
  with ko that show thesis by blast
qed

lemma loop_keys_from:
  "foldE step items d = Inr d' \<Longrightarrow>
     \<exists>ks. collectE key items = Inr ks \<and> map fst d' = fold dict_key ks (map fst d)"
proof (induction items arbitrary: d)
  case (Cons i items)
  then obtain d1 where d1: "step i d = Inr d1" and rest: "foldE step items d1 = Inr d'" by auto
  from Cons.IH [OF rest] obtain ks where ks: "collectE key items = Inr ks"
    "map fst d' = fold dict_key ks (map fst d1)" by blast
  from d1 obtain ko where "key i = Inr ko"
    "map fst d1 = (case ko of None \<Rightarrow> map fst d | Some k \<Rightarrow> dict_key k (map fst d))"
    by (rule step_keys)
  with ks show ?case by (auto split: option.splits)
qed simp

lemma loop_keys:
  assumes "foldE step items [] = Inr d"
  obtains ks where "collectE key items = Inr ks" and "map fst d = dict_fromkeys ks"
  using loop_keys_from [OF assms] by (auto simp: dict_fromkeys_def)

lemma loop_distinct: "foldE step items [] = Inr d \<Longrightarrow> distinct (map fst d)"
  by (metis distinct_dict_fromkeys loop_keys)

lemma loop_key_set:
  assumes "foldE step items [] = Inr d"
  shows "k \<in> fst ` set d \<longleftrightarrow> (\<exists>i \<in> set items. key i = Inr (Some k))"
proof -
  obtain ks where ks: "collectE key items = Inr ks" "map fst d = dict_fromkeys ks"
    using assms by (rule loop_keys)
  then have "fst ` set d = set ks" by (metis list.set_map set_dict_fromkeys)
  then show ?thesis by (simp add: collectE_set [OF ks(1)])
qed

lemma loop_ok: "foldE step items [] = Inr d \<Longrightarrow> (k, r) \<in> set d \<Longrightarrow> row_ok k r"
  using foldE_invariant [of step items "[]" d "\<lambda>d. \<forall>(k, r) \<in> set d. row_ok k r"] step_ok
  by fastforce

end

end
