(* ===== verification/PropertyGraph.thy ===== *)
theory PropertyGraph
  imports PyValue
begin

text \<open>
  The labelled property graph that the service's Cypher statements read and write, and the
  clauses those statements are made of. A node is identified by its label and the value of
  its key property, an edge by its endpoints, its type and the properties inside its
  \<^verbatim>\<open>MERGE\<close> pattern; a property that is absent reads \<open>PNone\<close>, because Cypher does not
  distinguish an absent property from a null one and \<^verbatim>\<open>SET x.p = null\<close> removes it.
\<close>

section \<open>Graphs\<close>

datatype nlabel = Artist | Label | Master | Release | Genre | Style | Person | Company | Medium | MediaFamily

datatype reltype = MEMBER_OF | ALIAS_OF | SUBLABEL_OF | BY | ON | DERIVED_FROM | IS | PART_OF
  | ISSUED_ON | IN_FAMILY | CREDITED_TO | CREDITED_ON | SAME_AS | HAS_STYLE

type_synonym node = "nlabel \<times> pyval"

datatype edge = Edge (e_src: node) (e_rel: reltype) (e_dst: node) (e_key: "pyval list")

record graph =
  nodes :: "node set"
  nprop :: "node \<Rightarrow> string \<Rightarrow> pyval"
  edges :: "edge set"
  eprop :: "edge \<Rightarrow> string \<Rightarrow> pyval"

definition empty_graph :: graph where
  "empty_graph = \<lparr>nodes = {}, nprop = (\<lambda>_ _. PNone), edges = {}, eprop = (\<lambda>_ _. PNone)\<rparr>"

text \<open>
  The schema: which labels an edge of each type joins, and how many properties its merge
  pattern has.
\<close>

fun schema :: "reltype \<Rightarrow> nlabel set \<times> nlabel set \<times> nat" where
  "schema MEMBER_OF = ({Artist}, {Artist}, 0)"
| "schema ALIAS_OF = ({Artist}, {Artist}, 0)"
| "schema SUBLABEL_OF = ({Label}, {Label}, 0)"
| "schema BY = ({Master, Release}, {Artist}, 0)"
| "schema ON = ({Release}, {Label}, 0)"
| "schema DERIVED_FROM = ({Release}, {Master}, 0)"
| "schema IS = ({Master, Release}, {Genre, Style}, 0)"
| "schema PART_OF = ({Style}, {Genre}, 0)"
| "schema ISSUED_ON = ({Release}, {Medium}, 1)"
| "schema IN_FAMILY = ({Medium}, {MediaFamily}, 0)"
| "schema CREDITED_TO = ({Release}, {Company}, 2)"
| "schema CREDITED_ON = ({Person}, {Release}, 1)"
| "schema SAME_AS = ({Person}, {Artist}, 0)"
| "schema HAS_STYLE = ({Label}, {Style}, 0)"

definition edge_ok :: "edge \<Rightarrow> bool" where
  "edge_ok e \<longleftrightarrow>
     (case schema (e_rel e) of (srcs, dsts, n) \<Rightarrow>
        fst (e_src e) \<in> srcs \<and> fst (e_dst e) \<in> dsts \<and> length (e_key e) = n) \<and>
     PNone \<notin> set (e_key e)"

lemma edge_ok_Edge [simp]:
  "edge_ok (Edge a t b k) \<longleftrightarrow>
     (case schema t of (srcs, dsts, n) \<Rightarrow> fst a \<in> srcs \<and> fst b \<in> dsts \<and> length k = n) \<and>
     PNone \<notin> set k"
  by (simp add: edge_ok_def)

text \<open>
  Well-formed graphs: edges join nodes of the graph the way the schema says, no node has a null key (the database
  refuses to merge one), and whatever is not in the graph has no properties.
\<close>

definition graph_wf :: "graph \<Rightarrow> bool" where
  "graph_wf g \<longleftrightarrow>
     finite (nodes g) \<and> finite (edges g) \<and>
     (\<forall>n \<in> nodes g. snd n \<noteq> PNone) \<and>
     (\<forall>e \<in> edges g. e_src e \<in> nodes g \<and> e_dst e \<in> nodes g \<and> edge_ok e) \<and>
     (\<forall>n k. n \<notin> nodes g \<longrightarrow> nprop g n k = PNone) \<and>
     (\<forall>e k. e \<notin> edges g \<longrightarrow> eprop g e k = PNone)"

section \<open>Clauses\<close>

text \<open>\<^verbatim>\<open>MERGE (n:L {key: v})\<close>: refused for a null key.\<close>

definition merge_node :: "node \<Rightarrow> graph \<Rightarrow> py_error + graph" where
  "merge_node n g =
     (if snd n = PNone then Inl CypherError else Inr (g\<lparr>nodes := insert n (nodes g)\<rparr>))"

text \<open>\<^verbatim>\<open>MERGE (a)-[:T {key}]->(b)\<close>: refused for a null property in the pattern.\<close>

definition merge_edge :: "edge \<Rightarrow> graph \<Rightarrow> py_error + graph" where
  "merge_edge e g =
     (if PNone \<in> set (e_key e) then Inl CypherError
      else Inr (g\<lparr>edges := insert e (edges g)\<rparr>))"

text \<open>\<^verbatim>\<open>SET n.k1 = v1, n.k2 = v2, ...\<close>\<close>

definition set_node :: "node \<Rightarrow> (string \<times> pyval) list \<Rightarrow> graph \<Rightarrow> graph" where
  "set_node n kvs g =
     g\<lparr>nprop := (nprop g)(n := fold (\<lambda>(k, v) p. p(k := v)) kvs (nprop g n))\<rparr>"

definition set_edge :: "edge \<Rightarrow> (string \<times> pyval) list \<Rightarrow> graph \<Rightarrow> graph" where
  "set_edge e kvs g =
     g\<lparr>eprop := (eprop g)(e := fold (\<lambda>(k, v) p. p(k := v)) kvs (eprop g e))\<rparr>"

text \<open>\<^verbatim>\<open>coalesce(x, y)\<close>.\<close>

definition coalesce :: "pyval \<Rightarrow> pyval \<Rightarrow> pyval" where
  "coalesce x y = (if x = PNone then y else x)"

text \<open>
  \<^verbatim>\<open>NOT x IN keep\<close> in a \<^verbatim>\<open>WHERE\<close>: true only when the comparison with every element is a
  definite no, so a null in the list keeps every row out.
\<close>

definition not_in :: "pyval \<Rightarrow> pyval list \<Rightarrow> bool" where
  "not_in x keep \<longleftrightarrow> x \<notin> set keep \<and> PNone \<notin> set keep"

text \<open>\<^verbatim>\<open>MATCH ... WHERE ... DELETE rel\<close>: the matched edges go, with their properties.\<close>

definition delete_edges :: "(edge \<Rightarrow> bool) \<Rightarrow> graph \<Rightarrow> graph" where
  "delete_edges P g =
     g\<lparr>edges := Set.filter (\<lambda>e. \<not> P e) (edges g),
       eprop := (\<lambda>e. if P e then (\<lambda>_. PNone) else eprop g e)\<rparr>"

text \<open>
  The shape most statements share, for one row:
  \<^verbatim>\<open>MATCH (m) MERGE (t) MERGE (edge)\<close>. A row whose match finds nothing has no effect.
\<close>

definition link :: "node \<Rightarrow> node \<Rightarrow> edge \<Rightarrow> graph \<Rightarrow> py_error + graph" where
  "link m t e g =
     (if m \<in> nodes g then bindE (merge_node t g) (merge_edge e) else Inr g)"

text \<open>The same with \<^verbatim>\<open>ON CREATE SET t.k = v ON MATCH SET t.k = coalesce(t.k, v)\<close>.\<close>

definition link_filling :: "node \<Rightarrow> node \<Rightarrow> string \<Rightarrow> pyval \<Rightarrow> edge \<Rightarrow> graph \<Rightarrow> py_error + graph" where
  "link_filling m t k v e g =
     (if m \<in> nodes g
      then bindE (merge_node t g) (\<lambda>g1.
             merge_edge e (set_node t [(k, if t \<in> nodes g then coalesce (nprop g t k) v else v)] g1))
      else Inr g)"

text \<open>\<^verbatim>\<open>MATCH (m) MATCH (t) MERGE (edge)\<close>.\<close>

definition link_matched :: "node \<Rightarrow> node \<Rightarrow> edge \<Rightarrow> graph \<Rightarrow> py_error + graph" where
  "link_matched m t e g = (if m \<in> nodes g \<and> t \<in> nodes g then merge_edge e g else Inr g)"

text \<open>The edge without properties of its own in its pattern.\<close>

abbreviation plain :: "node \<Rightarrow> reltype \<Rightarrow> node \<Rightarrow> edge" where
  "plain a t b \<equiv> Edge a t b []"

text \<open>
  One row of a prune: the edges of type \<open>t\<close> from \<open>n\<close> to nodes labelled \<open>lb\<close> whose key is
  not kept.
\<close>

definition stale :: "node \<Rightarrow> reltype \<Rightarrow> nlabel \<Rightarrow> pyval list \<Rightarrow> edge \<Rightarrow> bool" where
  "stale n t lb keep e \<longleftrightarrow>
     e_src e = n \<and> e_rel e = t \<and> fst (e_dst e) = lb \<and> not_in (snd (e_dst e)) keep"

section \<open>Effects of the clauses\<close>

lemma merge_node_Inr [simp]:
  "merge_node n g = Inr g' \<longleftrightarrow> snd n \<noteq> PNone \<and> g' = g\<lparr>nodes := insert n (nodes g)\<rparr>"
  by (auto simp: merge_node_def)

lemma merge_edge_Inr [simp]:
  "merge_edge e g = Inr g' \<longleftrightarrow> PNone \<notin> set (e_key e) \<and> g' = g\<lparr>edges := insert e (edges g)\<rparr>"
  by (auto simp: merge_edge_def)

lemma set_node_parts [simp]:
  "nodes (set_node n kvs g) = nodes g" "edges (set_node n kvs g) = edges g"
  "eprop (set_node n kvs g) = eprop g"
  by (simp_all add: set_node_def)

lemma set_edge_parts [simp]:
  "nodes (set_edge e kvs g) = nodes g" "edges (set_edge e kvs g) = edges g"
  "nprop (set_edge e kvs g) = nprop g"
  by (simp_all add: set_edge_def)

lemma delete_edges_parts [simp]:
  "nodes (delete_edges P g) = nodes g" "nprop (delete_edges P g) = nprop g"
  "edges (delete_edges P g) = {e \<in> edges g. \<not> P e}"
  by (simp_all add: delete_edges_def)

lemma nprop_set_node: "nprop (set_node n kvs g) m =
    (if m = n then fold (\<lambda>(k, v) p. p(k := v)) kvs (nprop g n) else nprop g m)"
  by (simp add: set_node_def)

text \<open>Rows that link a matched node to a merged one, taken together.\<close>

lemma foldE_link:
  assumes "foldE (\<lambda>r. link (m r) (t r) (e r)) rows g = Inr g'"
    and "\<And>r. r \<in> set rows \<Longrightarrow> m r \<in> nodes g"
  shows "nodes g' = nodes g \<union> t ` set rows" and "edges g' = edges g \<union> e ` set rows"
    and "nprop g' = nprop g" and "eprop g' = eprop g"
proof -
  have "nodes g' = nodes g \<union> t ` set rows \<and> edges g' = edges g \<union> e ` set rows \<and>
      nprop g' = nprop g \<and> eprop g' = eprop g"
    using assms
  proof (induction rows arbitrary: g)
    case (Cons r rows)
    then obtain g1 where g1: "link (m r) (t r) (e r) g = Inr g1"
      and rest: "foldE (\<lambda>r. link (m r) (t r) (e r)) rows g1 = Inr g'" by auto
    from g1 Cons.prems(2) [of r] have eq: "nodes g1 = insert (t r) (nodes g)"
      "edges g1 = insert (e r) (edges g)" "nprop g1 = nprop g" "eprop g1 = eprop g"
      by (auto simp: link_def)
    then have "\<And>r. r \<in> set rows \<Longrightarrow> m r \<in> nodes g1" using Cons.prems(2) by auto
    from Cons.IH [OF rest this] eq show ?case by auto
  qed simp
  then show "nodes g' = nodes g \<union> t ` set rows" and "edges g' = edges g \<union> e ` set rows"
    and "nprop g' = nprop g" and "eprop g' = eprop g" by simp_all
qed

lemma foldE_link_filling:
  assumes "foldE (\<lambda>r. link_filling (m r) (t r) k (v r) (e r)) rows g = Inr g'"
    and "\<And>r. r \<in> set rows \<Longrightarrow> m r \<in> nodes g"
  shows "nodes g' = nodes g \<union> t ` set rows" and "edges g' = edges g \<union> e ` set rows"
    and "eprop g' = eprop g"
    and "\<And>n. n \<notin> t ` set rows \<Longrightarrow> nprop g' n = nprop g n"
    and "\<And>n j. j \<noteq> k \<Longrightarrow> nprop g' n j = nprop g n j"
proof -
  have "nodes g' = nodes g \<union> t ` set rows \<and> edges g' = edges g \<union> e ` set rows \<and>
      eprop g' = eprop g \<and> (\<forall>n. n \<notin> t ` set rows \<longrightarrow> nprop g' n = nprop g n) \<and>
      (\<forall>n j. j \<noteq> k \<longrightarrow> nprop g' n j = nprop g n j)"
    using assms
  proof (induction rows arbitrary: g)
    case (Cons r rows)
    then obtain g1 where g1: "link_filling (m r) (t r) k (v r) (e r) g = Inr g1"
      and rest: "foldE (\<lambda>r. link_filling (m r) (t r) k (v r) (e r)) rows g1 = Inr g'" by auto
    from g1 Cons.prems(2) [of r] have eq: "nodes g1 = insert (t r) (nodes g)"
      "edges g1 = insert (e r) (edges g)" "eprop g1 = eprop g"
      "\<And>n. n \<noteq> t r \<Longrightarrow> nprop g1 n = nprop g n" "\<And>n j. j \<noteq> k \<Longrightarrow> nprop g1 n j = nprop g n j"
      by (auto simp: link_filling_def nprop_set_node)
    then have "\<And>r. r \<in> set rows \<Longrightarrow> m r \<in> nodes g1" using Cons.prems(2) by auto
    from Cons.IH [OF rest this] eq show ?case by auto
  qed simp
  then show "nodes g' = nodes g \<union> t ` set rows" and "edges g' = edges g \<union> e ` set rows"
    and "eprop g' = eprop g"
    and "\<And>n. n \<notin> t ` set rows \<Longrightarrow> nprop g' n = nprop g n"
    and "\<And>n j. j \<noteq> k \<Longrightarrow> nprop g' n j = nprop g n j" by blast+
qed

lemma foldE_link_matched:
  assumes "foldE (\<lambda>r. link_matched (m r) (t r) (e r)) rows g = Inr g'"
  shows "nodes g' = nodes g"
    and "edges g' = edges g \<union> e ` {r \<in> set rows. m r \<in> nodes g \<and> t r \<in> nodes g}"
    and "nprop g' = nprop g" and "eprop g' = eprop g"
proof -
  have "nodes g' = nodes g \<and>
      edges g' = edges g \<union> e ` {r \<in> set rows. m r \<in> nodes g \<and> t r \<in> nodes g} \<and>
      nprop g' = nprop g \<and> eprop g' = eprop g"
    using assms
  proof (induction rows arbitrary: g)
    case (Cons r rows)
    then obtain g1 where g1: "link_matched (m r) (t r) (e r) g = Inr g1"
      and rest: "foldE (\<lambda>r. link_matched (m r) (t r) (e r)) rows g1 = Inr g'" by auto
    from g1 have eq: "nodes g1 = nodes g" "nprop g1 = nprop g" "eprop g1 = eprop g"
      "edges g1 = (if m r \<in> nodes g \<and> t r \<in> nodes g then insert (e r) (edges g) else edges g)"
      by (auto simp: link_matched_def split: if_splits)
    from Cons.IH [OF rest] eq show ?case by auto
  qed simp
  then show "nodes g' = nodes g"
    and "edges g' = edges g \<union> e ` {r \<in> set rows. m r \<in> nodes g \<and> t r \<in> nodes g}"
    and "nprop g' = nprop g" and "eprop g' = eprop g" by simp_all
qed

text \<open>Rows that only merge nodes.\<close>

lemma foldE_merge_node:
  assumes "foldE merge_node ns g = Inr g'"
  shows "g' = g\<lparr>nodes := nodes g \<union> set ns\<rparr>"
  using assms
proof (induction ns arbitrary: g)
  case (Cons n ns)
  then have "foldE merge_node ns (g\<lparr>nodes := insert n (nodes g)\<rparr>) = Inr g'" by simp
  from Cons.IH [OF this] show ?case by simp
qed simp

text \<open>Rows that prune: an edge goes when some row calls it stale.\<close>

definition prune_rows :: "('r \<Rightarrow> edge \<Rightarrow> bool) \<Rightarrow> 'r list \<Rightarrow> graph \<Rightarrow> graph" where
  "prune_rows P rows g = fold (\<lambda>r. delete_edges (P r)) rows g"

lemma prune_rows_parts [simp]:
  "nodes (prune_rows P rows g) = nodes g"
  "nprop (prune_rows P rows g) = nprop g"
  "edges (prune_rows P rows g) = {e \<in> edges g. \<forall>r \<in> set rows. \<not> P r e}"
proof -
  have "nodes (fold (\<lambda>r. delete_edges (P r)) rows g) = nodes g \<and>
    nprop (fold (\<lambda>r. delete_edges (P r)) rows g) = nprop g \<and>
    edges (fold (\<lambda>r. delete_edges (P r)) rows g) = {e \<in> edges g. \<forall>r \<in> set rows. \<not> P r e}"
    by (induction rows arbitrary: g) auto
  then show "nodes (prune_rows P rows g) = nodes g"
    "nprop (prune_rows P rows g) = nprop g"
    "edges (prune_rows P rows g) = {e \<in> edges g. \<forall>r \<in> set rows. \<not> P r e}"
    by (simp_all add: prune_rows_def)
qed

lemma prune_rows_eprop:
  "eprop (prune_rows P rows g) e = (if \<exists>r \<in> set rows. P r e then (\<lambda>_. PNone) else eprop g e)"
proof -
  have "eprop (fold (\<lambda>r. delete_edges (P r)) rows g) e =
      (if \<exists>r \<in> set rows. P r e then (\<lambda>_. PNone) else eprop g e)"
    by (induction rows arbitrary: g) (auto simp: delete_edges_def)
  then show ?thesis by (simp add: prune_rows_def)
qed

section \<open>Well-formedness is kept\<close>

lemma graph_wf_empty: "graph_wf empty_graph"
  by (simp add: graph_wf_def empty_graph_def)

lemma graph_wf_merge_node: "graph_wf g \<Longrightarrow> merge_node n g = Inr g' \<Longrightarrow> graph_wf g'"
  by (auto simp: graph_wf_def)

lemma graph_wf_merge_edge:
  "graph_wf g \<Longrightarrow> e_src e \<in> nodes g \<Longrightarrow> e_dst e \<in> nodes g \<Longrightarrow> edge_ok e \<Longrightarrow> merge_edge e g = Inr g' \<Longrightarrow> graph_wf g'"
  by (auto simp: graph_wf_def)

lemma graph_wf_set_node: "graph_wf g \<Longrightarrow> n \<in> nodes g \<Longrightarrow> graph_wf (set_node n kvs g)"
  by (auto simp: graph_wf_def set_node_def)

lemma graph_wf_set_edge: "graph_wf g \<Longrightarrow> e \<in> edges g \<Longrightarrow> graph_wf (set_edge e kvs g)"
  by (auto simp: graph_wf_def set_edge_def)

lemma graph_wf_delete_edges: "graph_wf g \<Longrightarrow> graph_wf (delete_edges P g)"
  by (auto simp: graph_wf_def delete_edges_def)

lemma graph_wf_prune_rows: "graph_wf g \<Longrightarrow> graph_wf (prune_rows P rows g)"
  unfolding prune_rows_def by (induction rows arbitrary: g) (simp_all add: graph_wf_delete_edges)

lemma graph_wf_link:
  assumes "graph_wf g" and "link m t e g = Inr g'" and "{e_src e, e_dst e} \<subseteq> {m, t}" and "edge_ok e"
  shows "graph_wf g'"
  using assms by (auto simp: link_def graph_wf_def split: if_splits)

lemma graph_wf_link_filling:
  assumes "graph_wf g" and "link_filling m t k v e g = Inr g'" and "{e_src e, e_dst e} \<subseteq> {m, t}" and "edge_ok e"
  shows "graph_wf g'"
  using assms by (auto simp: link_filling_def graph_wf_def set_node_def split: if_splits)

lemma graph_wf_link_matched:
  assumes "graph_wf g" and "link_matched m t e g = Inr g'" and "{e_src e, e_dst e} \<subseteq> {m, t}" and "edge_ok e"
  shows "graph_wf g'"
  using assms by (auto simp: link_matched_def graph_wf_def split: if_splits)

lemmas graph_wf_intros =
  graph_wf_merge_node graph_wf_merge_edge graph_wf_set_node graph_wf_set_edge
  graph_wf_delete_edges graph_wf_prune_rows graph_wf_link graph_wf_link_filling graph_wf_link_matched

end
