(* ===== verification/MediaProjection.thy ===== *)
theory MediaProjection
  imports KeyedRows PropertyGraph
begin

text \<open>
  \<^verbatim>\<open>graphinator/media_projection.py\<close>: the canonical media block of a release, the rows its
  two Cypher statements take, and those statements on the graph.
\<close>

section \<open>Rows\<close>

record media_row =
  mr_release :: pyval
  mr_medium :: pystr
  mr_family :: pystr
  mr_label :: pystr
  mr_qty :: int

definition MEDIA_SOURCE :: pyval where
  "MEDIA_SOURCE = PStr (lit ''discogs'')"

definition media_entry_names :: "'z runtime_scheme \<Rightarrow> pyval \<Rightarrow> py_error + pystr list" where
  "media_entry_names rt entry =
     (case entry of
        PDict e \<Rightarrow>
          bindE (flatten_descriptions rt (dget e ''descriptions'')) (\<lambda>ds.
            Inr ((case dget e ''name'' of PStr s \<Rightarrow> (if s \<noteq> [] then [s] else []) | _ \<Rightarrow> []) @ ds))
      | _ \<Rightarrow> Inr [])"

definition resolve_media_block :: "'z runtime_scheme \<Rightarrow> pydict \<Rightarrow> py_error + pydict" where
  "resolve_media_block rt record =
     (case dget record ''media'' of
        PDict media \<Rightarrow> Inr media
      | _ \<Rightarrow>
        (let formats = dget record ''formats'' in
         case formats of
           PList entries \<Rightarrow>
             (if list_all is_dict entries then map_discogs_formats rt entries
              else bindE (mapE (media_entry_names rt) entries) (\<lambda>ns.
                     legacy_format_names_to_media rt (concat ns)))
         | _ \<Rightarrow>
             bindE (py_iter (py_or formats (PList []))) (\<lambda>entries.
               bindE (mapE (media_entry_names rt) entries) (\<lambda>ns.
                 legacy_format_names_to_media rt (concat ns)))))"

definition media_families :: "pydict \<Rightarrow> pyval list" where
  "media_families block =
     (case dget block ''families'' of
        PList families \<Rightarrow> filter (\<lambda>f. case f of PStr _ \<Rightarrow> True | _ \<Rightarrow> False) families
      | _ \<Rightarrow> [])"

definition media_quantity :: "pydict \<Rightarrow> int" where
  "media_quantity item = (case dget item ''qty'' of PInt q \<Rightarrow> (if q < 1 then 1 else q) | _ \<Rightarrow> 1)"

definition media_label :: "'z runtime_scheme \<Rightarrow> pystr \<Rightarrow> pystr" where
  "media_label rt medium = (case medium_label rt medium of Some l \<Rightarrow> l | None \<Rightarrow> medium)"

text \<open>One turn of the loop of \<^verbatim>\<open>issued_on_rows\<close>.\<close>

definition issued_on_step ::
  "'z runtime_scheme \<Rightarrow> pyval \<Rightarrow> pyval \<Rightarrow> (pystr \<times> media_row) list \<Rightarrow> (pystr \<times> media_row) list" where
  "issued_on_step rt release_id item rows =
     (case item of
        PDict d \<Rightarrow>
          (case (dget d ''medium'', dget d ''family'') of
             (PStr medium, PStr family) \<Rightarrow>
               (if medium = [] \<or> family = [] then rows
                else case map_of rows medium of
                  Some existing \<Rightarrow>
                    AList.update medium (existing\<lparr>mr_qty := mr_qty existing + media_quantity d\<rparr>) rows
                | None \<Rightarrow>
                    AList.update medium
                      \<lparr>mr_release = release_id, mr_medium = medium, mr_family = family,
                       mr_label = media_label rt medium, mr_qty = media_quantity d\<rparr> rows)
           | _ \<Rightarrow> rows)
      | _ \<Rightarrow> rows)"

definition issued_on_rows :: "'z runtime_scheme \<Rightarrow> pyval \<Rightarrow> pydict \<Rightarrow> py_error + media_row list" where
  "issued_on_rows rt release_id block =
     bindE (py_iter (py_or (dget block ''items'') (PList []))) (\<lambda>items.
       Inr (map snd (fold (issued_on_step rt release_id) items [])))"

section \<open>Statements\<close>

text \<open>One row of \<^verbatim>\<open>PRUNE_ISSUED_ON_CYPHER\<close>: \<open>keep\<close> holds medium ids, \<open>source\<close> the provider.\<close>

definition stale_issued_on :: "pyval \<Rightarrow> pyval \<times> pystr list \<Rightarrow> edge \<Rightarrow> bool" where
  "stale_issued_on source r e =
     (case r of (release_id, keep) \<Rightarrow>
        stale (Release, release_id) ISSUED_ON Medium (map PStr keep) e \<and> e_key e = [source])"

definition prune_record :: "pyval \<Rightarrow> media_row list \<Rightarrow> pyval \<times> pystr list" where
  "prune_record release_id rows = (release_id, map mr_medium rows)"

definition prune_issued_on :: "pyval \<Rightarrow> (pyval \<times> pystr list) list \<Rightarrow> graph \<Rightarrow> graph" where
  "prune_issued_on source = prune_rows (stale_issued_on source)"

text \<open>The edges and nodes one media row names.\<close>

definition medium_node :: "media_row \<Rightarrow> node" where
  "medium_node r = (Medium, PStr (mr_medium r))"

definition family_node :: "media_row \<Rightarrow> node" where
  "family_node r = (MediaFamily, PStr (mr_family r))"

definition issued_on_edge :: "pyval \<Rightarrow> media_row \<Rightarrow> edge" where
  "issued_on_edge source r = Edge (Release, mr_release r) ISSUED_ON (medium_node r) [source]"

definition in_family_edge :: "media_row \<Rightarrow> edge" where
  "in_family_edge r = plain (medium_node r) IN_FAMILY (family_node r)"

text \<open>\<^verbatim>\<open>MERGE_MEDIA_CYPHER\<close> for one row, then for the unwound rows.\<close>

definition merge_media_row :: "pyval \<Rightarrow> media_row \<Rightarrow> graph \<Rightarrow> py_error + graph" where
  "merge_media_row source row g =
     (if (Release, mr_release row) \<in> nodes g
      then bindE (merge_node (family_node row) g) (\<lambda>g1.
           bindE (merge_node (medium_node row) g1) (\<lambda>g2.
           bindE (merge_edge (in_family_edge row)
                    (set_node (medium_node row)
                       [(''family'', PStr (mr_family row)), (''label'', PStr (mr_label row))] g2)) (\<lambda>g3.
           bindE (merge_edge (issued_on_edge source row) g3) (\<lambda>g4.
             Inr (set_edge (issued_on_edge source row) [(''qty'', PInt (mr_qty row))] g4)))))
      else Inr g)"

definition merge_media :: "pyval \<Rightarrow> media_row list \<Rightarrow> graph \<Rightarrow> py_error + graph" where
  "merge_media source = foldE (merge_media_row source)"

section \<open>The rows of a release\<close>

text \<open>The medium an item is counted under, and its count; nothing for an unusable item.\<close>

definition item_medium :: "pyval \<Rightarrow> pystr option" where
  "item_medium item =
     (case item of
        PDict d \<Rightarrow>
          (case (dget d ''medium'', dget d ''family'') of
             (PStr m, PStr f) \<Rightarrow> (if m = [] \<or> f = [] then None else Some m)
           | _ \<Rightarrow> None)
      | _ \<Rightarrow> None)"

definition item_count :: "pystr \<Rightarrow> pyval \<Rightarrow> int" where
  "item_count m item =
     (if item_medium item = Some m then (case item of PDict d \<Rightarrow> media_quantity d | _ \<Rightarrow> 0) else 0)"

lemma media_quantity_pos: "1 \<le> media_quantity d"
  by (simp add: media_quantity_def split: pyval.splits)

lemma issued_on_step_skip: "item_medium i = None \<Longrightarrow> issued_on_step rt rid i d = d"
  by (auto simp: item_medium_def issued_on_step_def split: pyval.splits if_splits)

lemma issued_on_step_use:
  assumes "item_medium i = Some m"
  obtains e f where "i = PDict e" and "dget e ''family'' = PStr f" and "f \<noteq> []" and "m \<noteq> []"
    and "\<And>d. issued_on_step rt rid i d =
      (case map_of d m of
         Some x \<Rightarrow> AList.update m (x\<lparr>mr_qty := mr_qty x + media_quantity e\<rparr>) d
       | None \<Rightarrow> AList.update m \<lparr>mr_release = rid, mr_medium = m, mr_family = f,
                    mr_label = media_label rt m, mr_qty = media_quantity e\<rparr> d)"
  using assms by (auto simp: item_medium_def issued_on_step_def split: pyval.splits if_splits)

text \<open>What every row satisfies, keyed by its medium.\<close>

definition media_row_ok :: "'z runtime_scheme \<Rightarrow> pyval \<Rightarrow> pystr \<Rightarrow> media_row \<Rightarrow> bool" where
  "media_row_ok rt rid m r \<longleftrightarrow>
     mr_release r = rid \<and> mr_medium r = m \<and> m \<noteq> [] \<and> mr_family r \<noteq> [] \<and>
     mr_label r = media_label rt m \<and> 1 \<le> mr_qty r"

lemma set_update_subset: "set (AList.update k v d) \<subseteq> insert (k, v) (set d)"
  by (induction d) auto

lemma issued_on_step_ok:
  assumes "\<forall>(k, r) \<in> set d. media_row_ok rt rid k r"
  shows "\<forall>(k, r) \<in> set (issued_on_step rt rid i d). media_row_ok rt rid k r"
proof (cases "item_medium i")
  case None
  with assms show ?thesis by (simp add: issued_on_step_skip)
next
  case (Some m)
  then obtain e f where f: "f \<noteq> []" "m \<noteq> []" and step: "\<And>d. issued_on_step rt rid i d =
      (case map_of d m of
         Some x \<Rightarrow> AList.update m (x\<lparr>mr_qty := mr_qty x + media_quantity e\<rparr>) d
       | None \<Rightarrow> AList.update m \<lparr>mr_release = rid, mr_medium = m, mr_family = f,
                    mr_label = media_label rt m, mr_qty = media_quantity e\<rparr> d)"
    by (rule issued_on_step_use [where rt = rt and rid = rid]) (rule that)
  show ?thesis
  proof (cases "map_of d m")
    case None
    with f step media_quantity_pos [of e] assms show ?thesis
      using set_update_subset [of m _ d] by (fastforce simp: media_row_ok_def)
  next
    case (Some x)
    then have "media_row_ok rt rid m x" using assms by (auto dest: map_of_SomeD)
    then have "media_row_ok rt rid m (x\<lparr>mr_qty := mr_qty x + media_quantity e\<rparr>)"
      using media_quantity_pos [of e] by (simp add: media_row_ok_def)
    with step Some assms show ?thesis
      using set_update_subset [of m _ d] by (fastforce simp: media_row_ok_def)
  qed
qed

lemma issued_on_step_keys:
  assumes "item_medium i = Some k"
  shows "k \<notin> fst ` set d \<Longrightarrow> \<exists>r. issued_on_step rt rid i d = d @ [(k, r)]"
    and "k \<in> fst ` set d \<Longrightarrow> map fst (issued_on_step rt rid i d) = map fst d"
proof -
  from assms obtain e f where step: "\<And>d. issued_on_step rt rid i d =
      (case map_of d k of
         Some x \<Rightarrow> AList.update k (x\<lparr>mr_qty := mr_qty x + media_quantity e\<rparr>) d
       | None \<Rightarrow> AList.update k \<lparr>mr_release = rid, mr_medium = k, mr_family = f,
                    mr_label = media_label rt k, mr_qty = media_quantity e\<rparr> d)"
    by (rule issued_on_step_use [where rt = rt and rid = rid]) (rule that)
  show "\<exists>r. issued_on_step rt rid i d = d @ [(k, r)]" if "k \<notin> fst ` set d"
  proof -
    from that have "map_of d k = None" by (simp add: map_of_eq_None_iff)
    with step that show ?thesis by (simp add: update_fst_notin)
  qed
  show "map fst (issued_on_step rt rid i d) = map fst d" if "k \<in> fst ` set d"
  proof -
    from that obtain x where "map_of d k = Some x" by (metis map_of_eq_None_iff not_None_eq)
    with step that show ?thesis by (simp add: update_fst_in)
  qed
qed

interpretation media: keyed_rows
  "\<lambda>i d. Inr (issued_on_step rt rid i d)" "\<lambda>i. Inr (item_medium i)" "media_row_ok rt rid"
  for rt :: "'z runtime_scheme" and rid
proof
  fix i and d d' :: "(pystr \<times> media_row) list" and k
  assume step: "Inr (issued_on_step rt rid i d) = Inr d'"
  show "\<exists>ko. Inr (item_medium i) = Inr ko" by simp
  show "d' = d" if "Inr (item_medium i) = Inr None"
    using step that by (simp add: issued_on_step_skip)
  show "\<exists>r. d' = d @ [(k, r)]" if "Inr (item_medium i) = Inr (Some k)" and "k \<notin> fst ` set d"
    using step that issued_on_step_keys(1) [of i k d rt rid] by auto
  show "map fst d' = map fst d" if "Inr (item_medium i) = Inr (Some k)" and "k \<in> fst ` set d"
    using step that issued_on_step_keys(2) [of i k d rt rid] by auto
  show "\<forall>(k, r) \<in> set d'. media_row_ok rt rid k r" if "\<forall>(k, r) \<in> set d. media_row_ok rt rid k r"
    using step issued_on_step_ok [OF that] by auto
qed

text \<open>The count of a medium is the sum over the items that name it.\<close>

definition medium_total :: "(pystr \<times> media_row) list \<Rightarrow> pystr \<Rightarrow> int" where
  "medium_total d m = (case map_of d m of Some r \<Rightarrow> mr_qty r | None \<Rightarrow> 0)"

lemma medium_total_step:
  "medium_total (issued_on_step rt rid i d) m = medium_total d m + item_count m i"
proof (cases "item_medium i")
  case None
  then show ?thesis by (simp add: issued_on_step_skip item_count_def)
next
  case (Some m')
  show ?thesis
    by (rule issued_on_step_use [OF Some, of rt rid], use Some in
       \<open>auto simp: medium_total_def item_count_def update_conv split: option.splits\<close>)
qed

lemma medium_total_fold:
  "medium_total (fold (issued_on_step rt rid) items d) m =
     medium_total d m + sum_list (map (item_count m) items)"
  by (induction items arbitrary: d) (simp_all add: medium_total_step)

lemma issued_on_rows_dict:
  assumes "issued_on_rows rt rid block = Inr rows"
  obtains items d where "py_iter (py_or (dget block ''items'') (PList [])) = Inr items"
    and "foldE (\<lambda>i d. Inr (issued_on_step rt rid i d)) items [] = Inr d"
    and "d = fold (issued_on_step rt rid) items []" and "rows = map snd d"
    and "map mr_medium rows = map fst d"
proof -
  from assms obtain items where items: "py_iter (py_or (dget block ''items'') (PList [])) = Inr items"
    and rows: "rows = map snd (fold (issued_on_step rt rid) items [])"
    by (auto simp: issued_on_rows_def)
  let ?d = "fold (issued_on_step rt rid) items []"
  have f: "foldE (\<lambda>i d. Inr (issued_on_step rt rid i d)) items [] = Inr ?d" by (rule foldE_pure)
  have "\<forall>(k, r) \<in> set ?d. mr_medium r = k"
    using media.loop_ok [OF f] by (auto simp: media_row_ok_def)
  then have "map mr_medium rows = map fst ?d" unfolding rows by (auto simp: map_eq_conv)
  with items f rows show thesis by (intro that) auto
qed

section \<open>Effects of the statements\<close>

lemma merge_media_effect:
  assumes "merge_media source rows g = Inr g'"
    and "\<And>r. r \<in> set rows \<Longrightarrow> (Release, mr_release r) \<in> nodes g"
  shows "nodes g' = nodes g \<union> medium_node ` set rows \<union> family_node ` set rows"
    and "edges g' = edges g \<union> issued_on_edge source ` set rows \<union> in_family_edge ` set rows"
    and "\<And>n. fst n \<noteq> Medium \<Longrightarrow> nprop g' n = nprop g n"
    and "\<And>e. e_rel e \<noteq> ISSUED_ON \<Longrightarrow> eprop g' e = eprop g e"
proof -
  have "nodes g' = nodes g \<union> medium_node ` set rows \<union> family_node ` set rows \<and>
    edges g' = edges g \<union> issued_on_edge source ` set rows \<union> in_family_edge ` set rows \<and>
    (\<forall>n. fst n \<noteq> Medium \<longrightarrow> nprop g' n = nprop g n) \<and>
    (\<forall>e. e_rel e \<noteq> ISSUED_ON \<longrightarrow> eprop g' e = eprop g e)"
    using assms unfolding merge_media_def
  proof (induction rows arbitrary: g)
    case (Cons r rows)
    then obtain g1 where g1: "merge_media_row source r g = Inr g1"
      and rest: "foldE (merge_media_row source) rows g1 = Inr g'" by auto
    from g1 Cons.prems(2) [of r] have eq:
      "nodes g1 = insert (medium_node r) (insert (family_node r) (nodes g))"
      "edges g1 = insert (issued_on_edge source r) (insert (in_family_edge r) (edges g))"
      "\<And>n. fst n \<noteq> Medium \<Longrightarrow> nprop g1 n = nprop g n"
      "\<And>e. e_rel e \<noteq> ISSUED_ON \<Longrightarrow> eprop g1 e = eprop g e"
      by (auto simp: merge_media_row_def set_node_def set_edge_def medium_node_def issued_on_edge_def)
    then have "\<And>r. r \<in> set rows \<Longrightarrow> (Release, mr_release r) \<in> nodes g1" using Cons.prems(2) by auto
    from Cons.IH [OF rest this] eq show ?case by auto
  qed simp
  then show "nodes g' = nodes g \<union> medium_node ` set rows \<union> family_node ` set rows"
    and "edges g' = edges g \<union> issued_on_edge source ` set rows \<union> in_family_edge ` set rows"
    and "\<And>n. fst n \<noteq> Medium \<Longrightarrow> nprop g' n = nprop g n"
    and "\<And>e. e_rel e \<noteq> ISSUED_ON \<Longrightarrow> eprop g' e = eprop g e" by blast+
qed

lemma graph_wf_merge_media:
  "graph_wf g \<Longrightarrow> merge_media source rows g = Inr g' \<Longrightarrow> graph_wf g'"
proof (induction rows arbitrary: g)
  case (Cons r rows)
  then obtain g1 where g1: "merge_media_row source r g = Inr g1"
    and rest: "merge_media source rows g1 = Inr g'" by (auto simp: merge_media_def)
  have "graph_wf g1"
    using g1 Cons.prems(1)
    by (auto simp: merge_media_row_def graph_wf_def set_node_def set_edge_def
        issued_on_edge_def in_family_edge_def medium_node_def family_node_def split: if_splits)
  with Cons.IH rest show ?case by blast
qed (simp add: merge_media_def)

end
