(* ===== verification/CompanyProjection.thy ===== *)
theory CompanyProjection
  imports KeyedRows PropertyGraph
begin

text \<open>
  \<^verbatim>\<open>graphinator/company_projection.py\<close>: the canonical companies block of a release, the
  identity of a company, the rows of the two Cypher statements, and those statements on the
  graph. Reading an id can raise: \<^verbatim>\<open>str.isdigit\<close> accepts digits that \<^verbatim>\<open>int\<close> refuses.
\<close>

section \<open>Texts and identities\<close>

definition COMPANY_SOURCE :: pyval where
  "COMPANY_SOURCE = PStr (lit ''discogs'')"

definition UNMAPPED_ROLE_CATEGORY :: pystr where
  "UNMAPPED_ROLE_CATEGORY = lit ''other''"

definition DERIVED_ID_PREFIX :: pystr where
  "DERIVED_ID_PREFIX = lit ''name:''"

definition text_of :: "pyval \<Rightarrow> pystr option" where
  "text_of value =
     (case value of PStr s \<Rightarrow> (if py_strip s = [] then None else Some (py_strip s)) | _ \<Rightarrow> None)"

definition discogs_id :: "pyval \<Rightarrow> py_error + pystr option" where
  "discogs_id value =
     (case value of
        PBool _ \<Rightarrow> Inr None
      | PInt i \<Rightarrow> Inr (if 1 \<le> i then Some (dec_of_int i) else None)
      | PStr s \<Rightarrow>
          (let text = py_strip s in
           if py_isdigit text
           then bindE (py_int text) (\<lambda>n. Inr (if 1 \<le> n then Some text else None))
           else Inr None)
      | _ \<Rightarrow> Inr None)"

definition company_identity :: "'z runtime_scheme \<Rightarrow> pydict \<Rightarrow> py_error + pystr option" where
  "company_identity rt item =
     bindE (discogs_id (dget item ''discogs_id'')) (\<lambda>i.
       case i of
         Some t \<Rightarrow> Inr (Some t)
       | None \<Rightarrow>
           Inr (map_option (\<lambda>name. DERIVED_ID_PREFIX @ casefold rt (py_join [32] (py_split name)))
                  (text_of (dget item ''name''))))"

definition release_country :: "pydict \<Rightarrow> pystr option" where
  "release_country record = text_of (dget record ''country'')"

section \<open>Rows\<close>

record company_row =
  cr_release :: pyval
  cr_id :: pystr
  cr_name :: pystr
  cr_role :: pystr
  cr_category :: pystr

definition resolve_companies_block :: "pydict \<Rightarrow> pydict option" where
  "resolve_companies_block record =
     (case dget record ''companies'' of PDict companies \<Rightarrow> Some companies | _ \<Rightarrow> None)"

text \<open>One turn of the loop of \<^verbatim>\<open>credited_to_rows\<close>.\<close>

definition credited_to_step :: "'z runtime_scheme \<Rightarrow> pyval \<Rightarrow> pyval \<Rightarrow>
    ((pystr \<times> pystr) \<times> company_row) list \<Rightarrow> py_error + ((pystr \<times> pystr) \<times> company_row) list" where
  "credited_to_step rt release_id item rows =
     (case item of
        PDict d \<Rightarrow>
          bindE (company_identity rt d) (\<lambda>company_id.
            case (text_of (dget d ''role''), company_id) of
              (Some role, Some cid) \<Rightarrow>
                Inr (if (cid, role) \<in> fst ` set rows then rows
                     else AList.update (cid, role)
                       \<lparr>cr_release = release_id, cr_id = cid,
                        cr_name = (case text_of (dget d ''name'') of Some n \<Rightarrow> n | None \<Rightarrow> cid),
                        cr_role = role,
                        cr_category = (case text_of (dget d ''role_category'') of
                                         Some c \<Rightarrow> c | None \<Rightarrow> UNMAPPED_ROLE_CATEGORY)\<rparr> rows)
            | _ \<Rightarrow> Inr rows)
      | _ \<Rightarrow> Inr rows)"

definition credited_to_rows :: "'z runtime_scheme \<Rightarrow> pyval \<Rightarrow> pydict \<Rightarrow> py_error + company_row list" where
  "credited_to_rows rt release_id block =
     bindE (py_iter (py_or (dget block ''items'') (PList []))) (\<lambda>items.
       mapR (map snd) (foldE (credited_to_step rt release_id) items []))"

section \<open>Statements\<close>

text \<open>One row of \<^verbatim>\<open>PRUNE_CREDITED_TO_CYPHER\<close>: \<open>keep\<close> holds (company id, role) pairs.\<close>

definition stale_credited_to :: "pyval \<Rightarrow> pyval \<times> (pystr \<times> pystr) list \<Rightarrow> edge \<Rightarrow> bool" where
  "stale_credited_to source r e =
     (case r of (release_id, keep) \<Rightarrow>
        e_src e = (Release, release_id) \<and> e_rel e = CREDITED_TO \<and> fst (e_dst e) = Company \<and>
        (case e_key e of
           [role, src] \<Rightarrow>
             src = source \<and> (snd (e_dst e), role) \<notin> set (map (\<lambda>(i, r). (PStr i, PStr r)) keep)
         | _ \<Rightarrow> False))"

definition credit_prune_record :: "pyval \<Rightarrow> company_row list \<Rightarrow> pyval \<times> (pystr \<times> pystr) list" where
  "credit_prune_record release_id rows = (release_id, map (\<lambda>r. (cr_id r, cr_role r)) rows)"

definition prune_credited_to :: "pyval \<Rightarrow> (pyval \<times> (pystr \<times> pystr) list) list \<Rightarrow> graph \<Rightarrow> graph" where
  "prune_credited_to source = prune_rows (stale_credited_to source)"

definition company_node :: "company_row \<Rightarrow> node" where
  "company_node r = (Company, PStr (cr_id r))"

definition credited_to_edge :: "pyval \<Rightarrow> company_row \<Rightarrow> edge" where
  "credited_to_edge source r =
     Edge (Release, cr_release r) CREDITED_TO (company_node r) [PStr (cr_role r), source]"

text \<open>\<^verbatim>\<open>MERGE_COMPANY_CYPHER\<close> for one row, then for the unwound rows.\<close>

definition merge_company_row :: "pyval \<Rightarrow> company_row \<Rightarrow> graph \<Rightarrow> py_error + graph" where
  "merge_company_row source c g =
     (if (Release, cr_release c) \<in> nodes g
      then bindE (merge_node (company_node c) g) (\<lambda>g1.
           bindE (merge_edge (credited_to_edge source c)
                    (set_node (company_node c) [(''name'', PStr (cr_name c))] g1)) (\<lambda>g2.
             Inr (set_edge (credited_to_edge source c) [(''role_category'', PStr (cr_category c))] g2)))
      else Inr g)"

definition merge_companies :: "pyval \<Rightarrow> company_row list \<Rightarrow> graph \<Rightarrow> py_error + graph" where
  "merge_companies source = foldE (merge_company_row source)"

section \<open>The rows of a release\<close>

definition item_credit :: "'z runtime_scheme \<Rightarrow> pyval \<Rightarrow> py_error + (pystr \<times> pystr) option" where
  "item_credit rt item =
     (case item of
        PDict d \<Rightarrow>
          bindE (company_identity rt d) (\<lambda>company_id.
            Inr (case (text_of (dget d ''role''), company_id) of
                   (Some role, Some cid) \<Rightarrow> Some (cid, role)
                 | _ \<Rightarrow> None))
      | _ \<Rightarrow> Inr None)"

lemma text_of_Some: "text_of v = Some t \<Longrightarrow> t \<noteq> [] \<and> py_strip t = t"
  by (auto simp: text_of_def split: pyval.splits if_splits)

lemma discogs_id_Some:
  assumes "discogs_id v = Inr (Some t)"
  shows "t \<noteq> []" and "py_strip t = t"
  using assms
  by (auto simp: discogs_id_def Let_def py_isdigit_def split: pyval.splits if_splits)

lemma company_identity_nonempty: "company_identity rt d = Inr (Some t) \<Longrightarrow> t \<noteq> []"
  by (auto simp: company_identity_def DERIVED_ID_PREFIX_def split: option.splits dest: discogs_id_Some)

definition company_row_ok :: "pyval \<Rightarrow> pystr \<times> pystr \<Rightarrow> company_row \<Rightarrow> bool" where
  "company_row_ok rid k r \<longleftrightarrow>
     cr_release r = rid \<and> k = (cr_id r, cr_role r) \<and> cr_id r \<noteq> [] \<and> cr_role r \<noteq> [] \<and>
     cr_name r \<noteq> [] \<and> cr_category r \<noteq> []"

lemma credited_to_step_cases:
  assumes "credited_to_step rt rid i d = Inr d'"
  obtains (skip) "item_credit rt i = Inr None" and "d' = d"
  | (old) k where "item_credit rt i = Inr (Some k)" and "k \<in> fst ` set d" and "d' = d"
  | (new) k r where "item_credit rt i = Inr (Some k)" and "k \<notin> fst ` set d"
      and "d' = d @ [(k, r)]" and "company_row_ok rid k r"
proof (cases i)
  case (PDict e)
  from assms PDict obtain cid where cid: "company_identity rt e = Inr cid"
    by (auto simp: credited_to_step_def)
  show thesis
  proof (cases "text_of (dget e ''role'')")
    case None
    with assms PDict cid skip show thesis by (auto simp: credited_to_step_def item_credit_def)
  next
    case (Some role)
    show thesis
    proof (cases cid)
      case None
      with assms PDict cid Some skip show thesis by (auto simp: credited_to_step_def item_credit_def)
    next
      case (Some c)
      note c = this
      let ?k = "(c, role)"
      have k: "item_credit rt i = Inr (Some ?k)"
        using PDict cid c \<open>text_of (dget e ''role'') = Some role\<close> by (simp add: item_credit_def)
      let ?r = "\<lparr>cr_release = rid, cr_id = c,
          cr_name = (case text_of (dget e ''name'') of Some n \<Rightarrow> n | None \<Rightarrow> c), cr_role = role,
          cr_category = (case text_of (dget e ''role_category'') of
                           Some c \<Rightarrow> c | None \<Rightarrow> UNMAPPED_ROLE_CATEGORY)\<rparr>"
      have "c \<noteq> []" using cid c by (auto dest: company_identity_nonempty)
      then have ok: "company_row_ok rid ?k ?r"
        using text_of_Some [OF \<open>text_of (dget e ''role'') = Some role\<close>]
        by (auto simp: company_row_ok_def UNMAPPED_ROLE_CATEGORY_def dest: text_of_Some split: option.splits)
      have "d' = (if ?k \<in> fst ` set d then d else AList.update ?k ?r d)"
        using assms PDict cid c \<open>text_of (dget e ''role'') = Some role\<close>
        by (simp add: credited_to_step_def)
      with k ok old new show thesis by (cases "?k \<in> fst ` set d") (auto simp: update_fst_notin)
    qed
  qed
qed (use assms skip in \<open>simp_all add: credited_to_step_def item_credit_def\<close>)

interpretation companies: keyed_rows "credited_to_step rt rid" "item_credit rt" "company_row_ok rid"
  for rt :: "'z runtime_scheme" and rid
proof
  fix i and d d' :: "((pystr \<times> pystr) \<times> company_row) list" and k
  assume step: "credited_to_step rt rid i d = Inr d'"
  show "\<exists>ko. item_credit rt i = Inr ko"
    using step by (rule credited_to_step_cases) auto
  show "d' = d" if "item_credit rt i = Inr None"
    using step by (rule credited_to_step_cases) (use that in auto)
  show "\<exists>r. d' = d @ [(k, r)]" if "item_credit rt i = Inr (Some k)" and "k \<notin> fst ` set d"
    using step by (rule credited_to_step_cases) (use that in auto)
  show "map fst d' = map fst d" if "item_credit rt i = Inr (Some k)" and "k \<in> fst ` set d"
    using step by (rule credited_to_step_cases) (use that in auto)
  show "\<forall>(k, r) \<in> set d'. company_row_ok rid k r" if "\<forall>(k, r) \<in> set d. company_row_ok rid k r"
    using step by (rule credited_to_step_cases) (use that in auto)
qed

lemma credited_to_rows_dict:
  assumes "credited_to_rows rt rid block = Inr rows"
  obtains items d where "py_iter (py_or (dget block ''items'') (PList [])) = Inr items"
    and "foldE (credited_to_step rt rid) items [] = Inr d" and "rows = map snd d"
    and "map (\<lambda>r. (cr_id r, cr_role r)) rows = map fst d"
proof -
  from assms obtain items d where items: "py_iter (py_or (dget block ''items'') (PList [])) = Inr items"
    and f: "foldE (credited_to_step rt rid) items [] = Inr d" and rows: "rows = map snd d"
    by (auto simp: credited_to_rows_def)
  have "\<forall>(k, r) \<in> set d. k = (cr_id r, cr_role r)"
    using companies.loop_ok [OF f] by (auto simp: company_row_ok_def)
  then have "map (\<lambda>r. (cr_id r, cr_role r)) rows = map fst d"
    unfolding rows by (auto simp: map_eq_conv)
  with items f rows show thesis by (rule that)
qed

section \<open>Effects of the statements\<close>

lemma merge_companies_effect:
  assumes "merge_companies source rows g = Inr g'"
    and "\<And>r. r \<in> set rows \<Longrightarrow> (Release, cr_release r) \<in> nodes g"
  shows "nodes g' = nodes g \<union> company_node ` set rows"
    and "edges g' = edges g \<union> credited_to_edge source ` set rows"
    and "\<And>n. fst n \<noteq> Company \<Longrightarrow> nprop g' n = nprop g n"
    and "\<And>e. e_rel e \<noteq> CREDITED_TO \<Longrightarrow> eprop g' e = eprop g e"
proof -
  have "nodes g' = nodes g \<union> company_node ` set rows \<and>
    edges g' = edges g \<union> credited_to_edge source ` set rows \<and>
    (\<forall>n. fst n \<noteq> Company \<longrightarrow> nprop g' n = nprop g n) \<and>
    (\<forall>e. e_rel e \<noteq> CREDITED_TO \<longrightarrow> eprop g' e = eprop g e)"
    using assms unfolding merge_companies_def
  proof (induction rows arbitrary: g)
    case (Cons r rows)
    then obtain g1 where g1: "merge_company_row source r g = Inr g1"
      and rest: "foldE (merge_company_row source) rows g1 = Inr g'" by auto
    from g1 Cons.prems(2) [of r] have eq:
      "nodes g1 = insert (company_node r) (nodes g)"
      "edges g1 = insert (credited_to_edge source r) (edges g)"
      "\<And>n. fst n \<noteq> Company \<Longrightarrow> nprop g1 n = nprop g n"
      "\<And>e. e_rel e \<noteq> CREDITED_TO \<Longrightarrow> eprop g1 e = eprop g e"
      by (auto simp: merge_company_row_def set_node_def set_edge_def company_node_def credited_to_edge_def)
    then have "\<And>r. r \<in> set rows \<Longrightarrow> (Release, cr_release r) \<in> nodes g1" using Cons.prems(2) by auto
    from Cons.IH [OF rest this] eq show ?case by auto
  qed simp
  then show "nodes g' = nodes g \<union> company_node ` set rows"
    and "edges g' = edges g \<union> credited_to_edge source ` set rows"
    and "\<And>n. fst n \<noteq> Company \<Longrightarrow> nprop g' n = nprop g n"
    and "\<And>e. e_rel e \<noteq> CREDITED_TO \<Longrightarrow> eprop g' e = eprop g e" by blast+
qed

lemma graph_wf_merge_companies:
  "graph_wf g \<Longrightarrow> merge_companies source rows g = Inr g' \<Longrightarrow> graph_wf g'"
proof (induction rows arbitrary: g)
  case (Cons r rows)
  then obtain g1 where g1: "merge_company_row source r g = Inr g1"
    and rest: "merge_companies source rows g1 = Inr g'" by (auto simp: merge_companies_def)
  have "graph_wf g1"
    using g1 Cons.prems(1)
    by (auto simp: merge_company_row_def graph_wf_def set_node_def set_edge_def
        credited_to_edge_def company_node_def split: if_splits)
  with Cons.IH rest show ?case by blast
qed (simp add: merge_companies_def)

end
