(* ===== verification/PersonCredits.thy ===== *)
theory PersonCredits
  imports References PropertyGraph
begin

text \<open>
  \<^verbatim>\<open>graphinator/person_credits.py\<close>: the person key and its byte bound, the credit rows of a
  release, and the statements that prune and merge \<^verbatim>\<open>CREDITED_ON\<close> and \<^verbatim>\<open>SAME_AS\<close> edges.
\<close>

section \<open>The bounded person name\<close>

definition PERSON_NAME_MAX_BYTES :: nat where
  "PERSON_NAME_MAX_BYTES = 8000"

definition bound_person_name :: "'z runtime_scheme \<Rightarrow> pystr \<Rightarrow> py_error + pystr" where
  "bound_person_name rt name =
     bindE (utf8_encode name) (\<lambda>encoded.
       if length encoded \<le> PERSON_NAME_MAX_BYTES then Inr name
       else
         let suffix = lit ''... ['' @ take 16 (sha256_hexdigest rt encoded) @ lit '']'' in
         bindE (utf8_encode suffix) (\<lambda>sb.
           let keep = PERSON_NAME_MAX_BYTES - length sb in
           Inr (utf8_decode_ignore (take keep encoded) @ suffix)))"

text \<open>A digest is lower-case hexadecimal text, at least sixteen characters of it.\<close>

definition hex_digest :: "pystr \<Rightarrow> bool" where
  "hex_digest s \<longleftrightarrow> 16 \<le> length s \<and> list_all (\<lambda>c. 48 \<le> c \<and> c \<le> 57 \<or> 97 \<le> c \<and> c \<le> 102) s"

definition utf8_length :: "pystr \<Rightarrow> nat" where
  "utf8_length s = length (concat (map utf8_char s))"

lemma utf8_length_append: "utf8_length (s @ t) = utf8_length s + utf8_length t"
  by (simp add: utf8_length_def)

definition bound_suffix :: "'z runtime_scheme \<Rightarrow> pystr \<Rightarrow> pystr" where
  "bound_suffix rt name =
     lit ''... ['' @ take 16 (sha256_hexdigest rt (concat (map utf8_char name))) @ lit '']''"

lemma ascii_scalar: "list_all (\<lambda>c. c < 128) s \<Longrightarrow> list_all scalar s"
  by (auto simp: list_all_iff scalar_def surrogate_def)

lemma utf8_length_ascii: "list_all (\<lambda>c. c < 128) s \<Longrightarrow> utf8_length s = length s"
  by (induction s) (simp_all add: utf8_length_def utf8_char_def)

lemma hex_digest_ascii: "hex_digest s \<Longrightarrow> list_all (\<lambda>c. c < 128) (take n s)"
  unfolding hex_digest_def list_all_iff by (fastforce dest: in_set_takeD)

lemma bound_suffix_ascii:
  assumes "hex_digest (sha256_hexdigest rt (concat (map utf8_char name)))"
  shows "list_all (\<lambda>c. c < 128) (bound_suffix rt name)" and "length (bound_suffix rt name) = 22"
proof -
  have "list_all (\<lambda>c. c < 128) (lit ''... ['')" "list_all (\<lambda>c. c < 128) (lit '']'')"
    by (simp_all add: lit_def)
  with hex_digest_ascii [OF assms, of 16] show "list_all (\<lambda>c. c < 128) (bound_suffix rt name)"
    by (simp add: bound_suffix_def)
  show "length (bound_suffix rt name) = 22"
    using assms by (simp add: bound_suffix_def hex_digest_def)
qed

lemma bound_person_name_short:
  "list_all scalar name \<Longrightarrow> utf8_length name \<le> PERSON_NAME_MAX_BYTES \<Longrightarrow>
     bound_person_name rt name = Inr name"
  by (simp add: bound_person_name_def utf8_length_def)

lemma bound_person_name_long:
  assumes "list_all scalar name" and "PERSON_NAME_MAX_BYTES < utf8_length name"
    and "hex_digest (sha256_hexdigest rt (concat (map utf8_char name)))"
  shows "bound_person_name rt name = Inr (fitting 7978 name @ bound_suffix rt name)"
proof -
  have "utf8_encode (bound_suffix rt name) = Inr (bound_suffix rt name)"
    using bound_suffix_ascii [OF assms(3)] by (simp add: utf8_encode_ascii)
  then show ?thesis
    using assms bound_suffix_ascii [OF assms(3)]
    by (simp add: bound_person_name_def utf8_length_def bound_suffix_def [symmetric] decode_take
        PERSON_NAME_MAX_BYTES_def)
qed

section \<open>Credit rows\<close>

record credit_row =
  cd_name :: pyval
  cd_role :: pyval
  cd_category :: pystr
  cd_release :: pyval
  cd_artist :: pyval

text \<open>
  One turn of the loop of \<^verbatim>\<open>person_credit_rows\<close>: the row, or nothing for a credit that is
  skipped. The row carries an artist id only for a linked credit; an absent one reads
  \<open>PNone\<close>, as \<^verbatim>\<open>row.get("artist_id")\<close> does. The counters only feed a log line.
\<close>

definition person_credit_row :: "'z runtime_scheme \<Rightarrow> pyval \<Rightarrow> pyval \<Rightarrow> py_error + credit_row option" where
  "person_credit_row rt release_id credit =
     bindE (py_get credit ''name'') (\<lambda>name0.
     bindE (py_get_default credit ''role'' (PStr [])) (\<lambda>role.
       let name = (case name0 of
                     PStr s \<Rightarrow> (if s \<noteq> [] \<and> truthy role then PStr (strip_person_name rt s) else name0)
                   | _ \<Rightarrow> name0) in
       if \<not> (truthy name \<and> truthy role) then Inr None
       else
         bindE (case name of PStr s \<Rightarrow> mapR PStr (bound_person_name rt s) | _ \<Rightarrow> Inr name) (\<lambda>bounded.
         bindE (categorize_role rt role) (\<lambda>category.
         bindE (py_get credit ''id'') (\<lambda>artist_id.
           Inr (Some \<lparr>cd_name = bounded, cd_role = role, cd_category = category,
                      cd_release = release_id,
                      cd_artist = (if truthy artist_id then artist_id else PNone)\<rparr>))))))"

definition person_credit_rows :: "'z runtime_scheme \<Rightarrow> pyval \<Rightarrow> pyval \<Rightarrow> py_error + credit_row list" where
  "person_credit_rows rt release_id extraartists =
     bindE (py_iter (py_or extraartists (PList []))) (collectE (person_credit_row rt release_id))"

section \<open>Statements\<close>

definition credited_on_prune_record :: "pyval \<Rightarrow> credit_row list \<Rightarrow> pyval \<times> (pyval \<times> pyval) list" where
  "credited_on_prune_record release_id rows = (release_id, map (\<lambda>r. (cd_name r, cd_role r)) rows)"

text \<open>One row of \<^verbatim>\<open>PRUNE_CREDITED_ON_CYPHER\<close>: \<open>keep\<close> holds (person name, role) pairs.\<close>

definition stale_credited_on :: "pyval \<times> (pyval \<times> pyval) list \<Rightarrow> edge \<Rightarrow> bool" where
  "stale_credited_on r e =
     (case r of (key, keep) \<Rightarrow>
        e_dst e = (Release, key) \<and> e_rel e = CREDITED_ON \<and> fst (e_src e) = Person \<and>
        (case e_key e of [role] \<Rightarrow> (snd (e_src e), role) \<notin> set keep | _ \<Rightarrow> False))"

definition prune_credited_on :: "(pyval \<times> (pyval \<times> pyval) list) list \<Rightarrow> graph \<Rightarrow> graph" where
  "prune_credited_on = prune_rows stale_credited_on"

definition person_node :: "credit_row \<Rightarrow> node" where
  "person_node c = (Person, cd_name c)"

definition credited_on_edge :: "credit_row \<Rightarrow> edge" where
  "credited_on_edge c = Edge (person_node c) CREDITED_ON (Release, cd_release c) [cd_role c]"

definition same_as_edge :: "credit_row \<Rightarrow> edge" where
  "same_as_edge c = plain (person_node c) SAME_AS (Artist, cd_artist c)"

text \<open>The statement that merges Persons and their credits, one row and all rows.\<close>

definition merge_credit_row :: "credit_row \<Rightarrow> graph \<Rightarrow> py_error + graph" where
  "merge_credit_row c g =
     (if (Release, cd_release c) \<in> nodes g
      then bindE (merge_node (person_node c) g) (\<lambda>g1.
           bindE (merge_edge (credited_on_edge c) g1) (\<lambda>g2.
             Inr (set_edge (credited_on_edge c) [(''category'', PStr (cd_category c))] g2)))
      else Inr g)"

definition merge_credits :: "credit_row list \<Rightarrow> graph \<Rightarrow> py_error + graph" where
  "merge_credits = foldE merge_credit_row"

definition merge_same_as :: "credit_row list \<Rightarrow> graph \<Rightarrow> py_error + graph" where
  "merge_same_as =
     foldE (\<lambda>c. link_matched (person_node c) (Artist, cd_artist c) (same_as_edge c))"

section \<open>Facts about the rows\<close>

lemma fitting_nonempty: "s \<noteq> [] \<Longrightarrow> 4 \<le> k \<Longrightarrow> fitting k s \<noteq> []"
  using length_utf8_char [of "hd s"] by (cases s) auto

lemma bound_person_name_nonempty:
  assumes "bound_person_name rt name = Inr b" and "name \<noteq> []"
  shows "b \<noteq> []"
  using assms by (auto simp: bound_person_name_def Let_def split: if_splits)

lemma person_credit_row_Some:
  assumes "person_credit_row rt rid c = Inr (Some r)"
  shows "truthy (cd_name r)" and "truthy (cd_role r)" and "cd_release r = rid"
    and "cd_artist r = PNone \<or> truthy (cd_artist r)"
    and "categorize_role rt (cd_role r) = Inr (cd_category r)"
  using assms
  by (auto simp: person_credit_row_def Let_def bound_person_name_nonempty
      split: if_splits pyval.splits)

lemma person_credit_rows_row:
  assumes "person_credit_rows rt rid v = Inr rows" and "r \<in> set rows"
  obtains c where "person_credit_row rt rid c = Inr (Some r)"
  using assms by (auto simp: person_credit_rows_def collectE_set)

lemma person_credit_rows_facts:
  assumes "person_credit_rows rt rid v = Inr rows" and "r \<in> set rows"
  shows "truthy (cd_name r)" and "truthy (cd_role r)" and "cd_release r = rid"
    and "cd_artist r = PNone \<or> truthy (cd_artist r)"
  by (rule person_credit_rows_row [OF assms], metis person_credit_row_Some)+

section \<open>Effects of the statements\<close>

lemma merge_credits_effect:
  assumes "merge_credits rows g = Inr g'"
    and "\<And>r. r \<in> set rows \<Longrightarrow> (Release, cd_release r) \<in> nodes g"
  shows "nodes g' = nodes g \<union> person_node ` set rows"
    and "edges g' = edges g \<union> credited_on_edge ` set rows"
    and "nprop g' = nprop g"
    and "\<And>e. e_rel e \<noteq> CREDITED_ON \<Longrightarrow> eprop g' e = eprop g e"
proof -
  have "nodes g' = nodes g \<union> person_node ` set rows \<and>
    edges g' = edges g \<union> credited_on_edge ` set rows \<and> nprop g' = nprop g \<and>
    (\<forall>e. e_rel e \<noteq> CREDITED_ON \<longrightarrow> eprop g' e = eprop g e)"
    using assms unfolding merge_credits_def
  proof (induction rows arbitrary: g)
    case (Cons r rows)
    then obtain g1 where g1: "merge_credit_row r g = Inr g1"
      and rest: "foldE merge_credit_row rows g1 = Inr g'" by auto
    from g1 Cons.prems(2) [of r] have eq:
      "nodes g1 = insert (person_node r) (nodes g)"
      "edges g1 = insert (credited_on_edge r) (edges g)" "nprop g1 = nprop g"
      "\<And>e. e_rel e \<noteq> CREDITED_ON \<Longrightarrow> eprop g1 e = eprop g e"
      by (auto simp: merge_credit_row_def set_edge_def credited_on_edge_def)
    then have "\<And>r. r \<in> set rows \<Longrightarrow> (Release, cd_release r) \<in> nodes g1" using Cons.prems(2) by auto
    from Cons.IH [OF rest this] eq show ?case by auto
  qed simp
  then show "nodes g' = nodes g \<union> person_node ` set rows"
    and "edges g' = edges g \<union> credited_on_edge ` set rows" and "nprop g' = nprop g"
    and "\<And>e. e_rel e \<noteq> CREDITED_ON \<Longrightarrow> eprop g' e = eprop g e" by blast+
qed

lemma graph_wf_merge_credits:
  "graph_wf g \<Longrightarrow> merge_credits rows g = Inr g' \<Longrightarrow> graph_wf g'"
proof (induction rows arbitrary: g)
  case (Cons r rows)
  then obtain g1 where g1: "merge_credit_row r g = Inr g1"
    and rest: "merge_credits rows g1 = Inr g'" by (auto simp: merge_credits_def)
  have "graph_wf g1"
    using g1 Cons.prems(1)
    by (auto simp: merge_credit_row_def graph_wf_def set_edge_def credited_on_edge_def person_node_def
        split: if_splits)
  with Cons.IH rest show ?case by blast
qed (simp add: merge_credits_def)

lemma graph_wf_merge_same_as:
  "graph_wf g \<Longrightarrow> merge_same_as rows g = Inr g' \<Longrightarrow> graph_wf g'"
proof (induction rows arbitrary: g)
  case (Cons c rows)
  then obtain g1 where g1: "link_matched (person_node c) (Artist, cd_artist c) (same_as_edge c) g = Inr g1"
    and rest: "merge_same_as rows g1 = Inr g'" by (auto simp: merge_same_as_def)
  have "graph_wf g1" using Cons.prems(1) g1
    by (rule graph_wf_link_matched) (simp_all add: same_as_edge_def person_node_def)
  with Cons.IH rest show ?case by blast
qed (simp add: merge_same_as_def)

end
