(* ===== verification/EntityProjection.thy ===== *)
theory EntityProjection
  imports MediaProjection CompanyProjection PersonCredits
begin

text \<open>
  \<^verbatim>\<open>graphinator/entity_projection.py\<close>: the single-record write path. Each processor runs
  inside one write transaction, so it maps a graph to an error (the transaction rolls back)
  or to the new graph together with whether the record changed anything.
\<close>

section \<open>The hash gate\<close>

definition existing_hash :: "nlabel \<Rightarrow> pyval \<Rightarrow> graph \<Rightarrow> pyval option" where
  "existing_hash lb i g = (if (lb, i) \<in> nodes g then Some (nprop g (lb, i) ''sha256'') else None)"

definition hash_gate :: "nlabel \<Rightarrow> pyval \<Rightarrow> pydict \<Rightarrow> graph \<Rightarrow> py_error + bool" where
  "hash_gate lb i record g =
     (case existing_hash lb i g of
        None \<Rightarrow> Inr False
      | Some h \<Rightarrow> bindE (py_item (PDict record) ''sha256'') (\<lambda>s. Inr (py_eq h s)))"

section \<open>Artists\<close>

definition artists_api :: "pystr" where
  "artists_api = lit ''https://api.discogs.com/artists/''"

definition artist_upsert :: "'z runtime_scheme \<Rightarrow> pyval \<Rightarrow> pydict \<Rightarrow> graph \<Rightarrow> py_error + graph" where
  "artist_upsert rt i record g =
     bindE (py_item (PDict record) ''sha256'') (\<lambda>sha.
     bindE (merge_node (Artist, i) g) (\<lambda>g1.
       Inr (set_node (Artist, i)
         [(''name'', dget_default record ''name'' (PStr (lit ''Unknown Artist''))),
          (''resource_url'', PStr (artists_api @ py_str rt i)),
          (''releases_url'', PStr (artists_api @ py_str rt i @ lit ''/releases'')),
          (''sha256'', sha)] g1)))"

text \<open>One row of the statements that link an artist to a member, a group, an alias.\<close>

definition member_row :: "pyval \<Rightarrow> pyval \<Rightarrow> graph \<Rightarrow> py_error + graph" where
  "member_row i m = link (Artist, i) (Artist, m) (plain (Artist, m) MEMBER_OF (Artist, i))"

definition group_row :: "pyval \<Rightarrow> pyval \<Rightarrow> graph \<Rightarrow> py_error + graph" where
  "group_row i m = link (Artist, i) (Artist, m) (plain (Artist, i) MEMBER_OF (Artist, m))"

definition alias_row :: "pyval \<Rightarrow> pyval \<Rightarrow> graph \<Rightarrow> py_error + graph" where
  "alias_row i m = link (Artist, i) (Artist, m) (plain (Artist, m) ALIAS_OF (Artist, i))"

definition process_artist :: "'z runtime_scheme \<Rightarrow> pydict \<Rightarrow> graph \<Rightarrow> py_error + (bool \<times> graph)" where
  "process_artist rt record g =
     bindE (py_item (PDict record) ''id'') (\<lambda>i.
     bindE (hash_gate Artist i record g) (\<lambda>same.
       if same then Inr (False, g)
       else
         bindE (artist_upsert rt i record g) (\<lambda>g1.
         bindE (ref_ids (dget record ''members'')) (\<lambda>members.
         bindE (foldE (member_row i) members g1) (\<lambda>g2.
         bindE (ref_ids (dget record ''groups'')) (\<lambda>groups.
         bindE (foldE (group_row i) groups g2) (\<lambda>g3.
         bindE (ref_ids (dget record ''aliases'')) (\<lambda>aliases.
         bindE (foldE (alias_row i) aliases g3) (\<lambda>g4.
           Inr (True, g4))))))))))"

section \<open>Labels\<close>

definition label_upsert :: "pyval \<Rightarrow> pydict \<Rightarrow> graph \<Rightarrow> py_error + graph" where
  "label_upsert i record g =
     bindE (py_item (PDict record) ''sha256'') (\<lambda>sha.
     bindE (merge_node (Label, i) g) (\<lambda>g1.
       Inr (set_node (Label, i)
         [(''name'', dget_default record ''name'' (PStr (lit ''Unknown Label''))),
          (''sha256'', sha)] g1)))"

definition parent_row :: "pyval \<Rightarrow> pyval \<Rightarrow> graph \<Rightarrow> py_error + graph" where
  "parent_row i p = link (Label, i) (Label, p) (plain (Label, i) SUBLABEL_OF (Label, p))"

definition sublabel_row :: "pyval \<Rightarrow> pyval \<Rightarrow> graph \<Rightarrow> py_error + graph" where
  "sublabel_row i s = link (Label, i) (Label, s) (plain (Label, s) SUBLABEL_OF (Label, i))"

text \<open>The parent's id, when the record names a parent that has one.\<close>

definition parent_id :: "pydict \<Rightarrow> py_error + pyval list" where
  "parent_id record =
     (let parent = dget record ''parentLabel'' in
      if truthy parent then collectE ref_id [parent] else Inr [])"

definition process_label :: "pydict \<Rightarrow> graph \<Rightarrow> py_error + (bool \<times> graph)" where
  "process_label record g =
     bindE (py_item (PDict record) ''id'') (\<lambda>i.
     bindE (hash_gate Label i record g) (\<lambda>same.
       if same then Inr (False, g)
       else
         bindE (label_upsert i record g) (\<lambda>g1.
         bindE (parent_id record) (\<lambda>parents.
         bindE (foldE (parent_row i) parents g1) (\<lambda>g2.
         bindE (ref_ids (dget record ''sublabels'')) (\<lambda>sublabels.
         bindE (foldE (sublabel_row i) sublabels g2) (\<lambda>g3.
           Inr (True, g3))))))))"

section \<open>Statements shared by masters and releases\<close>

text \<open>\<^verbatim>\<open>_prune_stale_edges\<close> for one node.\<close>

definition prune_stale_edges :: "node \<Rightarrow> reltype \<Rightarrow> nlabel \<Rightarrow> pyval list \<Rightarrow> graph \<Rightarrow> graph" where
  "prune_stale_edges n t target keep g = delete_edges (stale n t target keep) g"

text \<open>\<^verbatim>\<open>MERGE (g:Genre) MERGE (s:Style) MERGE (s)-[:PART_OF]->(g)\<close> for one pair.\<close>

definition part_of_row :: "pyval \<times> pyval \<Rightarrow> graph \<Rightarrow> py_error + graph" where
  "part_of_row pair g =
     bindE (merge_node (Genre, fst pair) g) (\<lambda>g1.
     bindE (merge_node (Style, snd pair) g1) (\<lambda>g2.
       merge_edge (plain (Style, snd pair) PART_OF (Genre, fst pair)) g2))"

definition is_genre_row :: "node \<Rightarrow> pyval \<Rightarrow> graph \<Rightarrow> py_error + graph" where
  "is_genre_row n x = link n (Genre, x) (plain n IS (Genre, x))"

definition is_style_row :: "node \<Rightarrow> pyval \<Rightarrow> graph \<Rightarrow> py_error + graph" where
  "is_style_row n x = link n (Style, x) (plain n IS (Style, x))"

text \<open>\<^verbatim>\<open>xs = record.get(k, [])\<close> as it is iterated after \<^verbatim>\<open>if xs:\<close>.\<close>

definition listed :: "pydict \<Rightarrow> string \<Rightarrow> py_error + pyval list" where
  "listed record k = py_iter (py_or (dget_default record k (PList [])) (PList []))"

text \<open>
  The pairs of the \<^verbatim>\<open>PART_OF\<close> statement: only for a record with one genre. \<^verbatim>\<open>len\<close> of a
  null genre list raises.
\<close>

definition genre_style_pairs :: "pydict \<Rightarrow> py_error + (pyval \<times> pyval) list" where
  "genre_style_pairs record =
     (let genres = dget_default record ''genres'' (PList []);
          styles = dget_default record ''styles'' (PList []) in
      bindE (py_len genres) (\<lambda>n.
        if n = 1 \<and> truthy styles
        then bindE (py_first genres) (\<lambda>gen.
             bindE (py_iter styles) (\<lambda>ss. Inr (map (\<lambda>s. (gen, s)) ss)))
        else Inr []))"

section \<open>Masters\<close>

definition master_upsert :: "pyval \<Rightarrow> pydict \<Rightarrow> graph \<Rightarrow> py_error + graph" where
  "master_upsert i record g =
     bindE (py_item (PDict record) ''sha256'') (\<lambda>sha.
     bindE (merge_node (Master, i) g) (\<lambda>g1.
       Inr (set_node (Master, i)
         [(''title'', dget_default record ''title'' (PStr (lit ''Unknown Master''))),
          (''year'', dget record ''year''),
          (''sha256'', sha)] g1)))"

definition master_prunes :: "pyval \<Rightarrow> pydict \<Rightarrow> graph \<Rightarrow> py_error + graph" where
  "master_prunes i record g =
     bindE (ref_ids (dget record ''artists'')) (\<lambda>artists.
     bindE (truthy_items (dget record ''genres'')) (\<lambda>genres.
     bindE (truthy_items (dget record ''styles'')) (\<lambda>styles.
       Inr (prune_stale_edges (Master, i) IS Style styles
             (prune_stale_edges (Master, i) IS Genre genres
               (prune_stale_edges (Master, i) BY Artist artists g))))))"

definition master_artist_row :: "pyval \<Rightarrow> pyval \<Rightarrow> graph \<Rightarrow> py_error + graph" where
  "master_artist_row i a = link (Master, i) (Artist, a) (plain (Master, i) BY (Artist, a))"

definition process_master :: "pydict \<Rightarrow> graph \<Rightarrow> py_error + (bool \<times> graph)" where
  "process_master record g =
     bindE (py_item (PDict record) ''id'') (\<lambda>i.
     bindE (hash_gate Master i record g) (\<lambda>same.
       if same then Inr (False, g)
       else
         bindE (master_upsert i record g) (\<lambda>g1.
         bindE (master_prunes i record g1) (\<lambda>g2.
         bindE (ref_ids (dget record ''artists'')) (\<lambda>artists.
         bindE (foldE (master_artist_row i) artists g2) (\<lambda>g3.
         bindE (listed record ''genres'') (\<lambda>genres.
         bindE (foldE (is_genre_row (Master, i)) genres g3) (\<lambda>g4.
         bindE (listed record ''styles'') (\<lambda>styles.
         bindE (foldE (is_style_row (Master, i)) styles g4) (\<lambda>g5.
         bindE (genre_style_pairs record) (\<lambda>pairs.
         bindE (foldE part_of_row pairs g5) (\<lambda>g6.
           Inr (True, g6)))))))))))))"

section \<open>Releases\<close>

definition format_names :: "pydict \<Rightarrow> py_error + pyval list" where
  "format_names record =
     bindE (py_iter (dget_default record ''formats'' (PList []))) (\<lambda>items.
       Inr (List.map_filter (\<lambda>item. case item of PDict d \<Rightarrow> map_of d (lit ''name'') | _ \<Rightarrow> None) items))"

definition opt_text :: "pystr option \<Rightarrow> pyval" where
  "opt_text t = (case t of None \<Rightarrow> PNone | Some s \<Rightarrow> PStr s)"

definition release_upsert :: "pyval \<Rightarrow> pyval list \<Rightarrow> pydict \<Rightarrow> pydict \<Rightarrow> graph \<Rightarrow> py_error + graph" where
  "release_upsert i formats media_block record g =
     bindE (py_item (PDict record) ''sha256'') (\<lambda>sha.
     bindE (merge_node (Release, i) g) (\<lambda>g1.
       Inr (set_node (Release, i)
         [(''title'', dget_default record ''title'' (PStr (lit ''Unknown Release''))),
          (''year'', dget record ''year''),
          (''country'', opt_text (release_country record)),
          (''formats'', PList formats),
          (''media_families'', PList (media_families media_block)),
          (''sha256'', sha)] g1)))"

definition master_list :: "pydict \<Rightarrow> pyval list" where
  "master_list record =
     (case usable_master_id (dget record ''master_id'') of None \<Rightarrow> [] | Some m \<Rightarrow> [PStr m])"

definition release_prunes :: "pyval \<Rightarrow> pydict \<Rightarrow> graph \<Rightarrow> py_error + graph" where
  "release_prunes i record g =
     bindE (ref_ids (dget record ''artists'')) (\<lambda>artists.
     bindE (ref_ids (dget record ''labels'')) (\<lambda>labels.
     bindE (truthy_items (dget record ''genres'')) (\<lambda>genres.
     bindE (truthy_items (dget record ''styles'')) (\<lambda>styles.
       Inr (prune_stale_edges (Release, i) IS Style styles
             (prune_stale_edges (Release, i) IS Genre genres
               (prune_stale_edges (Release, i) DERIVED_FROM Master (master_list record)
                 (prune_stale_edges (Release, i) ON Label labels
                   (prune_stale_edges (Release, i) BY Artist artists g)))))))))"

definition release_media :: "'z runtime_scheme \<Rightarrow> pyval \<Rightarrow> pydict \<Rightarrow> graph \<Rightarrow> py_error + graph" where
  "release_media rt i media_block g =
     bindE (issued_on_rows rt i media_block) (\<lambda>rows.
       merge_media MEDIA_SOURCE rows (prune_issued_on MEDIA_SOURCE [prune_record i rows] g))"

definition release_companies :: "'z runtime_scheme \<Rightarrow> pyval \<Rightarrow> pydict \<Rightarrow> graph \<Rightarrow> py_error + graph" where
  "release_companies rt i record g =
     (case resolve_companies_block record of
        None \<Rightarrow> Inr g
      | Some block \<Rightarrow>
          bindE (credited_to_rows rt i block) (\<lambda>rows.
            merge_companies COMPANY_SOURCE rows
              (prune_credited_to COMPANY_SOURCE [credit_prune_record i rows] g)))"

text \<open>The (id, name) pairs of the referenced entities that carry an id.\<close>

definition named_ref :: "pyval \<Rightarrow> py_error + (pyval \<times> pyval) option" where
  "named_ref x =
     bindE (ref_id x) (\<lambda>i.
       case i of
         None \<Rightarrow> Inr None
       | Some j \<Rightarrow> bindE (reference_name x) (\<lambda>n. Inr (Some (j, n))))"

definition named_refs :: "pyval \<Rightarrow> py_error + (pyval \<times> pyval) list" where
  "named_refs v = bindE (py_iter (py_or v (PList []))) (collectE named_ref)"

definition release_artist_row :: "pyval \<Rightarrow> pyval \<times> pyval \<Rightarrow> graph \<Rightarrow> py_error + graph" where
  "release_artist_row i a =
     link_filling (Release, i) (Artist, fst a) ''name'' (snd a) (plain (Release, i) BY (Artist, fst a))"

definition release_label_row :: "pyval \<Rightarrow> pyval \<times> pyval \<Rightarrow> graph \<Rightarrow> py_error + graph" where
  "release_label_row i l =
     link_filling (Release, i) (Label, fst l) ''name'' (snd l) (plain (Release, i) ON (Label, fst l))"

definition derived_from_row :: "pyval \<Rightarrow> pyval \<Rightarrow> graph \<Rightarrow> py_error + graph" where
  "derived_from_row i m = link (Release, i) (Master, m) (plain (Release, i) DERIVED_FROM (Master, m))"

definition release_credits :: "'z runtime_scheme \<Rightarrow> pyval \<Rightarrow> pydict \<Rightarrow> graph \<Rightarrow> py_error + graph" where
  "release_credits rt i record g =
     bindE (person_credit_rows rt i (dget record ''extraartists'')) (\<lambda>rows.
     bindE (merge_credits rows (prune_credited_on [credited_on_prune_record i rows] g)) (\<lambda>g1.
       merge_same_as (filter (\<lambda>c. truthy (cd_artist c)) rows) g1))"

definition process_release :: "'z runtime_scheme \<Rightarrow> pydict \<Rightarrow> graph \<Rightarrow> py_error + (bool \<times> graph)" where
  "process_release rt record g =
     bindE (py_item (PDict record) ''id'') (\<lambda>i.
     bindE (hash_gate Release i record g) (\<lambda>same.
       if same then Inr (False, g)
       else
         bindE (format_names record) (\<lambda>formats.
         bindE (resolve_media_block rt record) (\<lambda>block.
         bindE (release_upsert i formats block record g) (\<lambda>g1.
         bindE (release_prunes i record g1) (\<lambda>g2.
         bindE (release_media rt i block g2) (\<lambda>g3.
         bindE (release_companies rt i record g3) (\<lambda>g4.
         bindE (named_refs (dget record ''artists'')) (\<lambda>artists.
         bindE (foldE (release_artist_row i) artists g4) (\<lambda>g5.
         bindE (named_refs (dget record ''labels'')) (\<lambda>labels.
         bindE (foldE (release_label_row i) labels g5) (\<lambda>g6.
         bindE (foldE (derived_from_row i) (master_list record) g6) (\<lambda>g7.
         bindE (listed record ''genres'') (\<lambda>genres.
         bindE (foldE (is_genre_row (Release, i)) genres g7) (\<lambda>g8.
         bindE (listed record ''styles'') (\<lambda>styles.
         bindE (foldE (is_style_row (Release, i)) styles g8) (\<lambda>g9.
         bindE (genre_style_pairs record) (\<lambda>pairs.
         bindE (foldE part_of_row pairs g9) (\<lambda>g10.
         bindE (release_credits rt i record g10) (\<lambda>g11.
           Inr (True, g11)))))))))))))))))))))"

end
