(* ===== verification/ReleaseEffect.thy ===== *)
theory ReleaseEffect
  imports EntityProjection
begin

text \<open>
  What projecting one release means, independently of the write path: the record is read
  into a set of writes, and the edges after the transaction are the old ones without the
  stale ones, together with the asserted ones. \<open>stale_release\<close>, \<open>asserted_edges\<close> and
  \<open>derived_edges\<close> are the specification; the effect lemma shows that the single-record
  processor meets it. The batch path is compared with the same specification in its own
  theory.
\<close>

section \<open>The writes of a release\<close>

record release_writes =
  rw_id :: pyval
  rw_artists :: "(pyval \<times> pyval) list"
  rw_labels :: "(pyval \<times> pyval) list"
  rw_masters :: "pyval list"
  rw_genres :: "pyval list"
  rw_styles :: "pyval list"
  rw_keep_genres :: "pyval list"
  rw_keep_styles :: "pyval list"
  rw_media :: "media_row list"
  rw_companies :: "company_row list option"
  rw_pairs :: "(pyval \<times> pyval) list"
  rw_credits :: "credit_row list"

abbreviation rnode :: "release_writes \<Rightarrow> node" where
  "rnode w \<equiv> (Release, rw_id w)"

text \<open>An edge that the new version of the release no longer asserts.\<close>

definition stale_release :: "release_writes \<Rightarrow> edge \<Rightarrow> bool" where
  "stale_release w e \<longleftrightarrow>
     stale (rnode w) BY Artist (map fst (rw_artists w)) e \<or>
     stale (rnode w) ON Label (map fst (rw_labels w)) e \<or>
     stale (rnode w) DERIVED_FROM Master (rw_masters w) e \<or>
     stale (rnode w) IS Genre (rw_keep_genres w) e \<or>
     stale (rnode w) IS Style (rw_keep_styles w) e \<or>
     stale_issued_on MEDIA_SOURCE (prune_record (rw_id w) (rw_media w)) e \<or>
     (case rw_companies w of
        None \<Rightarrow> False
      | Some rows \<Rightarrow> stale_credited_to COMPANY_SOURCE (credit_prune_record (rw_id w) rows) e) \<or>
     stale_credited_on (credited_on_prune_record (rw_id w) (rw_credits w)) e"

text \<open>The edges of the release node that its new version asserts.\<close>

definition asserted_edges :: "release_writes \<Rightarrow> edge set" where
  "asserted_edges w =
     (\<lambda>a. plain (rnode w) BY (Artist, fst a)) ` set (rw_artists w) \<union>
     (\<lambda>l. plain (rnode w) ON (Label, fst l)) ` set (rw_labels w) \<union>
     (\<lambda>m. plain (rnode w) DERIVED_FROM (Master, m)) ` set (rw_masters w) \<union>
     (\<lambda>x. plain (rnode w) IS (Genre, x)) ` set (rw_genres w) \<union>
     (\<lambda>x. plain (rnode w) IS (Style, x)) ` set (rw_styles w) \<union>
     issued_on_edge MEDIA_SOURCE ` set (rw_media w) \<union>
     (case rw_companies w of
        None \<Rightarrow> {}
      | Some rows \<Rightarrow> credited_to_edge COMPANY_SOURCE ` set rows) \<union>
     credited_on_edge ` set (rw_credits w)"

text \<open>Edges between other nodes that the record implies.\<close>

definition derived_edges :: "release_writes \<Rightarrow> edge set" where
  "derived_edges w =
     in_family_edge ` set (rw_media w) \<union>
     (\<lambda>p. plain (Style, snd p) PART_OF (Genre, fst p)) ` set (rw_pairs w)"

definition same_as_edges :: "node set \<Rightarrow> release_writes \<Rightarrow> edge set" where
  "same_as_edges N w =
     same_as_edge ` {c \<in> set (rw_credits w). truthy (cd_artist c) \<and> (Artist, cd_artist c) \<in> N}"

text \<open>Nodes the writes create when they are missing.\<close>

definition written_nodes :: "release_writes \<Rightarrow> node set" where
  "written_nodes w =
     insert (rnode w)
      ((\<lambda>a. (Artist, fst a)) ` set (rw_artists w) \<union> (\<lambda>l. (Label, fst l)) ` set (rw_labels w) \<union>
       (\<lambda>m. (Master, m)) ` set (rw_masters w) \<union> (\<lambda>x. (Genre, x)) ` set (rw_genres w) \<union>
       (\<lambda>x. (Style, x)) ` set (rw_styles w) \<union>
       medium_node ` set (rw_media w) \<union> family_node ` set (rw_media w) \<union>
       (case rw_companies w of None \<Rightarrow> {} | Some rows \<Rightarrow> company_node ` set rows) \<union>
       (\<lambda>p. (Genre, fst p)) ` set (rw_pairs w) \<union> (\<lambda>p. (Style, snd p)) ` set (rw_pairs w) \<union>
       person_node ` set (rw_credits w))"

text \<open>The writes of the single-record path, read from the record.\<close>

definition company_writes :: "'z runtime_scheme \<Rightarrow> pyval \<Rightarrow> pydict \<Rightarrow> py_error + company_row list option" where
  "company_writes rt i record =
     (case resolve_companies_block record of
        None \<Rightarrow> Inr None
      | Some block \<Rightarrow> mapR Some (credited_to_rows rt i block))"

definition single_writes :: "'z runtime_scheme \<Rightarrow> pydict \<Rightarrow> py_error + release_writes" where
  "single_writes rt record =
     bindE (py_item (PDict record) ''id'') (\<lambda>i.
     bindE (resolve_media_block rt record) (\<lambda>block.
     bindE (truthy_items (dget record ''genres'')) (\<lambda>keep_genres.
     bindE (truthy_items (dget record ''styles'')) (\<lambda>keep_styles.
     bindE (issued_on_rows rt i block) (\<lambda>media.
     bindE (company_writes rt i record) (\<lambda>companies.
     bindE (named_refs (dget record ''artists'')) (\<lambda>artists.
     bindE (named_refs (dget record ''labels'')) (\<lambda>labels.
     bindE (listed record ''genres'') (\<lambda>genres.
     bindE (listed record ''styles'') (\<lambda>styles.
     bindE (genre_style_pairs record) (\<lambda>pairs.
     bindE (person_credit_rows rt i (dget record ''extraartists'')) (\<lambda>credits.
       Inr \<lparr>rw_id = i, rw_artists = artists, rw_labels = labels, rw_masters = master_list record,
            rw_genres = genres, rw_styles = styles, rw_keep_genres = keep_genres,
            rw_keep_styles = keep_styles, rw_media = media, rw_companies = companies,
            rw_pairs = pairs, rw_credits = credits\<rparr>))))))))))))"

section \<open>Reading references twice\<close>

lemma named_ref_ref_id: "named_ref x = Inr y \<Longrightarrow> ref_id x = Inr (map_option fst y)"
  by (auto simp: named_ref_def simp del: ref_id.simps split: option.splits)

lemma collect_named_ids:
  "collectE named_ref xs = Inr ys \<Longrightarrow> collectE ref_id xs = Inr (map fst ys)"
proof (induction xs arbitrary: ys)
  case (Cons x xs)
  then show ?case
    by (auto simp del: ref_id.simps dest!: named_ref_ref_id split: option.splits)
qed simp

lemma named_refs_ids: "named_refs v = Inr ys \<Longrightarrow> ref_ids v = Inr (map fst ys)"
  by (auto simp: named_refs_def ref_ids_def collect_named_ids)

lemma named_refs_truthy: "named_refs v = Inr ys \<Longrightarrow> y \<in> set ys \<Longrightarrow> truthy (fst y)"
  using ref_ids_truthy [OF named_refs_ids] by auto

lemma listed_truthy_items: "listed record k = Inr xs \<Longrightarrow> truthy_items (dget record k) = Inr (filter truthy xs)"
  by (auto simp: listed_def truthy_items_def dget_def dget_default_def py_or_def split: option.splits)

lemma master_list_truthy: "m \<in> set (master_list record) \<Longrightarrow> truthy m"
  using usable_master_id_Some(1) by (fastforce simp: master_list_def split: option.splits)

text \<open>A truthy keep-list has no null, so \<^verbatim>\<open>NOT x IN keep\<close> is plain non-membership.\<close>

lemma not_in_truthy: "(\<And>x. x \<in> set keep \<Longrightarrow> truthy x) \<Longrightarrow> not_in y keep \<longleftrightarrow> y \<notin> set keep"
  unfolding not_in_def using truthy.simps(1) by blast

section \<open>Effect of each step\<close>

lemma release_upsert_effect:
  assumes "release_upsert i fmts block record g = Inr g'"
  shows "nodes g' = insert (Release, i) (nodes g)" and "edges g' = edges g" and "i \<noteq> PNone"
    and "eprop g' = eprop g" and "\<And>n. n \<noteq> (Release, i) \<Longrightarrow> nprop g' n = nprop g n"
    and "py_item (PDict record) ''sha256'' = Inr (nprop g' (Release, i) ''sha256'')"
    and "nprop g' (Release, i) ''country'' = opt_text (release_country record)"
    and "nprop g' (Release, i) ''title'' = dget_default record ''title'' (PStr (lit ''Unknown Release''))"
    and "nprop g' (Release, i) ''year'' = dget record ''year''"
    and "nprop g' (Release, i) ''formats'' = PList fmts"
    and "nprop g' (Release, i) ''media_families'' = PList (media_families block)"
  using assms by (auto simp: release_upsert_def nprop_set_node)

lemma release_prunes_effect:
  assumes "release_prunes i record g = Inr g'" and "single_writes rt record = Inr w" and "rw_id w = i"
  shows "nodes g' = nodes g" and "nprop g' = nprop g"
    and "edges g' = {e \<in> edges g. \<not> stale (rnode w) BY Artist (map fst (rw_artists w)) e \<and>
        \<not> stale (rnode w) ON Label (map fst (rw_labels w)) e \<and>
        \<not> stale (rnode w) DERIVED_FROM Master (rw_masters w) e \<and>
        \<not> stale (rnode w) IS Genre (rw_keep_genres w) e \<and>
        \<not> stale (rnode w) IS Style (rw_keep_styles w) e}"
  using assms
  by (auto simp: release_prunes_def prune_stale_edges_def single_writes_def dest!: named_refs_ids)

lemma issued_on_rows_release:
  "issued_on_rows rt i block = Inr rows \<Longrightarrow> r \<in> set rows \<Longrightarrow> media_row_ok rt i (mr_medium r) r"
proof (erule issued_on_rows_dict)
  fix items d
  assume r: "r \<in> set rows" and f: "foldE (\<lambda>i' d. Inr (issued_on_step rt i i' d)) items [] = (Inr d :: py_error + _)"
    and rows: "rows = map snd d"
  then obtain k where "(k, r) \<in> set d" by auto
  then have "media_row_ok rt i k r" by (rule media.loop_ok [OF f])
  then show "media_row_ok rt i (mr_medium r) r" by (simp add: media_row_ok_def)
qed

lemma credited_to_rows_release:
  "credited_to_rows rt i block = Inr rows \<Longrightarrow> r \<in> set rows \<Longrightarrow> company_row_ok i (cr_id r, cr_role r) r"
proof (erule credited_to_rows_dict)
  fix items d
  assume r: "r \<in> set rows" and f: "foldE (credited_to_step rt i) items [] = Inr d"
    and rows: "rows = map snd d"
  then obtain k where "(k, r) \<in> set d" by auto
  then have "company_row_ok i k r" by (rule companies.loop_ok [OF f])
  then show "company_row_ok i (cr_id r, cr_role r) r" by (simp add: company_row_ok_def)
qed

lemma release_media_effect:
  assumes "release_media rt i block g = Inr g'" and "issued_on_rows rt i block = Inr rows"
    and "(Release, i) \<in> nodes g"
  shows "nodes g' = nodes g \<union> medium_node ` set rows \<union> family_node ` set rows"
    and "edges g' = {e \<in> edges g. \<not> stale_issued_on MEDIA_SOURCE (prune_record i rows) e} \<union>
        issued_on_edge MEDIA_SOURCE ` set rows \<union> in_family_edge ` set rows"
    and "\<And>n. fst n \<noteq> Medium \<Longrightarrow> nprop g' n = nprop g n"
proof -
  let ?p = "prune_issued_on MEDIA_SOURCE [prune_record i rows] g"
  from assms have m: "merge_media MEDIA_SOURCE rows ?p = Inr g'" by (simp add: release_media_def)
  have "\<And>r. r \<in> set rows \<Longrightarrow> (Release, mr_release r) \<in> nodes ?p"
    using issued_on_rows_release [OF assms(2)] assms(3) by (simp add: prune_issued_on_def media_row_ok_def)
  note eff = merge_media_effect [OF m this]
  then show "nodes g' = nodes g \<union> medium_node ` set rows \<union> family_node ` set rows"
    and "edges g' = {e \<in> edges g. \<not> stale_issued_on MEDIA_SOURCE (prune_record i rows) e} \<union>
        issued_on_edge MEDIA_SOURCE ` set rows \<union> in_family_edge ` set rows"
    and "\<And>n. fst n \<noteq> Medium \<Longrightarrow> nprop g' n = nprop g n"
    by (simp_all add: prune_issued_on_def)
qed

lemma release_companies_effect:
  assumes "release_companies rt i record g = Inr g'" and "company_writes rt i record = Inr rows"
    and "(Release, i) \<in> nodes g"
  shows "nodes g' = nodes g \<union> (case rows of None \<Rightarrow> {} | Some rs \<Rightarrow> company_node ` set rs)"
    and "edges g' = {e \<in> edges g. \<not> (case rows of None \<Rightarrow> False
             | Some rs \<Rightarrow> stale_credited_to COMPANY_SOURCE (credit_prune_record i rs) e)} \<union>
        (case rows of None \<Rightarrow> {} | Some rs \<Rightarrow> credited_to_edge COMPANY_SOURCE ` set rs)"
    and "\<And>n. fst n \<noteq> Company \<Longrightarrow> nprop g' n = nprop g n"
proof -
  have "nodes g' = nodes g \<union> (case rows of None \<Rightarrow> {} | Some rs \<Rightarrow> company_node ` set rs) \<and>
    edges g' = {e \<in> edges g. \<not> (case rows of None \<Rightarrow> False
             | Some rs \<Rightarrow> stale_credited_to COMPANY_SOURCE (credit_prune_record i rs) e)} \<union>
        (case rows of None \<Rightarrow> {} | Some rs \<Rightarrow> credited_to_edge COMPANY_SOURCE ` set rs) \<and>
    (\<forall>n. fst n \<noteq> Company \<longrightarrow> nprop g' n = nprop g n)"
  proof (cases "resolve_companies_block record")
    case None
    with assms show ?thesis by (auto simp: release_companies_def company_writes_def)
  next
    case (Some block)
    with assms obtain rs where rs: "credited_to_rows rt i block = Inr rs" "rows = Some rs"
      by (auto simp: company_writes_def)
    let ?p = "prune_credited_to COMPANY_SOURCE [credit_prune_record i rs] g"
    from assms Some rs have m: "merge_companies COMPANY_SOURCE rs ?p = Inr g'"
      by (simp add: release_companies_def)
    have "\<And>r. r \<in> set rs \<Longrightarrow> (Release, cr_release r) \<in> nodes ?p"
      using credited_to_rows_release [OF rs(1)] assms(3) by (simp add: prune_credited_to_def company_row_ok_def)
    from merge_companies_effect [OF m this] rs show ?thesis
      by (simp add: prune_credited_to_def)
  qed
  then show "nodes g' = nodes g \<union> (case rows of None \<Rightarrow> {} | Some rs \<Rightarrow> company_node ` set rs)"
    and "edges g' = {e \<in> edges g. \<not> (case rows of None \<Rightarrow> False
             | Some rs \<Rightarrow> stale_credited_to COMPANY_SOURCE (credit_prune_record i rs) e)} \<union>
        (case rows of None \<Rightarrow> {} | Some rs \<Rightarrow> credited_to_edge COMPANY_SOURCE ` set rs)"
    and "\<And>n. fst n \<noteq> Company \<Longrightarrow> nprop g' n = nprop g n" by blast+
qed

lemma release_credits_effect:
  assumes "release_credits rt i record g = Inr g'"
    and "person_credit_rows rt i (dget record ''extraartists'') = Inr rows"
    and "(Release, i) \<in> nodes g"
  shows "nodes g' = nodes g \<union> person_node ` set rows"
    and "edges g' = {e \<in> edges g. \<not> stale_credited_on (credited_on_prune_record i rows) e} \<union>
        credited_on_edge ` set rows \<union>
        same_as_edge ` {c \<in> set rows. truthy (cd_artist c) \<and> (Artist, cd_artist c) \<in> nodes g}"
    and "nprop g' = nprop g"
proof -
  let ?p = "prune_credited_on [credited_on_prune_record i rows] g"
  from assms obtain g1 where m: "merge_credits rows ?p = Inr g1"
    and s: "merge_same_as (filter (\<lambda>c. truthy (cd_artist c)) rows) g1 = Inr g'"
    by (auto simp: release_credits_def)
  have "\<And>r. r \<in> set rows \<Longrightarrow> (Release, cd_release r) \<in> nodes ?p"
    using person_credit_rows_facts(3) [OF assms(2)] assms(3) by (simp add: prune_credited_on_def)
  note e1 = merge_credits_effect [OF m this]
  note e2 = foldE_link_matched [OF s [unfolded merge_same_as_def]]
  show "nodes g' = nodes g \<union> person_node ` set rows" and "nprop g' = nprop g"
    using e1 e2 by (simp_all add: prune_credited_on_def)
  have "{r \<in> set (filter (\<lambda>c. truthy (cd_artist c)) rows). person_node r \<in> nodes g1 \<and>
          (Artist, cd_artist r) \<in> nodes g1}
      = {c \<in> set rows. truthy (cd_artist c) \<and> (Artist, cd_artist c) \<in> nodes g}"
    using e1(1) by (auto simp: prune_credited_on_def person_node_def)
  then show "edges g' = {e \<in> edges g. \<not> stale_credited_on (credited_on_prune_record i rows) e} \<union>
        credited_on_edge ` set rows \<union>
        same_as_edge ` {c \<in> set rows. truthy (cd_artist c) \<and> (Artist, cd_artist c) \<in> nodes g}"
    using e1(2) e2(2) by (simp add: prune_credited_on_def)
qed

lemma foldE_part_of:
  assumes "foldE part_of_row pairs g = Inr g'"
  shows "nodes g' = nodes g \<union> (\<lambda>p. (Genre, fst p)) ` set pairs \<union> (\<lambda>p. (Style, snd p)) ` set pairs"
    and "edges g' = edges g \<union> (\<lambda>p. plain (Style, snd p) PART_OF (Genre, fst p)) ` set pairs"
    and "nprop g' = nprop g" and "eprop g' = eprop g"
proof -
  have "nodes g' = nodes g \<union> (\<lambda>p. (Genre, fst p)) ` set pairs \<union> (\<lambda>p. (Style, snd p)) ` set pairs \<and>
    edges g' = edges g \<union> (\<lambda>p. plain (Style, snd p) PART_OF (Genre, fst p)) ` set pairs \<and>
    nprop g' = nprop g \<and> eprop g' = eprop g"
    using assms
  proof (induction pairs arbitrary: g)
    case (Cons p pairs)
    then obtain g1 where g1: "part_of_row p g = Inr g1" and rest: "foldE part_of_row pairs g1 = Inr g'"
      by auto
    from g1 have "nodes g1 = insert (Style, snd p) (insert (Genre, fst p) (nodes g))"
      "edges g1 = insert (plain (Style, snd p) PART_OF (Genre, fst p)) (edges g)"
      "nprop g1 = nprop g" "eprop g1 = eprop g"
      by (auto simp: part_of_row_def)
    with Cons.IH [OF rest] show ?case by auto
  qed simp
  then show "nodes g' = nodes g \<union> (\<lambda>p. (Genre, fst p)) ` set pairs \<union> (\<lambda>p. (Style, snd p)) ` set pairs"
    and "edges g' = edges g \<union> (\<lambda>p. plain (Style, snd p) PART_OF (Genre, fst p)) ` set pairs"
    and "nprop g' = nprop g" and "eprop g' = eprop g" by blast+
qed

section \<open>Effect of the whole transaction\<close>

text \<open>The intermediate graphs of a run that changed something.\<close>

lemma process_release_steps:
  assumes "process_release rt record g = Inr (True, g')"
  obtains w fmts block g1 g2 g3 g4 g5 g6 g7 g8 g9 g10 where "single_writes rt record = Inr w"
    and "hash_gate Release (rw_id w) record g = Inr False"
    and "py_item (PDict record) ''id'' = Inr (rw_id w)"
    and "format_names record = Inr fmts" and "resolve_media_block rt record = Inr block"
    and "release_upsert (rw_id w) fmts block record g = Inr g1"
    and "release_prunes (rw_id w) record g1 = Inr g2"
    and "release_media rt (rw_id w) block g2 = Inr g3"
    and "issued_on_rows rt (rw_id w) block = Inr (rw_media w)"
    and "release_companies rt (rw_id w) record g3 = Inr g4"
    and "company_writes rt (rw_id w) record = Inr (rw_companies w)"
    and "foldE (release_artist_row (rw_id w)) (rw_artists w) g4 = Inr g5"
    and "foldE (release_label_row (rw_id w)) (rw_labels w) g5 = Inr g6"
    and "foldE (derived_from_row (rw_id w)) (rw_masters w) g6 = Inr g7"
    and "foldE (is_genre_row (rnode w)) (rw_genres w) g7 = Inr g8"
    and "foldE (is_style_row (rnode w)) (rw_styles w) g8 = Inr g9"
    and "foldE part_of_row (rw_pairs w) g9 = Inr g10"
    and "person_credit_rows rt (rw_id w) (dget record ''extraartists'') = Inr (rw_credits w)"
    and "release_credits rt (rw_id w) record g10 = Inr g'"
proof -
  from assms obtain i fmts block g1 g2 g3 g4 artists g5 labels g6 g7 genres g8 styles g9 pairs g10
    where i: "py_item (PDict record) ''id'' = Inr i" and gate: "hash_gate Release i record g = Inr False"
    and fmts: "format_names record = Inr fmts" and block: "resolve_media_block rt record = Inr block"
    and s1: "release_upsert i fmts block record g = Inr g1" and s2: "release_prunes i record g1 = Inr g2"
    and s3: "release_media rt i block g2 = Inr g3" and s4: "release_companies rt i record g3 = Inr g4"
    and artists: "named_refs (dget record ''artists'') = Inr artists"
    and s5: "foldE (release_artist_row i) artists g4 = Inr g5"
    and labels: "named_refs (dget record ''labels'') = Inr labels"
    and s6: "foldE (release_label_row i) labels g5 = Inr g6"
    and s7: "foldE (derived_from_row i) (master_list record) g6 = Inr g7"
    and genres: "listed record ''genres'' = Inr genres"
    and s8: "foldE (is_genre_row (Release, i)) genres g7 = Inr g8"
    and styles: "listed record ''styles'' = Inr styles"
    and s9: "foldE (is_style_row (Release, i)) styles g8 = Inr g9"
    and pairs: "genre_style_pairs record = Inr pairs" and s10: "foldE part_of_row pairs g9 = Inr g10"
    and s11: "release_credits rt i record g10 = Inr g'"
    unfolding process_release_def by (auto simp del: py_item_Inr split: if_splits)
  from s3 obtain media where media: "issued_on_rows rt i block = Inr media"
    by (auto simp: release_media_def)
  from s4 obtain companies where companies: "company_writes rt i record = Inr companies"
    by (auto simp: release_companies_def company_writes_def split: option.splits)
  from s11 obtain credits where credits: "person_credit_rows rt i (dget record ''extraartists'') = Inr credits"
    by (auto simp: release_credits_def)
  let ?w = "\<lparr>rw_id = i, rw_artists = artists, rw_labels = labels, rw_masters = master_list record,
            rw_genres = genres, rw_styles = styles, rw_keep_genres = filter truthy genres,
            rw_keep_styles = filter truthy styles, rw_media = media, rw_companies = companies,
            rw_pairs = pairs, rw_credits = credits\<rparr>"
  have "single_writes rt record = Inr ?w"
    using i block media companies artists labels genres styles pairs credits
      listed_truthy_items [OF genres] listed_truthy_items [OF styles]
    by (simp add: single_writes_def del: py_item.simps py_item_Inr)
  then show thesis
    by (rule that [of ?w fmts block g1 g2 g3 g4 g5 g6 g7 g8 g9 g10]) (simp_all add: i gate fmts block s1 s2 s3 media s4 companies s5 s6 s7 s8 s9 s10 credits s11
        del: py_item.simps py_item_Inr)
qed

text \<open>A prune only hits edges of its own type, so it leaves the edges of the other families.\<close>

lemma stale_rels:
  "stale n t lb keep e \<Longrightarrow> e_rel e = t"
  "stale_issued_on src r e \<Longrightarrow> e_rel e = ISSUED_ON"
  "stale_credited_to src r' e \<Longrightarrow> e_rel e = CREDITED_TO"
  "stale_credited_on r'' e \<Longrightarrow> e_rel e = CREDITED_ON"
  by (auto simp: stale_def stale_issued_on_def stale_credited_to_def stale_credited_on_def
      split: prod.splits)

lemma edge_rels [simp]:
  "e_rel (issued_on_edge src mr) = ISSUED_ON" "e_rel (in_family_edge mr) = IN_FAMILY"
  "e_rel (credited_to_edge src cr) = CREDITED_TO" "e_rel (credited_on_edge c) = CREDITED_ON"
  "e_rel (same_as_edge c) = SAME_AS"
  by (simp_all add: issued_on_edge_def in_family_edge_def credited_to_edge_def
      credited_on_edge_def same_as_edge_def)

lemma links_effect:
  assumes "foldE (release_artist_row i) artists g4 = Inr g5"
    and "foldE (release_label_row i) labels g5 = Inr g6"
    and "foldE (derived_from_row i) masters g6 = Inr g7"
    and "foldE (is_genre_row (Release, i)) genres g7 = Inr g8"
    and "foldE (is_style_row (Release, i)) styles g8 = Inr g9"
    and "(Release, i) \<in> nodes g4"
  shows "nodes g9 = nodes g4 \<union> (\<lambda>a. (Artist, fst a)) ` set artists \<union> (\<lambda>l. (Label, fst l)) ` set labels \<union>
      (\<lambda>m. (Master, m)) ` set masters \<union> (\<lambda>x. (Genre, x)) ` set genres \<union> (\<lambda>x. (Style, x)) ` set styles"
    and "edges g9 = edges g4 \<union> (\<lambda>a. plain (Release, i) BY (Artist, fst a)) ` set artists \<union>
      (\<lambda>l. plain (Release, i) ON (Label, fst l)) ` set labels \<union>
      (\<lambda>m. plain (Release, i) DERIVED_FROM (Master, m)) ` set masters \<union>
      (\<lambda>x. plain (Release, i) IS (Genre, x)) ` set genres \<union>
      (\<lambda>x. plain (Release, i) IS (Style, x)) ` set styles"
    and "\<And>n. fst n \<noteq> Artist \<Longrightarrow> fst n \<noteq> Label \<Longrightarrow> nprop g9 n = nprop g4 n"
    and "\<And>n k. k \<noteq> ''name'' \<Longrightarrow> nprop g9 n k = nprop g4 n k"
proof -
  note a = foldE_link_filling [OF assms(1) [unfolded release_artist_row_def]]
  have n4: "(Release, i) \<in> nodes g5" using a(1) assms(6) by simp
  note l = foldE_link_filling [OF assms(2) [unfolded release_label_row_def]]
  have n5: "(Release, i) \<in> nodes g6" using l(1) n4 by simp
  note m = foldE_link [OF assms(3) [unfolded derived_from_row_def]]
  have n6: "(Release, i) \<in> nodes g7" using m(1) n5 by simp
  note gn = foldE_link [OF assms(4) [unfolded is_genre_row_def]]
  have n7: "(Release, i) \<in> nodes g8" using gn(1) n6 by simp
  note st = foldE_link [OF assms(5) [unfolded is_style_row_def]]
  show "nodes g9 = nodes g4 \<union> (\<lambda>a. (Artist, fst a)) ` set artists \<union> (\<lambda>l. (Label, fst l)) ` set labels \<union>
      (\<lambda>m. (Master, m)) ` set masters \<union> (\<lambda>x. (Genre, x)) ` set genres \<union> (\<lambda>x. (Style, x)) ` set styles"
    using a(1) l(1) m(1) gn(1) st(1) assms(6) n4 n5 n6 n7 by simp
  show "edges g9 = edges g4 \<union> (\<lambda>a. plain (Release, i) BY (Artist, fst a)) ` set artists \<union>
      (\<lambda>l. plain (Release, i) ON (Label, fst l)) ` set labels \<union>
      (\<lambda>m. plain (Release, i) DERIVED_FROM (Master, m)) ` set masters \<union>
      (\<lambda>x. plain (Release, i) IS (Genre, x)) ` set genres \<union>
      (\<lambda>x. plain (Release, i) IS (Style, x)) ` set styles"
    using a(2) l(2) m(2) gn(2) st(2) assms(6) n4 n5 n6 n7 by simp
  show "nprop g9 n = nprop g4 n" if "fst n \<noteq> Artist" "fst n \<noteq> Label" for n
  proof -
    have "n \<notin> (\<lambda>a. (Artist, fst a)) ` set artists" "n \<notin> (\<lambda>l. (Label, fst l)) ` set labels"
      using that by auto
    with a(4) [of n] l(4) [of n] m(3) gn(3) st(3) assms(6) n4 n5 n6 n7 show ?thesis by simp
  qed
  show "nprop g9 n k = nprop g4 n k" if "k \<noteq> ''name''" for n k
    using a(5) [of k n] l(5) [of k n] m(3) gn(3) st(3) assms(6) n4 n5 n6 n7 that by simp
qed

lemma process_release_effect:
  assumes "process_release rt record g = Inr (True, g')"
  obtains w where "single_writes rt record = Inr w"
    and "edges g' = {e \<in> edges g. \<not> stale_release w e} \<union> asserted_edges w \<union> derived_edges w \<union>
      same_as_edges (nodes g') w"
    and "nodes g' = nodes g \<union> written_nodes w"
    and "py_item (PDict record) ''sha256'' = Inr (nprop g' (rnode w) ''sha256'')"
    and "\<forall>j. j \<noteq> rw_id w \<longrightarrow> nprop g' (Release, j) = nprop g (Release, j)"
    and "rw_id w \<noteq> PNone"
proof -
  from assms obtain w fmts block g1 g2 g3 g4 g5 g6 g7 g8 g9 g10 where w: "single_writes rt record = Inr w"
    and s1: "release_upsert (rw_id w) fmts block record g = Inr g1"
    and s2: "release_prunes (rw_id w) record g1 = Inr g2"
    and s3: "release_media rt (rw_id w) block g2 = Inr g3"
    and m: "issued_on_rows rt (rw_id w) block = Inr (rw_media w)"
    and s4: "release_companies rt (rw_id w) record g3 = Inr g4"
    and c: "company_writes rt (rw_id w) record = Inr (rw_companies w)"
    and s5: "foldE (release_artist_row (rw_id w)) (rw_artists w) g4 = Inr g5"
    and s6: "foldE (release_label_row (rw_id w)) (rw_labels w) g5 = Inr g6"
    and s7: "foldE (derived_from_row (rw_id w)) (rw_masters w) g6 = Inr g7"
    and s8: "foldE (is_genre_row (rnode w)) (rw_genres w) g7 = Inr g8"
    and s9: "foldE (is_style_row (rnode w)) (rw_styles w) g8 = Inr g9"
    and s10: "foldE part_of_row (rw_pairs w) g9 = Inr g10"
    and cr: "person_credit_rows rt (rw_id w) (dget record ''extraartists'') = Inr (rw_credits w)"
    and s11: "release_credits rt (rw_id w) record g10 = Inr g'"
    by (rule process_release_steps)
  note e1 = release_upsert_effect [OF s1] and e2 = release_prunes_effect [OF s2 w refl]
  have n2: "rnode w \<in> nodes g2" using e1(1) e2(1) by simp
  note e3 = release_media_effect [OF s3 m n2]
  have n3: "rnode w \<in> nodes g3" using e3(1) n2 by simp
  note e4 = release_companies_effect [OF s4 c n3]
  have n4: "rnode w \<in> nodes g4" using e4(1) n3 by simp
  note e9 = links_effect [OF s5 s6 s7 s8 s9 n4] and e10 = foldE_part_of [OF s10]
  have n10: "rnode w \<in> nodes g10" using e9(1) e10(1) n4 by simp
  note e11 = release_credits_effect [OF s11 cr n10]
  have nodes: "nodes g' = nodes g \<union> written_nodes w"
    unfolding e11(1) e10(1) e9(1) e4(1) e3(1) e2(1) e1(1) written_nodes_def by auto
  have arts: "(Artist, a) \<in> nodes g10 \<longleftrightarrow> (Artist, a) \<in> nodes g'" for a
    unfolding e11(1) by (auto simp: person_node_def)
  have comp: "\<not> (case rw_companies w of None \<Rightarrow> False
      | Some rs \<Rightarrow> stale_credited_to COMPANY_SOURCE (credit_prune_record (rw_id w) rs) e)"
    if "e_rel e \<noteq> CREDITED_TO" for e
    using that by (auto dest: stale_rels split: option.splits)
  have cred: "\<not> stale_credited_on r e" if "e_rel e \<noteq> CREDITED_ON" for e r
    using that by (auto dest: stale_rels)
  have comp_edges: "e_rel e = CREDITED_TO"
    if "e \<in> (case rw_companies w of None \<Rightarrow> {} | Some rs \<Rightarrow> credited_to_edge COMPANY_SOURCE ` set rs)" for e
    using that by (auto split: option.splits)
  have "edges g' = {e \<in> edges g. \<not> stale_release w e} \<union> asserted_edges w \<union> derived_edges w \<union>
      same_as_edges (nodes g') w"
    unfolding e11(2) e10(2) e9(2) e4(2) e3(2) e2(3) e1(2) stale_release_def asserted_edges_def
      derived_edges_def same_as_edges_def arts
    by (auto simp: comp cred dest: comp_edges)
  moreover have "nprop g' (Release, j) = nprop g1 (Release, j)" for j
    using e11(3) e10(3) e9(3) [of "(Release, j)"] e4(3) [of "(Release, j)"] e3(3) [of "(Release, j)"] e2(2)
    by simp
  ultimately show thesis
    using e1 nodes w by (intro that [of w]) (simp_all del: py_item.simps py_item_Inr)
qed

text \<open>A run that reports no change has changed nothing.\<close>

lemma process_release_False:
  "process_release rt record g = Inr (False, g') \<Longrightarrow> g' = g"
  by (auto simp: process_release_def simp del: py_item_Inr split: if_splits)

end
