(* ===== verification/BatchProjection.thy ===== *)
theory BatchProjection
  imports ReleaseEffect
begin

text \<open>
  \<^verbatim>\<open>graphinator/batch_projection.py\<close>: the batched write path. A batch is split into the
  messages that carry a usable id and the indices to reject; the records whose stored hash
  differs are written in one transaction, one unwound statement per kind of edge. A rejected
  index and the write are independent, and an error of the transaction leaves the graph as
  it was.
\<close>

section \<open>Selection\<close>

text \<open>The first loop of every processor: indices to reject, records to keep.\<close>

definition nack_indices :: "(pydict \<Rightarrow> bool) \<Rightarrow> pydict list \<Rightarrow> nat set" where
  "nack_indices usable messages =
     set (map fst (filter (\<lambda>(i, m). \<not> usable m) (List.enumerate 0 messages)))"

definition has_id :: "pydict \<Rightarrow> bool" where
  "has_id d \<longleftrightarrow> truthy (dget d ''id'')"

definition has_master_id :: "pydict \<Rightarrow> bool" where
  "has_master_id d \<longleftrightarrow> usable_master_id (dget d ''id'') \<noteq> None"

text \<open>
  The hash query: one row per id, the stored hash or null; the rows with a hash fill a
  dictionary keyed by the id's text.
\<close>

definition read_hash :: "'z runtime_scheme \<Rightarrow> nlabel \<Rightarrow> graph \<Rightarrow> pyval \<Rightarrow>
    (pystr \<rightharpoonup> pyval) \<Rightarrow> (pystr \<rightharpoonup> pyval)" where
  "read_hash rt lb g i m =
     (case existing_hash lb i g of
        None \<Rightarrow> m
      | Some h \<Rightarrow> (if truthy h then m(py_str rt i \<mapsto> h) else m))"

definition existing_hashes :: "'z runtime_scheme \<Rightarrow> nlabel \<Rightarrow> graph \<Rightarrow> pydict list \<Rightarrow> (pystr \<rightharpoonup> pyval)" where
  "existing_hashes rt lb g records =
     fold (read_hash rt lb g) (map (\<lambda>d. dget d ''id'') records) Map.empty"

definition changed :: "'z runtime_scheme \<Rightarrow> (pystr \<rightharpoonup> pyval) \<Rightarrow> pydict \<Rightarrow> bool" where
  "changed rt hashes d \<longleftrightarrow>
     \<not> py_eq (case hashes (py_str rt (dget d ''id'')) of None \<Rightarrow> PNone | Some h \<Rightarrow> h) (dget d ''sha256'')"

definition to_process :: "'z runtime_scheme \<Rightarrow> nlabel \<Rightarrow> (pydict \<Rightarrow> bool) \<Rightarrow> pydict list \<Rightarrow> graph \<Rightarrow> pydict list" where
  "to_process rt lb usable messages g =
     (let records = filter usable messages in
      filter (changed rt (existing_hashes rt lb g records)) records)"

section \<open>Rows of a batch\<close>

text \<open>The (record id, referenced id) rows of one reference list, over the whole batch.\<close>

definition ref_rows :: "string \<Rightarrow> pydict list \<Rightarrow> py_error + (pyval \<times> pyval) list" where
  "ref_rows k records =
     mapR concat (mapE (\<lambda>d. mapR (map (\<lambda>m. (dget d ''id'', m))) (ref_ids (dget d k))) records)"

text \<open>The (record id, name) rows of a genre or style list.\<close>

definition name_rows :: "string \<Rightarrow> pydict list \<Rightarrow> py_error + (pyval \<times> pyval) list" where
  "name_rows k records =
     mapR concat (mapE (\<lambda>d. mapR (map (\<lambda>x. (dget d ''id'', x))) (truthy_items (dget d k))) records)"

text \<open>\<^verbatim>\<open>_distinct_values\<close> and \<^verbatim>\<open>_distinct_pairs\<close>: dictionary keys must be hashable.\<close>

definition hashable :: "pyval \<Rightarrow> bool" where
  "hashable v \<longleftrightarrow> \<not> is_list v \<and> \<not> is_dict v"

definition distinct_values :: "(pyval \<times> pyval) list \<Rightarrow> py_error + pyval list" where
  "distinct_values rows =
     (if list_all hashable (map snd rows) then Inr (dict_fromkeys (map snd rows)) else Inl TypeError)"

definition distinct_pairs :: "(pyval \<times> pyval) list \<Rightarrow> py_error + (pyval \<times> pyval) list" where
  "distinct_pairs rows =
     (if list_all (\<lambda>(a, b). hashable a \<and> hashable b) rows then Inr (dict_fromkeys rows)
      else Inl TypeError)"

text \<open>One record's (genre, style) rows: only when it has exactly one, non-empty, genre.\<close>

definition record_pairs :: "pydict \<Rightarrow> py_error + (pyval \<times> pyval) list" where
  "record_pairs d =
     (let genres = dget_default d ''genres'' (PList []);
          styles = dget_default d ''styles'' (PList []) in
      bindE (py_len genres) (\<lambda>n.
        if n = 1
        then bindE (py_first genres) (\<lambda>gen.
               if truthy gen
               then bindE (py_iter styles) (\<lambda>ss. Inr (map (\<lambda>s. (gen, s)) (filter truthy ss)))
               else Inr [])
        else Inr []))"

definition pair_rows :: "pydict list \<Rightarrow> py_error + (pyval \<times> pyval) list" where
  "pair_rows records = bindE (mapE record_pairs records) (\<lambda>ps. distinct_pairs (concat ps))"

text \<open>Merge each distinct name once, then link every row to the merged node.\<close>

definition link_names :: "nlabel \<Rightarrow> nlabel \<Rightarrow> (pyval \<times> pyval) list \<Rightarrow> graph \<Rightarrow> py_error + graph" where
  "link_names owner target rows g =
     bindE (distinct_values rows) (\<lambda>names.
     bindE (foldE merge_node (map (\<lambda>n. (target, n)) names) g) (\<lambda>g1.
       foldE (\<lambda>r. link_matched (owner, fst r) (target, snd r)
                    (plain (owner, fst r) IS (target, snd r))) rows g1))"

section \<open>Artists\<close>

definition cypher_append :: "'z runtime_scheme \<Rightarrow> pystr \<Rightarrow> pyval \<Rightarrow> pystr \<Rightarrow> py_error + pyval" where
  "cypher_append rt before v after =
     (case v of
        PStr t \<Rightarrow> Inr (PStr (before @ t @ after))
      | PInt i \<Rightarrow> Inr (PStr (before @ dec_of_int i @ after))
      | PFloat q \<Rightarrow> Inr (PStr (before @ py_str rt v @ after))
      | PNone \<Rightarrow> Inr PNone
      | _ \<Rightarrow> Inl CypherError)"

definition artist_upsert_row :: "'z runtime_scheme \<Rightarrow> pydict \<Rightarrow> graph \<Rightarrow> py_error + graph" where
  "artist_upsert_row rt d g =
     (let i = dget d ''id'' in
      bindE (merge_node (Artist, i) g) (\<lambda>g1.
      bindE (cypher_append rt artists_api i []) (\<lambda>res.
      bindE (cypher_append rt artists_api i (lit ''/releases'')) (\<lambda>rels.
        Inr (set_node (Artist, i)
          [(''name'', dget d ''name''), (''sha256'', dget d ''sha256''),
           (''resource_url'', res), (''releases_url'', rels)] g1)))))"

definition artists_write :: "'z runtime_scheme \<Rightarrow> pydict list \<Rightarrow> graph \<Rightarrow> py_error + graph" where
  "artists_write rt records g =
     bindE (foldE (artist_upsert_row rt) records g) (\<lambda>g1.
     bindE (ref_rows ''members'' records) (\<lambda>members.
     bindE (foldE (\<lambda>r. member_row (fst r) (snd r)) members g1) (\<lambda>g2.
     bindE (ref_rows ''groups'' records) (\<lambda>groups.
     bindE (foldE (\<lambda>r. group_row (fst r) (snd r)) groups g2) (\<lambda>g3.
     bindE (ref_rows ''aliases'' records) (\<lambda>aliases.
       foldE (\<lambda>r. alias_row (fst r) (snd r)) aliases g3))))))"

definition process_artists_batch ::
  "'z runtime_scheme \<Rightarrow> pydict list \<Rightarrow> graph \<Rightarrow> py_error + (nat set \<times> graph)" where
  "process_artists_batch rt messages g =
     (let rejected = nack_indices has_id messages;
          records = to_process rt Artist has_id messages g in
      if records = [] then Inr (rejected, g)
      else mapR (\<lambda>g'. (rejected, g')) (artists_write rt records g))"

section \<open>Labels\<close>

definition label_upsert_row :: "pydict \<Rightarrow> graph \<Rightarrow> py_error + graph" where
  "label_upsert_row d g =
     (let i = dget d ''id'' in
      bindE (merge_node (Label, i) g) (\<lambda>g1.
        Inr (set_node (Label, i) [(''name'', dget d ''name''), (''sha256'', dget d ''sha256'')] g1)))"

definition parent_rows :: "pydict list \<Rightarrow> py_error + (pyval \<times> pyval) list" where
  "parent_rows records =
     mapR concat (mapE (\<lambda>d. mapR (map (\<lambda>p. (dget d ''id'', p))) (parent_id d)) records)"

definition labels_write :: "pydict list \<Rightarrow> graph \<Rightarrow> py_error + graph" where
  "labels_write records g =
     bindE (foldE label_upsert_row records g) (\<lambda>g1.
     bindE (parent_rows records) (\<lambda>parents.
     bindE (foldE (\<lambda>r. parent_row (fst r) (snd r)) parents g1) (\<lambda>g2.
     bindE (ref_rows ''sublabels'' records) (\<lambda>sublabels.
       foldE (\<lambda>r. sublabel_row (fst r) (snd r)) sublabels g2))))"

definition process_labels_batch ::
  "'z runtime_scheme \<Rightarrow> pydict list \<Rightarrow> graph \<Rightarrow> py_error + (nat set \<times> graph)" where
  "process_labels_batch rt messages g =
     (let rejected = nack_indices has_id messages;
          records = to_process rt Label has_id messages g in
      if records = [] then Inr (rejected, g)
      else mapR (\<lambda>g'. (rejected, g')) (labels_write records g))"

section \<open>Masters\<close>

text \<open>\<^verbatim>\<open>_prune_stale_edges\<close> of the batch path: one statement, one row per record.\<close>

definition prune_batch :: "nlabel \<Rightarrow> reltype \<Rightarrow> nlabel \<Rightarrow> (pydict \<Rightarrow> py_error + pyval list) \<Rightarrow>
    pydict list \<Rightarrow> graph \<Rightarrow> py_error + graph" where
  "prune_batch lb t target desired records g =
     bindE (mapE (\<lambda>d. mapR (\<lambda>keep. (dget d ''id'', keep)) (desired d)) records) (\<lambda>rows.
       Inr (prune_rows (\<lambda>r. stale (lb, fst r) t target (snd r)) rows g))"

definition master_upsert_row :: "pydict \<Rightarrow> graph \<Rightarrow> py_error + graph" where
  "master_upsert_row d g =
     (let i = dget d ''id'' in
      bindE (merge_node (Master, i) g) (\<lambda>g1.
        Inr (set_node (Master, i)
          [(''title'', dget d ''title''), (''year'', dget d ''year''), (''sha256'', dget d ''sha256'')] g1)))"

definition masters_write :: "pydict list \<Rightarrow> graph \<Rightarrow> py_error + graph" where
  "masters_write records g =
     bindE (foldE master_upsert_row records g) (\<lambda>g1.
     bindE (prune_batch Master BY Artist (\<lambda>d. ref_ids (dget d ''artists'')) records g1) (\<lambda>g2.
     bindE (prune_batch Master IS Genre (\<lambda>d. truthy_items (dget d ''genres'')) records g2) (\<lambda>g3.
     bindE (prune_batch Master IS Style (\<lambda>d. truthy_items (dget d ''styles'')) records g3) (\<lambda>g4.
     bindE (ref_rows ''artists'' records) (\<lambda>artists.
     bindE (foldE (\<lambda>r. master_artist_row (fst r) (snd r)) artists g4) (\<lambda>g5.
     bindE (name_rows ''genres'' records) (\<lambda>genres.
     bindE (link_names Master Genre genres g5) (\<lambda>g6.
     bindE (name_rows ''styles'' records) (\<lambda>styles.
     bindE (link_names Master Style styles g6) (\<lambda>g7.
     bindE (pair_rows records) (\<lambda>pairs.
       foldE part_of_row pairs g7)))))))))))"

definition process_masters_batch ::
  "'z runtime_scheme \<Rightarrow> pydict list \<Rightarrow> graph \<Rightarrow> py_error + (nat set \<times> graph)" where
  "process_masters_batch rt messages g =
     (let rejected = nack_indices has_master_id messages;
          records = to_process rt Master has_master_id messages g in
      if records = [] then Inr (rejected, g)
      else mapR (\<lambda>g'. (rejected, g')) (masters_write records g))"

section \<open>Releases\<close>

record release_data =
  rd_msg :: pydict
  rd_id :: pyval
  rd_format_names :: "pyval list"
  rd_media_families :: "pyval list"
  rd_media_rows :: "media_row list"
  rd_company_rows :: "company_row list option"
  rd_country :: pyval
  rd_metadata :: "(string \<times> pyval) list"

text \<open>The catalogue number of the first label, when there is one.\<close>

definition release_metadata :: "pydict \<Rightarrow> (string \<times> pyval) list" where
  "release_metadata d =
     (let raw_labels = py_or (dget d ''labels'') (PList []);
          first_label = (case raw_labels of PList (x # _) \<Rightarrow> x | _ \<Rightarrow> PDict []);
          catno = (case first_label of PDict l \<Rightarrow> dget l ''catno'' | _ \<Rightarrow> PNone) in
      if truthy catno then [(''catalog_number'', catno)] else [])"

definition release_data_of :: "'z runtime_scheme \<Rightarrow> pydict \<Rightarrow> py_error + release_data" where
  "release_data_of rt d =
     bindE (format_names d) (\<lambda>formats.
     bindE (resolve_media_block rt d) (\<lambda>block.
     bindE (issued_on_rows rt (dget d ''id'') block) (\<lambda>media.
     bindE (company_writes rt (dget d ''id'') d) (\<lambda>companies.
       Inr \<lparr>rd_msg = d, rd_id = dget d ''id'', rd_format_names = formats,
            rd_media_families = media_families block, rd_media_rows = media,
            rd_company_rows = companies, rd_country = opt_text (release_country d),
            rd_metadata = release_metadata d\<rparr>))))"

definition release_upsert_row :: "release_data \<Rightarrow> graph \<Rightarrow> py_error + graph" where
  "release_upsert_row r g =
     bindE (merge_node (Release, rd_id r) g) (\<lambda>g1.
       Inr (set_node (Release, rd_id r)
         ([(''title'', dget (rd_msg r) ''title''), (''year'', dget (rd_msg r) ''year''),
           (''country'', rd_country r), (''formats'', PList (rd_format_names r)),
           (''media_families'', PList (rd_media_families r)),
           (''sha256'', dget (rd_msg r) ''sha256'')] @ rd_metadata r) g1))"

record release_keep =
  rk_key :: pyval
  rk_artists :: "pyval list"
  rk_labels :: "pyval list"
  rk_masters :: "pyval list"
  rk_genres :: "pyval list"
  rk_styles :: "pyval list"

definition release_prune_record :: "pydict \<Rightarrow> py_error + release_keep" where
  "release_prune_record d =
     bindE (py_item (PDict d) ''id'') (\<lambda>i.
     bindE (ref_ids (dget d ''artists'')) (\<lambda>artists.
     bindE (ref_ids (dget d ''labels'')) (\<lambda>labels.
     bindE (truthy_items (dget d ''genres'')) (\<lambda>genres.
     bindE (truthy_items (dget d ''styles'')) (\<lambda>styles.
       Inr \<lparr>rk_key = i, rk_artists = artists, rk_labels = labels, rk_masters = master_list d,
            rk_genres = genres, rk_styles = styles\<rparr>)))))"

text \<open>The \<^verbatim>\<open>WHERE\<close> of \<^verbatim>\<open>PRUNE_RELEASE_EDGES_CYPHER\<close> for one record.\<close>

definition stale_release_edge :: "release_keep \<Rightarrow> edge \<Rightarrow> bool" where
  "stale_release_edge k e \<longleftrightarrow>
     e_src e = (Release, rk_key k) \<and> e_rel e \<in> {BY, ON, DERIVED_FROM, IS} \<and>
     (e_rel e = BY \<and> fst (e_dst e) = Artist \<and> not_in (snd (e_dst e)) (rk_artists k) \<or>
      e_rel e = ON \<and> fst (e_dst e) = Label \<and> not_in (snd (e_dst e)) (rk_labels k) \<or>
      e_rel e = DERIVED_FROM \<and> fst (e_dst e) = Master \<and> not_in (snd (e_dst e)) (rk_masters k) \<or>
      e_rel e = IS \<and> fst (e_dst e) = Genre \<and> not_in (snd (e_dst e)) (rk_genres k) \<or>
      e_rel e = IS \<and> fst (e_dst e) = Style \<and> not_in (snd (e_dst e)) (rk_styles k))"

text \<open>The named reference rows of a batch: (release id, (entity id, name)).\<close>

definition named_rows :: "string \<Rightarrow> release_data list \<Rightarrow> py_error + (pyval \<times> pyval \<times> pyval) list" where
  "named_rows k releases =
     mapR concat (mapE (\<lambda>r. mapR (map (\<lambda>x. (rd_id r, x))) (named_refs (dget (rd_msg r) k))) releases)"

definition derived_rows :: "release_data list \<Rightarrow> (pyval \<times> pyval) list" where
  "derived_rows releases = concat (map (\<lambda>r. map (\<lambda>m. (rd_id r, m)) (master_list (rd_msg r))) releases)"

definition batch_media :: "release_data list \<Rightarrow> graph \<Rightarrow> py_error + graph" where
  "batch_media releases g =
     merge_media MEDIA_SOURCE (concat (map rd_media_rows releases))
       (prune_issued_on MEDIA_SOURCE (map (\<lambda>r. prune_record (rd_id r) (rd_media_rows r)) releases) g)"

text \<open>The releases that carry a canonical companies block, with their rows.\<close>

definition company_releases :: "release_data list \<Rightarrow> (pyval \<times> company_row list) list" where
  "company_releases releases =
     List.map_filter (\<lambda>r. map_option (\<lambda>rows. (rd_id r, rows)) (rd_company_rows r)) releases"

definition batch_companies :: "release_data list \<Rightarrow> graph \<Rightarrow> py_error + graph" where
  "batch_companies releases g =
     (let crs = company_releases releases in
      merge_companies COMPANY_SOURCE (concat (map snd crs))
        (prune_credited_to COMPANY_SOURCE (map (\<lambda>r. credit_prune_record (fst r) (snd r)) crs) g))"

definition batch_credits :: "'z runtime_scheme \<Rightarrow> release_data list \<Rightarrow> graph \<Rightarrow> py_error + graph" where
  "batch_credits rt releases g =
     bindE (mapE (\<lambda>r. mapR (\<lambda>rows. (rd_id r, rows))
                        (person_credit_rows rt (rd_id r) (dget (rd_msg r) ''extraartists''))) releases) (\<lambda>crs.
     let credits = concat (map snd crs) in
     bindE (merge_credits credits
              (prune_credited_on (map (\<lambda>r. credited_on_prune_record (fst r) (snd r)) crs) g)) (\<lambda>g1.
       merge_same_as (filter (\<lambda>c. truthy (cd_artist c)) credits) g1))"

definition releases_write :: "'z runtime_scheme \<Rightarrow> release_data list \<Rightarrow> graph \<Rightarrow> py_error + graph" where
  "releases_write rt releases g =
     bindE (foldE release_upsert_row releases g) (\<lambda>g1.
     bindE (mapE (\<lambda>r. release_prune_record (rd_msg r)) releases) (\<lambda>keeps.
     bindE (named_rows ''artists'' releases) (\<lambda>artists.
     bindE (foldE (\<lambda>r. release_artist_row (fst r) (snd r)) artists
              (prune_rows stale_release_edge keeps g1)) (\<lambda>g2.
     bindE (named_rows ''labels'' releases) (\<lambda>labels.
     bindE (foldE (\<lambda>r. release_label_row (fst r) (snd r)) labels g2) (\<lambda>g3.
     bindE (foldE (\<lambda>r. derived_from_row (fst r) (snd r)) (derived_rows releases) g3) (\<lambda>g4.
     bindE (name_rows ''genres'' (map rd_msg releases)) (\<lambda>genres.
     bindE (link_names Release Genre genres g4) (\<lambda>g5.
     bindE (name_rows ''styles'' (map rd_msg releases)) (\<lambda>styles.
     bindE (link_names Release Style styles g5) (\<lambda>g6.
     bindE (pair_rows (map rd_msg releases)) (\<lambda>pairs.
     bindE (foldE part_of_row pairs g6) (\<lambda>g7.
     bindE (batch_media releases g7) (\<lambda>g8.
     bindE (batch_companies releases g8) (\<lambda>g9.
       batch_credits rt releases g9)))))))))))))))"

definition process_releases_batch ::
  "'z runtime_scheme \<Rightarrow> pydict list \<Rightarrow> graph \<Rightarrow> py_error + (nat set \<times> graph)" where
  "process_releases_batch rt messages g =
     (let rejected = nack_indices has_id messages in
      bindE (mapE (release_data_of rt) (to_process rt Release has_id messages g)) (\<lambda>releases.
        if releases = [] then Inr (rejected, g)
        else mapR (\<lambda>g'. (rejected, g')) (releases_write rt releases g)))"

section \<open>The sink\<close>

datatype settlement = ACK | REJECT

definition batch_results :: "nat \<Rightarrow> nat set \<Rightarrow> settlement list" where
  "batch_results n rejected = map (\<lambda>i. if i \<in> rejected then REJECT else ACK) [0..<n]"

definition batch_write :: "'z runtime_scheme \<Rightarrow> string \<Rightarrow> pydict list \<Rightarrow> graph \<Rightarrow>
    py_error + (settlement list \<times> graph)" where
  "batch_write rt key messages g =
     bindE (if key = ''artists'' then process_artists_batch rt messages g
            else if key = ''labels'' then process_labels_batch rt messages g
            else if key = ''masters'' then process_masters_batch rt messages g
            else if key = ''releases'' then process_releases_batch rt messages g
            else Inl ValueError) (\<lambda>(rejected, g').
       Inr (batch_results (length messages) rejected, g'))"

end
