(* ===== verification/BatchEffect.thy ===== *)
theory BatchEffect
  imports BatchProjection
begin

text \<open>
  The release batch against the specification of \<open>ReleaseEffect\<close>: each release of a batch
  reads as one set of writes, and the edges after the transaction are the old ones that no
  release of the batch calls stale, together with what the releases assert.
\<close>

section \<open>The writes of one release of a batch\<close>

definition batch_view :: "'z runtime_scheme \<Rightarrow> release_data \<Rightarrow> py_error + release_writes" where
  "batch_view rt r =
     (let d = rd_msg r in
      bindE (release_prune_record d) (\<lambda>k.
      bindE (named_refs (dget d ''artists'')) (\<lambda>artists.
      bindE (named_refs (dget d ''labels'')) (\<lambda>labels.
      bindE (record_pairs d) (\<lambda>pairs.
      bindE (person_credit_rows rt (rd_id r) (dget d ''extraartists'')) (\<lambda>credits.
        Inr \<lparr>rw_id = rd_id r, rw_artists = artists, rw_labels = labels, rw_masters = rk_masters k,
             rw_genres = rk_genres k, rw_styles = rk_styles k, rw_keep_genres = rk_genres k,
             rw_keep_styles = rk_styles k, rw_media = rd_media_rows r,
             rw_companies = rd_company_rows r, rw_pairs = pairs, rw_credits = credits\<rparr>))))))"

section \<open>Row lists, read off the views\<close>

lemma mapE_ok: "(\<exists>ys. mapE f xs = Inr ys) \<longleftrightarrow> (\<forall>x \<in> set xs. \<exists>y. f x = Inr y)"
  by (induction xs) auto

lemma mapE_views:
  "list_all2 (\<lambda>r w. f r = Inr (h w)) rels ws \<Longrightarrow> mapE f rels = Inr (map h ws)"
  by (induction rels ws rule: list_all2_induct) auto

lemma mapE_concat_views:
  "list_all2 (\<lambda>r w. f r = Inr (h w)) rels ws \<Longrightarrow> mapR concat (mapE f rels) = Inr (concat (map h ws))"
  by (simp add: mapE_views)

lemma map_views: "list_all2 (\<lambda>r w. f r = h w) rels ws \<Longrightarrow> map f rels = map h ws"
  by (induction rels ws rule: list_all2_induct) auto

lemma py_item_dget: "py_item (PDict d) k = Inr x \<longleftrightarrow> dhas d k \<and> x = dget d k"
  by (auto simp: dhas_def dget_def split: option.splits)

text \<open>What a view fixes about its release.\<close>

lemma batch_view_Inr:
  assumes "batch_view rt r = Inr w" and "rd_id r = dget (rd_msg r) ''id''"
  shows "rw_id w = rd_id r"
    and "named_refs (dget (rd_msg r) ''artists'') = Inr (rw_artists w)"
    and "named_refs (dget (rd_msg r) ''labels'') = Inr (rw_labels w)"
    and "master_list (rd_msg r) = rw_masters w"
    and "truthy_items (dget (rd_msg r) ''genres'') = Inr (rw_genres w)"
    and "truthy_items (dget (rd_msg r) ''styles'') = Inr (rw_styles w)"
    and "rw_keep_genres w = rw_genres w" and "rw_keep_styles w = rw_styles w"
    and "rd_media_rows r = rw_media w" and "rd_company_rows r = rw_companies w"
    and "record_pairs (rd_msg r) = Inr (rw_pairs w)"
    and "person_credit_rows rt (rd_id r) (dget (rd_msg r) ''extraartists'') = Inr (rw_credits w)"
    and "release_prune_record (rd_msg r) =
      Inr \<lparr>rk_key = rw_id w, rk_artists = map fst (rw_artists w), rk_labels = map fst (rw_labels w),
           rk_masters = rw_masters w, rk_genres = rw_genres w, rk_styles = rw_styles w\<rparr>"
  using assms
  by (auto simp: batch_view_def Let_def release_prune_record_def py_item_dget
      simp del: py_item.simps py_item_Inr dest: named_refs_ids)

section \<open>Effects of the statements over a batch\<close>

lemma foldE_upsert_effect:
  assumes "foldE release_upsert_row rels g = Inr g'"
  shows "nodes g' = nodes g \<union> (\<lambda>r. (Release, rd_id r)) ` set rels" and "edges g' = edges g"
    and "\<And>n. n \<notin> (\<lambda>r. (Release, rd_id r)) ` set rels \<Longrightarrow> nprop g' n = nprop g n"
    and "\<And>r. r \<in> set rels \<Longrightarrow> rd_id r \<noteq> PNone"
proof -
  have "nodes g' = nodes g \<union> (\<lambda>r. (Release, rd_id r)) ` set rels \<and> edges g' = edges g \<and>
    (\<forall>n. n \<notin> (\<lambda>r. (Release, rd_id r)) ` set rels \<longrightarrow> nprop g' n = nprop g n) \<and>
    (\<forall>r \<in> set rels. rd_id r \<noteq> PNone)"
    using assms
  proof (induction rels arbitrary: g)
    case (Cons r rels)
    then obtain g1 where g1: "release_upsert_row r g = Inr g1" and rest: "foldE release_upsert_row rels g1 = Inr g'"
      by auto
    from g1 have "nodes g1 = insert (Release, rd_id r) (nodes g)" "edges g1 = edges g" "rd_id r \<noteq> PNone"
      "\<And>n. n \<noteq> (Release, rd_id r) \<Longrightarrow> nprop g1 n = nprop g n"
      by (auto simp: release_upsert_row_def nprop_set_node)
    with Cons.IH [OF rest] show ?case by auto
  qed simp
  then show "nodes g' = nodes g \<union> (\<lambda>r. (Release, rd_id r)) ` set rels" and "edges g' = edges g"
    and "\<And>n. n \<notin> (\<lambda>r. (Release, rd_id r)) ` set rels \<Longrightarrow> nprop g' n = nprop g n"
    and "\<And>r. r \<in> set rels \<Longrightarrow> rd_id r \<noteq> PNone" by blast+
qed

lemma link_names_effect:
  assumes "link_names owner target rows g = Inr g'"
    and "\<And>r. r \<in> set rows \<Longrightarrow> (owner, fst r) \<in> nodes g"
  shows "nodes g' = nodes g \<union> (\<lambda>r. (target, snd r)) ` set rows"
    and "edges g' = edges g \<union> (\<lambda>r. plain (owner, fst r) IS (target, snd r)) ` set rows"
    and "nprop g' = nprop g"
proof -
  from assms(1) obtain g1 where
    m: "foldE merge_node (map (\<lambda>n. (target, n)) (dict_fromkeys (map snd rows))) g = Inr g1"
    and l: "foldE (\<lambda>r. link_matched (owner, fst r) (target, snd r)
                    (plain (owner, fst r) IS (target, snd r))) rows g1 = Inr g'"
    by (auto simp: link_names_def distinct_values_def split: if_splits)
  from foldE_merge_node [OF m] have g1: "nodes g1 = nodes g \<union> (\<lambda>r. (target, snd r)) ` set rows"
    "edges g1 = edges g" "nprop g1 = nprop g"
    by (auto simp: image_image)
  note e = foldE_link_matched [OF l]
  have "{r \<in> set rows. (owner, fst r) \<in> nodes g1 \<and> (target, snd r) \<in> nodes g1} = set rows"
    using g1(1) assms(2) by auto
  with e g1 show "nodes g' = nodes g \<union> (\<lambda>r. (target, snd r)) ` set rows"
    and "edges g' = edges g \<union> (\<lambda>r. plain (owner, fst r) IS (target, snd r)) ` set rows"
    and "nprop g' = nprop g" by simp_all
qed

text \<open>The single prune statement deletes what the five separate ones of the other path do.\<close>

lemma stale_release_edge_eq:
  "stale_release_edge \<lparr>rk_key = i, rk_artists = as, rk_labels = ls, rk_masters = ms,
      rk_genres = gs, rk_styles = ss\<rparr> e \<longleftrightarrow>
     stale (Release, i) BY Artist as e \<or> stale (Release, i) ON Label ls e \<or>
     stale (Release, i) DERIVED_FROM Master ms e \<or> stale (Release, i) IS Genre gs e \<or>
     stale (Release, i) IS Style ss e"
  by (auto simp: stale_release_edge_def stale_def)

definition own_rows :: "release_writes \<Rightarrow> bool" where
  "own_rows w \<longleftrightarrow>
     (\<forall>r \<in> set (rw_media w). mr_release r = rw_id w) \<and>
     (\<forall>rs. rw_companies w = Some rs \<longrightarrow> (\<forall>r \<in> set rs. cr_release r = rw_id w)) \<and>
     (\<forall>r \<in> set (rw_credits w). cd_release r = rw_id w)"

lemma company_writes_release:
  "company_writes rt i d = Inr (Some rs) \<Longrightarrow> r \<in> set rs \<Longrightarrow> cr_release r = i"
  by (auto simp: company_writes_def company_row_ok_def split: option.splits dest!: credited_to_rows_release)

lemma batch_view_own_rows:
  assumes "release_data_of rt d = Inr r" and "batch_view rt r = Inr w"
  shows "own_rows w" and "rd_id r = dget (rd_msg r) ''id''" and "rd_msg r = d"
proof -
  from assms(1) obtain block media companies where r: "rd_id r = dget d ''id''" "rd_msg r = d"
    and media: "issued_on_rows rt (dget d ''id'') block = Inr (rd_media_rows r)"
    and companies: "company_writes rt (dget d ''id'') d = Inr (rd_company_rows r)"
    by (auto simp: release_data_of_def)
  show "rd_id r = dget (rd_msg r) ''id''" and "rd_msg r = d" using r by simp_all
  note v = batch_view_Inr [OF assms(2) \<open>rd_id r = dget (rd_msg r) ''id''\<close>]
  show "own_rows w"
    unfolding own_rows_def
    using v(1) v(9) v(10) v(12) r issued_on_rows_release [OF media] companies
    by (auto simp: media_row_ok_def dest: company_writes_release person_credit_rows_facts(3))
qed

lemma set_concat_map_pairs:
  "set (concat (map (\<lambda>w. map (\<lambda>x. (f w, x)) (g w)) ws)) = (\<Union>w \<in> set ws. (\<lambda>x. (f w, x)) ` set (g w))"
  by auto

lemma batch_media_effect:
  assumes "batch_media rels g = Inr g'" and "map (\<lambda>r. (rd_id r, rd_media_rows r)) rels = map (\<lambda>w. (rw_id w, rw_media w)) ws"
    and "\<forall>w \<in> set ws. own_rows w \<and> rnode w \<in> nodes g"
  shows "nodes g' = nodes g \<union> (\<Union>w \<in> set ws. medium_node ` set (rw_media w) \<union> family_node ` set (rw_media w))"
    and "edges g' = {e \<in> edges g. \<forall>w \<in> set ws. \<not> stale_issued_on MEDIA_SOURCE (prune_record (rw_id w) (rw_media w)) e} \<union>
      (\<Union>w \<in> set ws. issued_on_edge MEDIA_SOURCE ` set (rw_media w) \<union> in_family_edge ` set (rw_media w))"
    and "\<And>n. fst n \<noteq> Medium \<Longrightarrow> nprop g' n = nprop g n"
proof -
  have rows: "concat (map rd_media_rows rels) = concat (map rw_media ws)"
    using arg_cong [OF assms(2), of "map snd"] by (simp add: comp_def)
  have keys: "map (\<lambda>r. prune_record (rd_id r) (rd_media_rows r)) rels = map (\<lambda>w. prune_record (rw_id w) (rw_media w)) ws"
    using arg_cong [OF assms(2), of "map (\<lambda>(i, m). prune_record i m)"] by (simp add: comp_def)
  let ?p = "prune_issued_on MEDIA_SOURCE (map (\<lambda>w. prune_record (rw_id w) (rw_media w)) ws) g"
  have m: "merge_media MEDIA_SOURCE (concat (map rw_media ws)) ?p = Inr g'"
    using assms(1) by (simp add: batch_media_def rows keys)
  have known: "(Release, mr_release r) \<in> nodes ?p" if "r \<in> set (concat (map rw_media ws))" for r
    using assms(3) that by (auto simp: own_rows_def prune_issued_on_def)
  have e: "nodes g' = nodes ?p \<union> medium_node ` set (concat (map rw_media ws)) \<union> family_node ` set (concat (map rw_media ws))"
    "edges g' = edges ?p \<union> issued_on_edge MEDIA_SOURCE ` set (concat (map rw_media ws)) \<union>
      in_family_edge ` set (concat (map rw_media ws))"
    by (rule merge_media_effect [OF m], erule known)+
  show "nodes g' = nodes g \<union> (\<Union>w \<in> set ws. medium_node ` set (rw_media w) \<union> family_node ` set (rw_media w))"
    using e(1) by (auto simp: prune_issued_on_def)
  show "edges g' = {e \<in> edges g. \<forall>w \<in> set ws. \<not> stale_issued_on MEDIA_SOURCE (prune_record (rw_id w) (rw_media w)) e} \<union>
      (\<Union>w \<in> set ws. issued_on_edge MEDIA_SOURCE ` set (rw_media w) \<union> in_family_edge ` set (rw_media w))"
    using e(2) by (auto simp: prune_issued_on_def)
  show "nprop g' n = nprop g n" if "fst n \<noteq> Medium" for n
    using merge_media_effect(3) [OF m known that] by (simp add: prune_issued_on_def)
qed

definition company_pairs :: "release_writes list \<Rightarrow> (pyval \<times> company_row list) list" where
  "company_pairs ws = List.map_filter (\<lambda>w. map_option (\<lambda>rows. (rw_id w, rows)) (rw_companies w)) ws"

lemma set_company_pairs:
  "set (company_pairs ws) = {(rw_id w, rs) | w rs. w \<in> set ws \<and> rw_companies w = Some rs}"
  by (induction ws) (auto simp: company_pairs_def List.map_filter_simps split: option.splits)

lemma company_pairs_image:
  "f ` set (concat (map snd (company_pairs ws))) =
    (\<Union>w \<in> set ws. case rw_companies w of None \<Rightarrow> {} | Some rs \<Rightarrow> f ` set rs)"
proof -
  have "set (concat (map snd (company_pairs ws))) =
    (\<Union>w \<in> set ws. case rw_companies w of None \<Rightarrow> {} | Some rs \<Rightarrow> set rs)"
    by (induction ws) (auto simp: company_pairs_def List.map_filter_simps split: option.splits)
  then have "f ` set (concat (map snd (company_pairs ws))) =
    (\<Union>w \<in> set ws. f ` (case rw_companies w of None \<Rightarrow> {} | Some rs \<Rightarrow> set rs))"
    by (simp only: image_UN)
  also have "\<dots> = (\<Union>w \<in> set ws. case rw_companies w of None \<Rightarrow> {} | Some rs \<Rightarrow> f ` set rs)"
    by (intro SUP_cong refl) (simp split: option.splits)
  finally show ?thesis .
qed

lemma company_pairs_ball:
  "(\<forall>r \<in> set (company_pairs ws). P (fst r) (snd r)) \<longleftrightarrow>
    (\<forall>w \<in> set ws. case rw_companies w of None \<Rightarrow> True | Some rs \<Rightarrow> P (rw_id w) rs)"
  by (induction ws) (auto simp: company_pairs_def List.map_filter_simps split: option.splits)

lemma batch_companies_effect:
  assumes "batch_companies rels g = Inr g'"
    and "map (\<lambda>r. (rd_id r, rd_company_rows r)) rels = map (\<lambda>w. (rw_id w, rw_companies w)) ws"
    and "\<forall>w \<in> set ws. own_rows w \<and> rnode w \<in> nodes g"
  shows "nodes g' = nodes g \<union> (\<Union>w \<in> set ws. case rw_companies w of None \<Rightarrow> {} | Some rs \<Rightarrow> company_node ` set rs)"
    and "edges g' = {e \<in> edges g. \<forall>w \<in> set ws. \<not> (case rw_companies w of None \<Rightarrow> False
          | Some rs \<Rightarrow> stale_credited_to COMPANY_SOURCE (credit_prune_record (rw_id w) rs) e)} \<union>
      (\<Union>w \<in> set ws. case rw_companies w of None \<Rightarrow> {} | Some rs \<Rightarrow> credited_to_edge COMPANY_SOURCE ` set rs)"
    and "\<And>n. fst n \<noteq> Company \<Longrightarrow> nprop g' n = nprop g n"
proof -
  let ?f = "\<lambda>(i, c). map_option (\<lambda>rows. (i, rows)) c"
  have "List.map_filter ?f (map (\<lambda>r. (rd_id r, rd_company_rows r)) rels) = company_releases rels"
    by (induction rels) (auto simp: company_releases_def List.map_filter_simps split: option.splits)
  moreover have "List.map_filter ?f (map (\<lambda>w. (rw_id w, rw_companies w)) ws) = company_pairs ws"
    by (induction ws) (auto simp: company_pairs_def List.map_filter_simps split: option.splits)
  ultimately have crs: "company_releases rels = company_pairs ws" using assms(2) by simp
  let ?p = "prune_credited_to COMPANY_SOURCE (map (\<lambda>r. credit_prune_record (fst r) (snd r)) (company_pairs ws)) g"
  have m: "merge_companies COMPANY_SOURCE (concat (map snd (company_pairs ws))) ?p = Inr g'"
    using assms(1) by (simp add: batch_companies_def crs Let_def)
  have known: "(Release, cr_release r) \<in> nodes ?p" if "r \<in> set (concat (map snd (company_pairs ws)))" for r
  proof -
    from that obtain w rs where w: "w \<in> set ws" "rw_companies w = Some rs" "r \<in> set rs"
      by (auto simp: set_company_pairs)
    with assms(3) have "cr_release r = rw_id w" "rnode w \<in> nodes g" by (auto simp: own_rows_def)
    then show ?thesis by (simp add: prune_credited_to_def)
  qed
  have e: "nodes g' = nodes ?p \<union> company_node ` set (concat (map snd (company_pairs ws)))"
    "edges g' = edges ?p \<union> credited_to_edge COMPANY_SOURCE ` set (concat (map snd (company_pairs ws)))"
    by (rule merge_companies_effect [OF m], erule known)+
  show "nodes g' = nodes g \<union> (\<Union>w \<in> set ws. case rw_companies w of None \<Rightarrow> {} | Some rs \<Rightarrow> company_node ` set rs)"
    unfolding e(1) by (simp add: prune_credited_to_def company_pairs_image del: set_concat)
  have p: "edges ?p = {e \<in> edges g. \<forall>w \<in> set ws. \<not> (case rw_companies w of None \<Rightarrow> False
          | Some rs \<Rightarrow> stale_credited_to COMPANY_SOURCE (credit_prune_record (rw_id w) rs) e)}"
    using company_pairs_ball [of ws "\<lambda>i rs. \<not> stale_credited_to COMPANY_SOURCE (credit_prune_record i rs) e" for e]
    by (auto simp: prune_credited_to_def split: option.splits)
  show "edges g' = {e \<in> edges g. \<forall>w \<in> set ws. \<not> (case rw_companies w of None \<Rightarrow> False
          | Some rs \<Rightarrow> stale_credited_to COMPANY_SOURCE (credit_prune_record (rw_id w) rs) e)} \<union>
      (\<Union>w \<in> set ws. case rw_companies w of None \<Rightarrow> {} | Some rs \<Rightarrow> credited_to_edge COMPANY_SOURCE ` set rs)"
    unfolding e(2) p company_pairs_image by (rule refl)
  show "nprop g' n = nprop g n" if "fst n \<noteq> Company" for n
    using merge_companies_effect(3) [OF m known that] by (simp add: prune_credited_to_def)
qed

lemma batch_credits_effect:
  assumes "batch_credits rt rels g = Inr g'"
    and "mapE (\<lambda>r. mapR (\<lambda>rows. (rd_id r, rows))
          (person_credit_rows rt (rd_id r) (dget (rd_msg r) ''extraartists''))) rels =
        Inr (map (\<lambda>w. (rw_id w, rw_credits w)) ws)"
    and "\<forall>w \<in> set ws. own_rows w \<and> rnode w \<in> nodes g"
  shows "nodes g' = nodes g \<union> (\<Union>w \<in> set ws. person_node ` set (rw_credits w))"
    and "edges g' = {e \<in> edges g. \<forall>w \<in> set ws. \<not> stale_credited_on (credited_on_prune_record (rw_id w) (rw_credits w)) e} \<union>
      (\<Union>w \<in> set ws. credited_on_edge ` set (rw_credits w)) \<union> (\<Union>w \<in> set ws. same_as_edges (nodes g) w)"
    and "nprop g' = nprop g"
proof -
  let ?credits = "concat (map rw_credits ws)"
  let ?p = "prune_credited_on (map (\<lambda>w. credited_on_prune_record (rw_id w) (rw_credits w)) ws) g"
  from assms(1,2) obtain g1 where m: "merge_credits ?credits ?p = Inr g1"
    and s: "merge_same_as (filter (\<lambda>c. truthy (cd_artist c)) ?credits) g1 = Inr g'"
    by (auto simp: batch_credits_def Let_def comp_def)
  have known: "(Release, cd_release r) \<in> nodes ?p" if "r \<in> set ?credits" for r
    using assms(3) that by (auto simp: own_rows_def prune_credited_on_def)
  have e1: "nodes g1 = nodes ?p \<union> person_node ` set ?credits"
    "edges g1 = edges ?p \<union> credited_on_edge ` set ?credits" "nprop g1 = nprop ?p"
    by (rule merge_credits_effect [OF m], erule known)+
  note e2 = foldE_link_matched [OF s [unfolded merge_same_as_def]]
  show "nodes g' = nodes g \<union> (\<Union>w \<in> set ws. person_node ` set (rw_credits w))"
    using e1(1) e2(1) by (auto simp: prune_credited_on_def)
  show "nprop g' = nprop g" using e1(3) e2(3) by (simp add: prune_credited_on_def)
  have "same_as_edge ` {r \<in> set (filter (\<lambda>c. truthy (cd_artist c)) ?credits).
        person_node r \<in> nodes g1 \<and> (Artist, cd_artist r) \<in> nodes g1}
      = (\<Union>w \<in> set ws. same_as_edges (nodes g) w)"
    using e1(1) by (auto simp: prune_credited_on_def person_node_def same_as_edges_def)
  moreover have "edges g1 = {e \<in> edges g. \<forall>w \<in> set ws. \<not> stale_credited_on (credited_on_prune_record (rw_id w) (rw_credits w)) e} \<union>
      (\<Union>w \<in> set ws. credited_on_edge ` set (rw_credits w))"
    unfolding e1(2) by (auto simp: prune_credited_on_def)
  ultimately show "edges g' = {e \<in> edges g. \<forall>w \<in> set ws. \<not> stale_credited_on (credited_on_prune_record (rw_id w) (rw_credits w)) e} \<union>
      (\<Union>w \<in> set ws. credited_on_edge ` set (rw_credits w)) \<union> (\<Union>w \<in> set ws. same_as_edges (nodes g) w)"
    using e2(2) by simp
qed

end
