(* ===== verification/BatchRefinement.thy ===== *)
theory BatchRefinement
  imports BatchEffect
begin

text \<open>
  The batched write of releases refines the specification of one release, row by row: the
  edges after the transaction are those no release of the batch calls stale, together with
  everything the releases assert. From it follows that a batch of releases with different
  ids leaves the edges that writing them one after the other leaves.
\<close>

section \<open>The rows of a batch\<close>

definition paired :: "(release_writes \<Rightarrow> 'a list) \<Rightarrow> release_writes list \<Rightarrow> (pyval \<times> 'a) list" where
  "paired f ws = concat (map (\<lambda>w. map (\<lambda>x. (rw_id w, x)) (f w)) ws)"

lemma set_paired: "set (paired f ws) = (\<Union>w \<in> set ws. (\<lambda>x. (rw_id w, x)) ` set (f w))"
  by (simp add: paired_def)

lemma image_paired: "h ` set (paired f ws) = (\<Union>w \<in> set ws. (\<lambda>x. h (rw_id w, x)) ` set (f w))"
  by (simp add: set_paired image_UN image_image)

text \<open>The views of the releases, and what every release of a batch satisfies.\<close>

definition viewed :: "'z runtime_scheme \<Rightarrow> release_data list \<Rightarrow> release_writes list \<Rightarrow> bool" where
  "viewed rt rels ws \<longleftrightarrow>
     list_all2 (\<lambda>r w. batch_view rt r = Inr w \<and> (\<exists>d. release_data_of rt d = Inr r)) rels ws"

lemma viewed_map:
  assumes "viewed rt rels ws"
    and "\<And>r w. batch_view rt r = Inr w \<Longrightarrow> rd_id r = dget (rd_msg r) ''id'' \<Longrightarrow> f r = Inr (h w)"
  shows "mapE f rels = Inr (map h ws)"
  by (rule mapE_views) (use assms in \<open>auto simp: viewed_def elim!: list_all2_mono dest: batch_view_own_rows(2)\<close>)

lemma viewed_concat:
  assumes "viewed rt rels ws"
    and "\<And>r w. batch_view rt r = Inr w \<Longrightarrow> rd_id r = dget (rd_msg r) ''id'' \<Longrightarrow> f r = Inr (h w)"
  shows "mapR concat (mapE f rels) = Inr (concat (map h ws))"
  by (simp add: viewed_map [OF assms])

lemma viewed_plain:
  assumes "viewed rt rels ws"
    and "\<And>r w. batch_view rt r = Inr w \<Longrightarrow> rd_id r = dget (rd_msg r) ''id'' \<Longrightarrow> f r = h w"
  shows "map f rels = map h ws"
  using viewed_map [OF assms(1), of "\<lambda>r. Inr (f r)" h] assms(2) by simp

lemma viewed_own_rows: "viewed rt rels ws \<Longrightarrow> w \<in> set ws \<Longrightarrow> own_rows w"
  unfolding viewed_def
  by (induction rels ws rule: list_all2_induct) (auto dest: batch_view_own_rows(1))

lemma viewed_rows:
  assumes "viewed rt rels ws"
  shows "map rd_id rels = map rw_id ws"
    and "named_rows ''artists'' rels = Inr (paired rw_artists ws)"
    and "named_rows ''labels'' rels = Inr (paired rw_labels ws)"
    and "derived_rows rels = paired rw_masters ws"
    and "name_rows ''genres'' (map rd_msg rels) = Inr (paired rw_genres ws)"
    and "name_rows ''styles'' (map rd_msg rels) = Inr (paired rw_styles ws)"
    and "mapE (\<lambda>r. release_prune_record (rd_msg r)) rels =
      Inr (map (\<lambda>w. \<lparr>rk_key = rw_id w, rk_artists = map fst (rw_artists w), rk_labels = map fst (rw_labels w),
           rk_masters = rw_masters w, rk_genres = rw_genres w, rk_styles = rw_styles w\<rparr>) ws)"
    and "mapE (\<lambda>r. record_pairs (rd_msg r)) rels = Inr (map rw_pairs ws)"
    and "mapE (\<lambda>r. mapR (\<lambda>rows. (rd_id r, rows))
          (person_credit_rows rt (rd_id r) (dget (rd_msg r) ''extraartists''))) rels =
        Inr (map (\<lambda>w. (rw_id w, rw_credits w)) ws)"
    and "map (\<lambda>r. (rd_id r, rd_media_rows r)) rels = map (\<lambda>w. (rw_id w, rw_media w)) ws"
    and "map (\<lambda>r. (rd_id r, rd_company_rows r)) rels = map (\<lambda>w. (rw_id w, rw_companies w)) ws"
proof -
  note v = batch_view_Inr
  show "map rd_id rels = map rw_id ws" by (rule viewed_plain [OF assms]) (simp add: v(1))
  show "named_rows ''artists'' rels = Inr (paired rw_artists ws)"
    unfolding named_rows_def paired_def by (rule viewed_concat [OF assms]) (simp add: v(1,2))
  show "named_rows ''labels'' rels = Inr (paired rw_labels ws)"
    unfolding named_rows_def paired_def by (rule viewed_concat [OF assms]) (simp add: v(1,3))
  have "map (\<lambda>r. map (\<lambda>m. (rd_id r, m)) (master_list (rd_msg r))) rels =
      map (\<lambda>w. map (\<lambda>x. (rw_id w, x)) (rw_masters w)) ws"
    by (rule viewed_plain [OF assms]) (simp add: v(1,4))
  then show "derived_rows rels = paired rw_masters ws" by (simp add: derived_rows_def paired_def)
  have map_msg: "mapE f (map rd_msg rels) = mapE (\<lambda>r. f (rd_msg r)) rels" for f :: "pydict \<Rightarrow> py_error + 'c"
    by (induction rels) simp_all
  show "name_rows ''genres'' (map rd_msg rels) = Inr (paired rw_genres ws)"
    unfolding name_rows_def paired_def map_msg
    by (rule viewed_concat [OF assms]) (simp add: v(1) v(5))
  show "name_rows ''styles'' (map rd_msg rels) = Inr (paired rw_styles ws)"
    unfolding name_rows_def paired_def map_msg
    by (rule viewed_concat [OF assms]) (simp add: v(1) v(6))
  show "mapE (\<lambda>r. release_prune_record (rd_msg r)) rels =
      Inr (map (\<lambda>w. \<lparr>rk_key = rw_id w, rk_artists = map fst (rw_artists w), rk_labels = map fst (rw_labels w),
           rk_masters = rw_masters w, rk_genres = rw_genres w, rk_styles = rw_styles w\<rparr>) ws)"
    by (rule viewed_map [OF assms]) (rule v(13))
  show "mapE (\<lambda>r. record_pairs (rd_msg r)) rels = Inr (map rw_pairs ws)"
    by (rule viewed_map [OF assms]) (rule v(11))
  show "mapE (\<lambda>r. mapR (\<lambda>rows. (rd_id r, rows))
          (person_credit_rows rt (rd_id r) (dget (rd_msg r) ''extraartists''))) rels =
        Inr (map (\<lambda>w. (rw_id w, rw_credits w)) ws)"
    by (rule viewed_map [OF assms], frule v(1), assumption, drule v(12), assumption, simp)
  show "map (\<lambda>r. (rd_id r, rd_media_rows r)) rels = map (\<lambda>w. (rw_id w, rw_media w)) ws"
    by (rule viewed_plain [OF assms]) (simp add: v(1,9))
  show "map (\<lambda>r. (rd_id r, rd_company_rows r)) rels = map (\<lambda>w. (rw_id w, rw_companies w)) ws"
    by (rule viewed_plain [OF assms]) (simp add: v(1,10))
qed

text \<open>A write that succeeds has read every release of the batch.\<close>

lemma batch_view_exists:
  assumes "release_prune_record (rd_msg r) = Inr k" and "named_refs (dget (rd_msg r) ''artists'') = Inr a"
    and "named_refs (dget (rd_msg r) ''labels'') = Inr l" and "record_pairs (rd_msg r) = Inr p"
    and "person_credit_rows rt (rd_id r) (dget (rd_msg r) ''extraartists'') = Inr c"
  shows "\<exists>w. batch_view rt r = Inr w"
  using assms by (simp add: batch_view_def Let_def)

lemma releases_write_viewed:
  assumes "releases_write rt rels g = Inr g'" and "mapE (release_data_of rt) records = Inr rels"
  obtains ws where "viewed rt rels ws"
proof -
  have map_msg: "mapE f (map rd_msg rels) = mapE (\<lambda>r. f (rd_msg r)) rels" for f :: "pydict \<Rightarrow> py_error + 'c"
    by (induction rels) simp_all
  from assms(1) have
    "(\<exists>ks. mapE (\<lambda>r. release_prune_record (rd_msg r)) rels = Inr ks)"
    "(\<exists>as. mapE (\<lambda>r. mapR (map (\<lambda>x. (rd_id r, x))) (named_refs (dget (rd_msg r) ''artists''))) rels = Inr as)"
    "(\<exists>ls. mapE (\<lambda>r. mapR (map (\<lambda>x. (rd_id r, x))) (named_refs (dget (rd_msg r) ''labels''))) rels = Inr ls)"
    "(\<exists>ps. mapE (\<lambda>r. record_pairs (rd_msg r)) rels = Inr ps)"
    "(\<exists>cs. mapE (\<lambda>r. mapR (\<lambda>rows. (rd_id r, rows))
          (person_credit_rows rt (rd_id r) (dget (rd_msg r) ''extraartists''))) rels = Inr cs)"
    by (auto simp: releases_write_def named_rows_def pair_rows_def batch_credits_def map_msg)
  then have "\<forall>r \<in> set rels. \<exists>w. batch_view rt r = Inr w"
    unfolding mapE_ok by (simp, metis batch_view_exists)
  then obtain ws where ws: "mapE (batch_view rt) rels = Inr ws" using mapE_ok by blast
  have "\<forall>r \<in> set rels. \<exists>d. release_data_of rt d = Inr r"
    using assms(2) by (auto dest: mapE_set)
  with ws have "viewed rt rels ws"
    unfolding viewed_def mapE_list_all2
    by (auto simp: list_all2_conv_all_nth)
  then show thesis by (rule that)
qed


section \<open>The effect of the write\<close>

text \<open>The statements that link the releases to the entities they name.\<close>

lemma batch_links_effect:
  assumes a: "foldE (\<lambda>r. release_artist_row (fst r) (snd r)) (paired rw_artists ws) g1 = Inr g2"
    and l: "foldE (\<lambda>r. release_label_row (fst r) (snd r)) (paired rw_labels ws) g2 = Inr g3"
    and m: "foldE (\<lambda>r. derived_from_row (fst r) (snd r)) (paired rw_masters ws) g3 = Inr g4"
    and gn: "link_names Release Genre (paired rw_genres ws) g4 = Inr g5"
    and st: "link_names Release Style (paired rw_styles ws) g5 = Inr g6"
    and known: "\<forall>w \<in> set ws. rnode w \<in> nodes g1"
  shows "nodes g6 = nodes g1 \<union> (\<Union>w \<in> set ws. (\<lambda>a. (Artist, fst a)) ` set (rw_artists w)) \<union>
      (\<Union>w \<in> set ws. (\<lambda>l. (Label, fst l)) ` set (rw_labels w)) \<union>
      (\<Union>w \<in> set ws. (\<lambda>m. (Master, m)) ` set (rw_masters w)) \<union>
      (\<Union>w \<in> set ws. (\<lambda>x. (Genre, x)) ` set (rw_genres w)) \<union>
      (\<Union>w \<in> set ws. (\<lambda>x. (Style, x)) ` set (rw_styles w))"
    and "edges g6 = edges g1 \<union> (\<Union>w \<in> set ws. (\<lambda>a. plain (rnode w) BY (Artist, fst a)) ` set (rw_artists w)) \<union>
      (\<Union>w \<in> set ws. (\<lambda>l. plain (rnode w) ON (Label, fst l)) ` set (rw_labels w)) \<union>
      (\<Union>w \<in> set ws. (\<lambda>m. plain (rnode w) DERIVED_FROM (Master, m)) ` set (rw_masters w)) \<union>
      (\<Union>w \<in> set ws. (\<lambda>x. plain (rnode w) IS (Genre, x)) ` set (rw_genres w)) \<union>
      (\<Union>w \<in> set ws. (\<lambda>x. plain (rnode w) IS (Style, x)) ` set (rw_styles w))"
    and "\<And>i. nprop g6 (Release, i) = nprop g1 (Release, i)"
proof -
  have in_paired: "(Release, fst r) \<in> nodes g" if "r \<in> set (paired f ws)" "\<forall>w \<in> set ws. rnode w \<in> nodes g"
    for f :: "release_writes \<Rightarrow> 'c list" and g r
    using that by (auto simp: set_paired)
  have ea: "nodes g2 = nodes g1 \<union> (\<lambda>r. (Artist, fst (snd r))) ` set (paired rw_artists ws)"
    "edges g2 = edges g1 \<union> (\<lambda>r. plain (Release, fst r) BY (Artist, fst (snd r))) ` set (paired rw_artists ws)"
    by (rule foldE_link_filling [OF a [unfolded release_artist_row_def]], erule in_paired [OF _ known])+
  have pa: "nprop g2 (Release, i) = nprop g1 (Release, i)" for i
    by (rule foldE_link_filling(4) [OF a [unfolded release_artist_row_def]]) (auto intro: in_paired [OF _ known])
  have k2: "\<forall>w \<in> set ws. rnode w \<in> nodes g2" using known ea(1) by auto
  have el: "nodes g3 = nodes g2 \<union> (\<lambda>r. (Label, fst (snd r))) ` set (paired rw_labels ws)"
    "edges g3 = edges g2 \<union> (\<lambda>r. plain (Release, fst r) ON (Label, fst (snd r))) ` set (paired rw_labels ws)"
    by (rule foldE_link_filling [OF l [unfolded release_label_row_def]], erule in_paired [OF _ k2])+
  have pl: "nprop g3 (Release, i) = nprop g2 (Release, i)" for i
    by (rule foldE_link_filling(4) [OF l [unfolded release_label_row_def]]) (auto intro: in_paired [OF _ k2])
  have k3: "\<forall>w \<in> set ws. rnode w \<in> nodes g3" using k2 el(1) by auto
  have em: "nodes g4 = nodes g3 \<union> (\<lambda>r. (Master, snd r)) ` set (paired rw_masters ws)"
    "edges g4 = edges g3 \<union> (\<lambda>r. plain (Release, fst r) DERIVED_FROM (Master, snd r)) ` set (paired rw_masters ws)"
    "nprop g4 = nprop g3"
    by (rule foldE_link [OF m [unfolded derived_from_row_def]], erule in_paired [OF _ k3])+
  have k4: "\<forall>w \<in> set ws. rnode w \<in> nodes g4" using k3 em(1) by auto
  have eg: "nodes g5 = nodes g4 \<union> (\<lambda>r. (Genre, snd r)) ` set (paired rw_genres ws)"
    "edges g5 = edges g4 \<union> (\<lambda>r. plain (Release, fst r) IS (Genre, snd r)) ` set (paired rw_genres ws)"
    "nprop g5 = nprop g4"
    by (rule link_names_effect [OF gn], erule in_paired [OF _ k4])+
  have k5: "\<forall>w \<in> set ws. rnode w \<in> nodes g5" using k4 eg(1) by auto
  have es: "nodes g6 = nodes g5 \<union> (\<lambda>r. (Style, snd r)) ` set (paired rw_styles ws)"
    "edges g6 = edges g5 \<union> (\<lambda>r. plain (Release, fst r) IS (Style, snd r)) ` set (paired rw_styles ws)"
    "nprop g6 = nprop g5"
    by (rule link_names_effect [OF st], erule in_paired [OF _ k5])+
  show "nodes g6 = nodes g1 \<union> (\<Union>w \<in> set ws. (\<lambda>a. (Artist, fst a)) ` set (rw_artists w)) \<union>
      (\<Union>w \<in> set ws. (\<lambda>l. (Label, fst l)) ` set (rw_labels w)) \<union>
      (\<Union>w \<in> set ws. (\<lambda>m. (Master, m)) ` set (rw_masters w)) \<union>
      (\<Union>w \<in> set ws. (\<lambda>x. (Genre, x)) ` set (rw_genres w)) \<union>
      (\<Union>w \<in> set ws. (\<lambda>x. (Style, x)) ` set (rw_styles w))"
    unfolding es(1) eg(1) em(1) el(1) ea(1) image_paired by simp
  show "edges g6 = edges g1 \<union> (\<Union>w \<in> set ws. (\<lambda>a. plain (rnode w) BY (Artist, fst a)) ` set (rw_artists w)) \<union>
      (\<Union>w \<in> set ws. (\<lambda>l. plain (rnode w) ON (Label, fst l)) ` set (rw_labels w)) \<union>
      (\<Union>w \<in> set ws. (\<lambda>m. plain (rnode w) DERIVED_FROM (Master, m)) ` set (rw_masters w)) \<union>
      (\<Union>w \<in> set ws. (\<lambda>x. plain (rnode w) IS (Genre, x)) ` set (rw_genres w)) \<union>
      (\<Union>w \<in> set ws. (\<lambda>x. plain (rnode w) IS (Style, x)) ` set (rw_styles w))"
    unfolding es(2) eg(2) em(2) el(2) ea(2) image_paired by simp
  show "nprop g6 (Release, i) = nprop g1 (Release, i)" for i
    using es(3) eg(3) em(3) pl pa by simp
qed


text \<open>
  Pruning and merging in turns is pruning first and merging afterwards, when what is merged
  is never stale for a later prune.
\<close>

lemma prune_first:
  assumes "\<And>x. x \<in> L \<union> D1 \<Longrightarrow> \<not> P2 x \<and> \<not> P3 x \<and> \<not> P4 x"
    and "\<And>x. x \<in> M \<union> D2 \<Longrightarrow> \<not> P3 x \<and> \<not> P4 x" and "\<And>x. x \<in> C \<Longrightarrow> \<not> P4 x"
  shows "{x \<in> {x \<in> {x \<in> {x \<in> E. \<not> P1 x} \<union> L \<union> D1. \<not> P2 x} \<union> (M \<union> D2). \<not> P3 x} \<union> C. \<not> P4 x} \<union> R \<union> S
    = {x \<in> E. \<not> P1 x \<and> \<not> P2 x \<and> \<not> P3 x \<and> \<not> P4 x} \<union> (L \<union> M \<union> C \<union> R) \<union> (D1 \<union> D2) \<union> S"
  using assms by blast

lemma UN_node_parts: "(\<Union>w \<in> S. insert (h w) (f w)) = h ` S \<union> (\<Union>w \<in> S. f w)"
  by auto

lemma releases_write_effect:
  assumes wr: "releases_write rt rels g = Inr g'" and "mapE (release_data_of rt) records = Inr rels"
  obtains ws where "viewed rt rels ws"
    and "nodes g' = nodes g \<union> (\<Union>w \<in> set ws. written_nodes w)"
    and "edges g' = {e \<in> edges g. \<forall>w \<in> set ws. \<not> stale_release w e} \<union> (\<Union>w \<in> set ws. asserted_edges w) \<union>
      (\<Union>w \<in> set ws. derived_edges w) \<union> (\<Union>w \<in> set ws. same_as_edges (nodes g') w)"
    and "\<forall>i. i \<notin> rw_id ` set ws \<longrightarrow> nprop g' (Release, i) = nprop g (Release, i)"
    and "\<forall>w \<in> set ws. rw_id w \<noteq> PNone"
    and "\<forall>w \<in> set ws. rw_keep_genres w = rw_genres w \<and> rw_keep_styles w = rw_styles w"
proof -
  from assms obtain ws where v: "viewed rt rels ws" by (rule releases_write_viewed)
  note rows = viewed_rows [OF v]
  let ?keeps = "map (\<lambda>w. \<lparr>rk_key = rw_id w, rk_artists = map fst (rw_artists w), rk_labels = map fst (rw_labels w),
           rk_masters = rw_masters w, rk_genres = rw_genres w, rk_styles = rw_styles w\<rparr>) ws"
  from wr rows obtain g1 g2 g3 g4 g5 g6 pairs g7 g8 g9 where
    s1: "foldE release_upsert_row rels g = Inr g1"
    and s2: "foldE (\<lambda>r. release_artist_row (fst r) (snd r)) (paired rw_artists ws)
              (prune_rows stale_release_edge ?keeps g1) = Inr g2"
    and s3: "foldE (\<lambda>r. release_label_row (fst r) (snd r)) (paired rw_labels ws) g2 = Inr g3"
    and s4: "foldE (\<lambda>r. derived_from_row (fst r) (snd r)) (paired rw_masters ws) g3 = Inr g4"
    and s5: "link_names Release Genre (paired rw_genres ws) g4 = Inr g5"
    and s6: "link_names Release Style (paired rw_styles ws) g5 = Inr g6"
    and pairs: "pair_rows (map rd_msg rels) = Inr pairs" and s7: "foldE part_of_row pairs g6 = Inr g7"
    and s8: "batch_media rels g7 = Inr g8" and s9: "batch_companies rels g8 = Inr g9"
    and s10: "batch_credits rt rels g9 = Inr g'"
    by (auto simp: releases_write_def)
  note e1 = foldE_upsert_effect [OF s1]
  have ids: "(\<lambda>r. (Release, rd_id r)) ` set rels = rnode ` set ws"
  proof -
    have "(\<lambda>i. (Release, i)) ` set (map rd_id rels) = (\<lambda>i. (Release, i)) ` set (map rw_id ws)"
      by (simp only: rows(1))
    then show ?thesis by (simp add: image_image)
  qed
  let ?gp = "prune_rows stale_release_edge ?keeps g1"
  have kp: "\<forall>w \<in> set ws. rnode w \<in> nodes ?gp" using e1(1) ids by auto
  note e6 = batch_links_effect [OF s2 s3 s4 s5 s6 kp]
  have set_pairs: "set pairs = (\<Union>w \<in> set ws. set (rw_pairs w))"
  proof -
    have "mapE record_pairs (map rd_msg rels) = mapE (\<lambda>r. record_pairs (rd_msg r)) rels"
      by (induction rels) simp_all
    with pairs rows(8) show ?thesis
      by (auto simp: pair_rows_def distinct_pairs_def split: if_splits)
  qed
  note e7 = foldE_part_of [OF s7]
  have own: "\<And>w. w \<in> set ws \<Longrightarrow> own_rows w" using viewed_own_rows [OF v] .
  have k7: "\<forall>w \<in> set ws. own_rows w \<and> rnode w \<in> nodes g7" using own kp e6(1) e7(1) by auto
  note e8 = batch_media_effect [OF s8 rows(10) k7]
  have k8: "\<forall>w \<in> set ws. own_rows w \<and> rnode w \<in> nodes g8" using k7 e8(1) by auto
  note e9 = batch_companies_effect [OF s9 rows(11) k8]
  have k9: "\<forall>w \<in> set ws. own_rows w \<and> rnode w \<in> nodes g9" using k8 e9(1) by auto
  note e10 = batch_credits_effect [OF s10 rows(9) k9]
  have nodes: "nodes g' = nodes g \<union> (\<Union>w \<in> set ws. written_nodes w)"
    unfolding e10(1) e9(1) e8(1) e7(1) e6(1) prune_rows_parts(1) e1(1) ids set_pairs written_nodes_def
    by (simp only: UN_node_parts UN_Un_distrib set_pairs image_UN Un_ac)
  have keep: "rw_keep_genres w = rw_genres w \<and> rw_keep_styles w = rw_styles w" if "w \<in> set ws" for w
    using v that unfolding viewed_def
    by (induction rels ws rule: list_all2_induct)
      (auto dest: batch_view_own_rows(2) batch_view_Inr(7,8))
  have not_credited: "e \<notin> (case rw_companies w of None \<Rightarrow> {} | Some rs \<Rightarrow> credited_to_edge COMPANY_SOURCE ` set rs)"
    if "e_rel e \<noteq> CREDITED_TO" for e w
    using that by (auto split: option.splits)
  have not_stale_company: "\<not> (case rw_companies w of None \<Rightarrow> False
      | Some rs \<Rightarrow> stale_credited_to COMPANY_SOURCE (credit_prune_record (rw_id w) rs) e)"
    if "e_rel e \<noteq> CREDITED_TO" for e w
    using that by (auto dest: stale_rels split: option.splits)
  have same: "same_as_edges (nodes g9) w = same_as_edges (nodes g') w" for w
    unfolding e10(1) by (auto simp: same_as_edges_def person_node_def)
  let ?L = "(\<Union>w \<in> set ws. (\<lambda>a. plain (rnode w) BY (Artist, fst a)) ` set (rw_artists w)) \<union>
      (\<Union>w \<in> set ws. (\<lambda>l. plain (rnode w) ON (Label, fst l)) ` set (rw_labels w)) \<union>
      (\<Union>w \<in> set ws. (\<lambda>m. plain (rnode w) DERIVED_FROM (Master, m)) ` set (rw_masters w)) \<union>
      (\<Union>w \<in> set ws. (\<lambda>x. plain (rnode w) IS (Genre, x)) ` set (rw_genres w)) \<union>
      (\<Union>w \<in> set ws. (\<lambda>x. plain (rnode w) IS (Style, x)) ` set (rw_styles w))"
  let ?D1 = "(\<Union>w \<in> set ws. (\<lambda>p. plain (Style, snd p) PART_OF (Genre, fst p)) ` set (rw_pairs w))"
  let ?M = "\<Union>w \<in> set ws. issued_on_edge MEDIA_SOURCE ` set (rw_media w)"
  let ?D2 = "\<Union>w \<in> set ws. in_family_edge ` set (rw_media w)"
  let ?C = "\<Union>w \<in> set ws. case rw_companies w of None \<Rightarrow> {} | Some rs \<Rightarrow> credited_to_edge COMPANY_SOURCE ` set rs"
  let ?R = "\<Union>w \<in> set ws. credited_on_edge ` set (rw_credits w)"
  let ?P1 = "\<lambda>e. \<exists>k \<in> set ?keeps. stale_release_edge k e"
  let ?P2 = "\<lambda>e. \<exists>w \<in> set ws. stale_issued_on MEDIA_SOURCE (prune_record (rw_id w) (rw_media w)) e"
  let ?P3 = "\<lambda>e. \<exists>w \<in> set ws. case rw_companies w of None \<Rightarrow> False
      | Some rs \<Rightarrow> stale_credited_to COMPANY_SOURCE (credit_prune_record (rw_id w) rs) e"
  let ?P4 = "\<lambda>e. \<exists>w \<in> set ws. stale_credited_on (credited_on_prune_record (rw_id w) (rw_credits w)) e"
  have "edges g' = {x \<in> {x \<in> {x \<in> {x \<in> edges g. \<not> ?P1 x} \<union> ?L \<union> ?D1. \<not> ?P2 x} \<union> (?M \<union> ?D2). \<not> ?P3 x}
      \<union> ?C. \<not> ?P4 x} \<union> ?R \<union> (\<Union>w \<in> set ws. same_as_edges (nodes g') w)"
    unfolding e10(2) e9(2) e8(2) e7(2) e6(2) prune_rows_parts(3) e1(2) set_pairs same image_UN UN_Un_distrib
    by (simp only: Un_assoc bex_simps(8) ball_simps(10))
  also have "\<dots> = {x \<in> edges g. \<not> ?P1 x \<and> \<not> ?P2 x \<and> \<not> ?P3 x \<and> \<not> ?P4 x} \<union> (?L \<union> ?M \<union> ?C \<union> ?R) \<union>
      (?D1 \<union> ?D2) \<union> (\<Union>w \<in> set ws. same_as_edges (nodes g') w)"
  proof (rule prune_first)
    show "\<not> ?P2 e \<and> \<not> ?P3 e \<and> \<not> ?P4 e" if "e \<in> ?L \<union> ?D1" for e
    proof -
      from that have "e_rel e \<in> {BY, ON, DERIVED_FROM, IS, PART_OF}" by auto
      then have "e_rel e \<noteq> CREDITED_TO" by auto
      then have "\<not> ?P3 e" using not_stale_company by blast
      with \<open>e_rel e \<in> _\<close> show ?thesis by (auto dest: stale_rels)
    qed
    show "\<not> ?P3 e \<and> \<not> ?P4 e" if "e \<in> ?M \<union> ?D2" for e
    proof -
      from that have "e_rel e \<in> {ISSUED_ON, IN_FAMILY}" by auto
      then have "e_rel e \<noteq> CREDITED_TO" by auto
      then have "\<not> ?P3 e" using not_stale_company by blast
      with \<open>e_rel e \<in> _\<close> show ?thesis by (auto dest: stale_rels)
    qed
    show "\<not> ?P4 e" if "e \<in> ?C" for e
    proof -
      from that not_credited have "e_rel e = CREDITED_TO" by blast
      then show ?thesis by (auto dest: stale_rels)
    qed
  qed
  also have "{x \<in> edges g. \<not> ?P1 x \<and> \<not> ?P2 x \<and> \<not> ?P3 x \<and> \<not> ?P4 x} =
      {e \<in> edges g. \<forall>w \<in> set ws. \<not> stale_release w e}"
    using keep by (auto simp: stale_release_edge_eq stale_release_def)
  also have "?L \<union> ?M \<union> ?C \<union> ?R = (\<Union>w \<in> set ws. asserted_edges w)"
    unfolding asserted_edges_def UN_Un_distrib by (simp only: Un_assoc)
  also have "?D1 \<union> ?D2 = (\<Union>w \<in> set ws. derived_edges w)"
    unfolding derived_edges_def UN_Un_distrib by (simp only: Un_commute)
  finally have edges: "edges g' = {e \<in> edges g. \<forall>w \<in> set ws. \<not> stale_release w e} \<union>
      (\<Union>w \<in> set ws. asserted_edges w) \<union> (\<Union>w \<in> set ws. derived_edges w) \<union>
      (\<Union>w \<in> set ws. same_as_edges (nodes g') w)" .
  have props: "nprop g' (Release, i) = nprop g1 (Release, i)" for i
    using e10(3) e9(3) [of "(Release, i)"] e8(3) [of "(Release, i)"] e7(3) e6(3) [of i] by simp
  have key: "rw_id w \<noteq> PNone" if "w \<in> set ws" for w
  proof -
    from that have "rw_id w \<in> set (map rd_id rels)" by (simp add: rows(1))
    then obtain r where "r \<in> set rels" "rw_id w = rd_id r" by auto
    with e1(4) [of r] show ?thesis by simp
  qed
  have old: "nprop g' (Release, i) = nprop g (Release, i)" if "i \<notin> rw_id ` set ws" for i
  proof -
    from that have "(Release, i) \<notin> (\<lambda>r. (Release, rd_id r)) ` set rels" using ids by auto
    then show ?thesis using props e1(3) by simp
  qed
  show thesis
    by (rule that [OF v nodes edges]) (use old key keep in blast)+
qed

end
