(* ===== verification/SequentialRefinement.thy ===== *)
theory SequentialRefinement
  imports BatchRefinement
begin

text \<open>
  The two write paths compared. A run of the single-record path over a list of releases with
  different ids has the same closed form as the batch: prune what any of the changed
  releases calls stale, add what they assert. \<open>SAME_AS\<close> is left out of the comparison, since
  that statement matches artists that a later release of the batch may create.
\<close>

section \<open>The single-record path over a list\<close>

definition release_run :: "'z runtime_scheme \<Rightarrow> pydict list \<Rightarrow> graph \<Rightarrow> py_error + graph" where
  "release_run rt records g = foldE (\<lambda>d g. mapR snd (process_release rt d g)) records g"

definition outdated :: "graph \<Rightarrow> pydict \<Rightarrow> bool" where
  "outdated g d \<longleftrightarrow> hash_gate Release (dget d ''id'') d g = Inr False"

lemma single_writes_id: "single_writes rt d = Inr w \<Longrightarrow> rw_id w = dget d ''id''"
  by (auto simp: single_writes_def py_item_dget simp del: py_item.simps py_item_Inr)

lemma single_writes_own_rows:
  assumes "single_writes rt d = Inr w"
  shows "own_rows w"
proof -
  from assms obtain block where "issued_on_rows rt (rw_id w) block = Inr (rw_media w)"
    and "company_writes rt (rw_id w) d = Inr (rw_companies w)"
    and "person_credit_rows rt (rw_id w) (dget d ''extraartists'') = Inr (rw_credits w)"
    by (auto simp: single_writes_def simp del: py_item.simps py_item_Inr)
  then show ?thesis
    unfolding own_rows_def
    by (auto dest: issued_on_rows_release company_writes_release person_credit_rows_facts(3)
        simp: media_row_ok_def)
qed

text \<open>
  What one release asserts is never stale for a release with another id: both kinds of edge
  name the release they belong to, and only credits point to it.
\<close>

definition release_end :: "edge \<Rightarrow> node" where
  "release_end e = (if e_rel e = CREDITED_ON then e_dst e else e_src e)"

lemma asserted_end: "own_rows w \<Longrightarrow> e \<in> asserted_edges w \<Longrightarrow> release_end e = rnode w"
  by (auto simp: asserted_edges_def own_rows_def issued_on_edge_def credited_to_edge_def
      credited_on_edge_def release_end_def split: option.splits)

lemma stale_end: "stale_release w e \<Longrightarrow> release_end e = rnode w"
  by (auto simp: stale_release_def stale_def stale_issued_on_def stale_credited_to_def
      stale_credited_on_def prune_record_def credit_prune_record_def credited_on_prune_record_def
      release_end_def split: option.splits)

lemma stale_release_rel:
  "stale_release w e \<Longrightarrow> e_rel e \<in> {BY, ON, DERIVED_FROM, IS, ISSUED_ON, CREDITED_TO, CREDITED_ON}"
  by (auto simp: stale_release_def dest: stale_rels split: option.splits)

lemma derived_not_stale: "e \<in> derived_edges w \<Longrightarrow> \<not> stale_release w' e"
  by (auto simp: derived_edges_def dest: stale_release_rel)

lemma same_as_rel: "e \<in> same_as_edges N w \<Longrightarrow> e_rel e = SAME_AS"
  by (auto simp: same_as_edges_def)

lemma asserted_derived_rel:
  "e \<in> asserted_edges w \<Longrightarrow> e_rel e \<noteq> SAME_AS" "e \<in> derived_edges w \<Longrightarrow> e_rel e \<noteq> SAME_AS"
  by (auto simp: asserted_edges_def derived_edges_def split: option.splits)

section \<open>The closed form of a run\<close>

definition settled_edges :: "graph \<Rightarrow> release_writes list \<Rightarrow> edge set" where
  "settled_edges g ws = {e \<in> edges g. e_rel e \<noteq> SAME_AS \<and> (\<forall>w \<in> set ws. \<not> stale_release w e)} \<union>
     (\<Union>w \<in> set ws. asserted_edges w \<union> derived_edges w)"

definition but_same_as :: "graph \<Rightarrow> edge set" where
  "but_same_as g = Set.filter (\<lambda>e. e_rel e \<noteq> SAME_AS) (edges g)"

lemma single_step:
  assumes "process_release rt d g = Inr (b, g1)"
  shows "(b \<longleftrightarrow> outdated g d) \<and> (if outdated g d
     then \<exists>w. single_writes rt d = Inr w \<and> but_same_as g1 = settled_edges g [w] \<and>
            nodes g1 = nodes g \<union> written_nodes w \<and>
            (\<forall>j. j \<noteq> dget d ''id'' \<longrightarrow> nprop g1 (Release, j) = nprop g (Release, j))
     else g1 = g)"
proof (cases b)
  case True
  with assms have run: "process_release rt d g = Inr (True, g1)" by simp
  from run have "outdated g d"
    by (auto simp: process_release_def outdated_def py_item_dget simp del: py_item.simps py_item_Inr split: if_splits)
  moreover from run obtain w where "single_writes rt d = Inr w"
    and "edges g1 = {e \<in> edges g. \<not> stale_release w e} \<union> asserted_edges w \<union> derived_edges w \<union>
      same_as_edges (nodes g1) w"
    and "nodes g1 = nodes g \<union> written_nodes w"
    and "py_item (PDict d) ''sha256'' = Inr (nprop g1 (rnode w) ''sha256'')"
    and "\<forall>j. j \<noteq> rw_id w \<longrightarrow> nprop g1 (Release, j) = nprop g (Release, j)"
    and "rw_id w \<noteq> PNone"
    by (rule process_release_effect)
  moreover from this have "but_same_as g1 = settled_edges g [w]"
    by (auto simp: but_same_as_def settled_edges_def dest: same_as_rel asserted_derived_rel)
  ultimately show ?thesis using True by (auto dest: single_writes_id)
next
  case False
  with assms have run: "process_release rt d g = Inr (False, g1)" by simp
  then have "\<not> outdated g d"
    by (auto simp: process_release_def outdated_def py_item_dget simp del: py_item.simps py_item_Inr split: if_splits)
  with False process_release_False [OF run] show ?thesis by simp
qed

text \<open>The gate of a release reads its own node only.\<close>

lemma outdated_cong:
  assumes "(Release, dget d ''id'') \<in> nodes g1 \<longleftrightarrow> (Release, dget d ''id'') \<in> nodes g"
    and "nprop g1 (Release, dget d ''id'') = nprop g (Release, dget d ''id'')"
  shows "outdated g1 d \<longleftrightarrow> outdated g d"
  using assms by (simp add: outdated_def hash_gate_def existing_hash_def)

lemma written_release: "(Release, j) \<in> written_nodes w \<longleftrightarrow> j = rw_id w"
  by (auto simp: written_nodes_def medium_node_def family_node_def company_node_def
      person_node_def split: option.splits)

lemma settled_append:
  assumes "but_same_as g1 = settled_edges g [w]" and "own_rows w"
    and "\<And>w'. w' \<in> set ws \<Longrightarrow> rw_id w' \<noteq> rw_id w"
  shows "settled_edges g1 ws = settled_edges g (w # ws)"
proof -
  have "\<not> stale_release w' e" if "w' \<in> set ws" "e \<in> asserted_edges w \<union> derived_edges w" for w' e
    using that assms(3) asserted_end [OF assms(2)] derived_not_stale stale_end by fastforce
  moreover have "{e \<in> edges g1. e_rel e \<noteq> SAME_AS \<and> (\<forall>w \<in> set ws. \<not> stale_release w e)} =
      {e \<in> but_same_as g1. \<forall>w \<in> set ws. \<not> stale_release w e}"
    by (auto simp: but_same_as_def)
  ultimately show ?thesis using assms(1) by (auto simp: settled_edges_def)
qed

lemma release_run_effect:
  assumes "release_run rt records g = Inr g'" and "distinct (map (\<lambda>d. dget d ''id'') records)"
  obtains ws where "mapE (single_writes rt) (filter (outdated g) records) = Inr ws"
    and "but_same_as g' = settled_edges g ws" and "nodes g' = nodes g \<union> (\<Union>w \<in> set ws. written_nodes w)"
proof -
  have "\<exists>ws. mapE (single_writes rt) (filter (outdated g) records) = Inr ws \<and>
      but_same_as g' = settled_edges g ws \<and> nodes g' = nodes g \<union> (\<Union>w \<in> set ws. written_nodes w)"
    using assms
  proof (induction records arbitrary: g)
    case Nil
    then show ?case by (auto simp: release_run_def but_same_as_def settled_edges_def)
  next
    case (Cons d ds)
    then obtain b g1 where step: "process_release rt d g = Inr (b, g1)"
      and rest: "release_run rt ds g1 = Inr g'" by (auto simp: release_run_def)
    from Cons.prems(2) have ids: "distinct (map (\<lambda>d. dget d ''id'') ds)" by simp
    from Cons.IH [OF rest ids] obtain ws where ws: "mapE (single_writes rt) (filter (outdated g1) ds) = Inr ws"
      and edges: "but_same_as g' = settled_edges g1 ws"
      and nodes: "nodes g' = nodes g1 \<union> (\<Union>w \<in> set ws. written_nodes w)" by blast
    show ?case
    proof (cases "outdated g d")
      case False
      with single_step [OF step] have "g1 = g" by simp
      with ws edges nodes False show ?thesis by auto
    next
      case True
      with single_step [OF step] obtain w where w: "single_writes rt d = Inr w"
        and e1: "but_same_as g1 = settled_edges g [w]" and n1: "nodes g1 = nodes g \<union> written_nodes w"
        and p1: "\<forall>j. j \<noteq> dget d ''id'' \<longrightarrow> nprop g1 (Release, j) = nprop g (Release, j)" by auto
      have gates: "filter (outdated g1) ds = filter (outdated g) ds"
      proof (rule filter_cong [OF refl])
        fix d' assume "d' \<in> set ds"
        with Cons.prems(2) have "dget d' ''id'' \<noteq> dget d ''id''" by (auto simp: image_iff)
        with p1 n1 single_writes_id [OF w] show "outdated g1 d' \<longleftrightarrow> outdated g d'"
          by (intro outdated_cong) (auto simp: written_release)
      qed
      have "rw_id w' \<noteq> rw_id w" if "w' \<in> set ws" for w'
      proof -
        from that ws obtain d' where "d' \<in> set ds" and w': "single_writes rt d' = Inr w'"
          by (auto simp: mapE_set)
        with Cons.prems(2) single_writes_id [OF w] single_writes_id [OF w'] show ?thesis
          by (auto simp: image_iff)
      qed
      from settled_append [OF e1 single_writes_own_rows [OF w] this]
      show ?thesis using w ws gates edges nodes n1 True by auto
    qed
  qed
  then show thesis using that by blast
qed

section \<open>The same releases on both paths\<close>

text \<open>
  Where the paths differ on one record: an empty genre or style is merged by the
  single-record path and dropped by the batch. \<open>clean_terms\<close> has none. \<open>stamped\<close> records carry
  the hash text the extractor computes.
\<close>

definition clean_terms :: "pydict \<Rightarrow> bool" where
  "clean_terms d \<longleftrightarrow> (\<forall>k \<in> {''genres'', ''styles''}.
     case listed d k of Inl _ \<Rightarrow> False | Inr xs \<Rightarrow> list_all truthy xs)"

definition stamped :: "pydict \<Rightarrow> bool" where
  "stamped d \<longleftrightarrow> (case dget d ''sha256'' of PStr s \<Rightarrow> s \<noteq> [] | _ \<Rightarrow> False)"

lemma clean_listed:
  assumes "clean_terms d" and "listed d k = Inr xs" and "k \<in> {''genres'', ''styles''}"
  shows "truthy_items (dget d k) = Inr xs"
proof -
  from assms have "list_all truthy xs" by (auto simp: clean_terms_def)
  then have "filter truthy xs = xs" by (simp add: list_all_iff)
  with listed_truthy_items [OF assms(2)] show ?thesis by simp
qed

lemma dget_default_listed:
  "dget_default d k (PList []) = v \<Longrightarrow> py_iter v = Inr ss \<Longrightarrow> listed d k = Inr ss"
  by (cases v) (auto simp: listed_def py_or_def)

lemma py_first_iter: "py_len v = Inr 1 \<Longrightarrow> py_first v = Inr x \<Longrightarrow> py_iter v = Inr [x]"
  by (cases v rule: py_len.cases) (auto simp: length_Suc_conv split: list.splits)

lemma clean_pairs:
  assumes "clean_terms d" and single: "genre_style_pairs d = Inr ps" and batch: "record_pairs d = Inr qs"
  shows "ps = qs"
proof -
  let ?gs = "dget_default d ''genres'' (PList [])" and ?ss = "dget_default d ''styles'' (PList [])"
  from batch obtain n where n: "py_len ?gs = Inr n" by (auto simp: record_pairs_def Let_def)
  show ?thesis
  proof (cases "n = 1")
    case False
    with n single batch show ?thesis by (simp add: genre_style_pairs_def record_pairs_def)
  next
    case True
    with n batch obtain gen where gen: "py_first ?gs = Inr gen" by (auto simp: record_pairs_def Let_def)
    from n True gen have "listed d ''genres'' = Inr [gen]"
      by (intro dget_default_listed [OF refl] py_first_iter) simp_all
    with assms(1) have "truthy gen" by (simp add: clean_terms_def)
    with n True gen batch obtain ss where ss: "py_iter ?ss = Inr ss" and qs: "qs = map (\<lambda>s. (gen, s)) (filter truthy ss)"
      by (auto simp: record_pairs_def Let_def)
    from dget_default_listed [OF refl ss] assms(1) have "list_all truthy ss" by (simp add: clean_terms_def)
    then have "filter truthy ss = ss" by (simp add: list_all_iff)
    moreover have "ss = []" if "\<not> truthy ?ss" using that ss by (cases ?ss) auto
    ultimately show ?thesis using n True gen ss qs single
      by (auto simp: genre_style_pairs_def Let_def split: if_splits)
  qed
qed

lemma single_batch_view:
  assumes "clean_terms d" and single: "single_writes rt d = Inr w"
    and data: "release_data_of rt d = Inr r" and view: "batch_view rt r = Inr w'"
  shows "w = w'"
proof -
  note own = batch_view_own_rows [OF data view]
  note v = batch_view_Inr [OF view own(2)]
  from single obtain genres styles where gs: "listed d ''genres'' = Inr genres" "listed d ''styles'' = Inr styles"
    and w: "rw_genres w = genres" "rw_styles w = styles"
    by (auto simp: single_writes_def)
  from single have "truthy_items (dget d ''genres'') = Inr (rw_keep_genres w)"
    "truthy_items (dget d ''styles'') = Inr (rw_keep_styles w)"
    by (auto simp: single_writes_def)
  with clean_listed [OF assms(1)] gs have keep: "rw_keep_genres w = genres" "rw_keep_styles w = styles"
    by simp_all
  from single have "genre_style_pairs d = Inr (rw_pairs w)" by (auto simp: single_writes_def)
  from clean_pairs [OF assms(1) this] v(11) own(3) have pairs: "rw_pairs w = rw_pairs w'" by simp
  have id: "rw_id w = dget d ''id''" using single by (rule single_writes_id)
  obtain block where block: "resolve_media_block rt d = Inr block"
    and media: "issued_on_rows rt (rw_id w) block = Inr (rw_media w)"
    and companies: "company_writes rt (rw_id w) d = Inr (rw_companies w)"
    and artists: "named_refs (dget d ''artists'') = Inr (rw_artists w)"
    and labels: "named_refs (dget d ''labels'') = Inr (rw_labels w)"
    and masters: "rw_masters w = master_list d"
    and credits: "person_credit_rows rt (rw_id w) (dget d ''extraartists'') = Inr (rw_credits w)"
    using single by (auto simp: single_writes_def simp del: py_item.simps py_item_Inr)
  have "rw_media w = rd_media_rows r" "rw_companies w = rd_company_rows r"
    using data block media companies id by (auto simp: release_data_of_def)
  with v own(2,3) id artists labels masters credits keep w pairs
    clean_listed [OF assms(1) gs(1)] clean_listed [OF assms(1) gs(2)]
  show ?thesis by (intro release_writes.equality) simp_all
qed

section \<open>The hashes a batch reads\<close>

lemma read_hash_other: "py_str rt i \<noteq> k \<Longrightarrow> read_hash rt lb g i m k = m k"
  by (auto simp: read_hash_def split: option.splits)

lemma read_hashes_other:
  "k \<notin> py_str rt ` set is \<Longrightarrow> fold (read_hash rt lb g) is m k = m k"
  by (induction "is" arbitrary: m) (auto simp: read_hash_other image_iff)

lemma read_hashes_own:
  assumes "distinct (map (py_str rt) is)" and "i \<in> set is"
  shows "fold (read_hash rt lb g) is m (py_str rt i) = read_hash rt lb g i m (py_str rt i)"
  using assms
proof (induction "is" arbitrary: m)
  case (Cons j js)
  show ?case
  proof (cases "i = j")
    case True
    with Cons.prems show ?thesis by (simp add: read_hashes_other)
  next
    case False
    with Cons.prems have "i \<in> set js" and "py_str rt j \<noteq> py_str rt i" by (auto simp: image_iff)
    with Cons show ?thesis by (simp add: read_hash_def split: option.splits)
  qed
qed simp

lemma py_eq_text: "py_eq v (PStr s) \<longleftrightarrow> v = PStr s"
  by (cases v) auto

lemma changed_outdated:
  assumes "distinct (map (\<lambda>d. py_str rt (dget d ''id'')) records)" and "d \<in> set records" and "stamped d"
  shows "changed rt (existing_hashes rt Release g records) d \<longleftrightarrow> outdated g d"
proof -
  from assms(3) obtain s where s: "dget d ''sha256'' = PStr s" "s \<noteq> []"
    by (auto simp: stamped_def split: pyval.splits)
  then have item: "py_item (PDict d) ''sha256'' = Inr (PStr s)"
    by (auto simp: dget_def split: option.splits)
  have "existing_hashes rt Release g records (py_str rt (dget d ''id'')) =
      read_hash rt Release g (dget d ''id'') Map.empty (py_str rt (dget d ''id''))"
    unfolding existing_hashes_def using assms(1,2) by (intro read_hashes_own) (auto simp: comp_def)
  with s item show ?thesis
    by (cases "existing_hash Release (dget d ''id'') g")
      (auto simp: changed_def outdated_def hash_gate_def read_hash_def py_eq_text
        simp del: py_item.simps py_item_Inr py_eq.simps)
qed

section \<open>Batch and run agree\<close>

lemma batch_selected:
  assumes "list_all has_id records"
    and "list_all stamped records" and "distinct (map (\<lambda>d. py_str rt (dget d ''id'')) records)"
  shows "nack_indices has_id records = {}"
    and "to_process rt Release has_id records g = filter (outdated g) records"
proof -
  have all: "filter has_id records = records" using assms(1) by (simp add: list_all_iff)
  show "nack_indices has_id records = {}"
    using assms(1) by (auto simp: nack_indices_def list_all_iff in_set_enumerate_eq)
  show "to_process rt Release has_id records g = filter (outdated g) records"
    unfolding to_process_def all Let_def
    using assms(2,3) by (intro filter_cong) (auto simp: list_all_iff changed_outdated)
qed

lemma batch_effect:
  assumes "process_releases_batch rt records g = Inr (rejected, g')"
  obtains rels ws where "mapE (release_data_of rt) (to_process rt Release has_id records g) = Inr rels"
    and "viewed rt rels ws" and "but_same_as g' = settled_edges g ws"
    and "nodes g' = nodes g \<union> (\<Union>w \<in> set ws. written_nodes w)"
    and "rejected = nack_indices has_id records"
proof -
  from assms obtain rels where rels: "mapE (release_data_of rt) (to_process rt Release has_id records g) = Inr rels"
    and out: "if rels = [] then g' = g else releases_write rt rels g = Inr g'"
    and rej: "rejected = nack_indices has_id records"
    by (auto simp: process_releases_batch_def Let_def split: if_splits)
  show thesis
  proof (cases "rels = []")
    case True
    with rels out rej show thesis
      by (intro that [of rels "[]"]) (auto simp: viewed_def but_same_as_def settled_edges_def)
  next
    case False
    with out have "releases_write rt rels g = Inr g'" by simp
    from releases_write_effect [OF this rels] obtain ws where v: "viewed rt rels ws"
      and n: "nodes g' = nodes g \<union> (\<Union>w \<in> set ws. written_nodes w)"
      and e: "edges g' = {e \<in> edges g. \<forall>w \<in> set ws. \<not> stale_release w e} \<union> (\<Union>w \<in> set ws. asserted_edges w) \<union>
      (\<Union>w \<in> set ws. derived_edges w) \<union> (\<Union>w \<in> set ws. same_as_edges (nodes g') w)"
      and "\<forall>i. i \<notin> rw_id ` set ws \<longrightarrow> nprop g' (Release, i) = nprop g (Release, i)"
      and "\<forall>w \<in> set ws. rw_id w \<noteq> PNone"
      and "\<forall>w \<in> set ws. rw_keep_genres w = rw_genres w \<and> rw_keep_styles w = rw_styles w" .
    from e have "but_same_as g' = settled_edges g ws"
      by (auto simp: but_same_as_def settled_edges_def dest: same_as_rel asserted_derived_rel)
    with rels v n rej show thesis by (intro that)
  qed
qed

lemma viewed_single:
  assumes "mapE (release_data_of rt) ds = Inr rels" and "viewed rt rels ws"
    and "mapE (single_writes rt) ds = Inr ws'" and "list_all clean_terms ds"
  shows "ws = ws'"
  using assms
proof (induction ds arbitrary: rels ws ws')
  case (Cons d ds)
  then obtain r rs w where r: "rels = r # rs" "release_data_of rt d = Inr r" "mapE (release_data_of rt) ds = Inr rs"
    by auto
  with Cons.prems(2) obtain u us where u: "ws = u # us" "batch_view rt r = Inr u" "viewed rt rs us"
    by (auto simp: viewed_def list_all2_Cons1)
  from Cons.prems(3) obtain u' us' where u': "ws' = u' # us'" "single_writes rt d = Inr u'"
    "mapE (single_writes rt) ds = Inr us'" by auto
  from Cons.prems(4) have clean: "clean_terms d" "list_all clean_terms ds" by simp_all
  from Cons.IH [OF r(3) u(3) u'(3) clean(2)] single_batch_view [OF clean(1) u'(2) r(2) u(2)] u(1) u'(1)
  show ?case by simp
qed (simp add: viewed_def)

lemma batch_agrees:
  assumes batch: "process_releases_batch rt records g = Inr (rejected, gb)"
    and run: "release_run rt records g = Inr gs"
    and ok: "list_all has_id records" "list_all stamped records" "list_all clean_terms records"
    and ids: "distinct (map (\<lambda>d. py_str rt (dget d ''id'')) records)"
  shows "but_same_as gb = but_same_as gs" and "nodes gb = nodes gs" and "rejected = {}"
proof -
  have "distinct (map (\<lambda>d. dget d ''id'') records)"
    using distinct_map [of "py_str rt" "map (\<lambda>d. dget d ''id'') records"] ids by (simp add: comp_def)
  from release_run_effect [OF run this] obtain ws' where
    ws': "mapE (single_writes rt) (filter (outdated g) records) = Inr ws'"
    and gs: "but_same_as gs = settled_edges g ws'" "nodes gs = nodes g \<union> (\<Union>w \<in> set ws'. written_nodes w)" .
  from batch_effect [OF batch] obtain rels ws where
    rels: "mapE (release_data_of rt) (to_process rt Release has_id records g) = Inr rels"
    and v: "viewed rt rels ws" and gb: "but_same_as gb = settled_edges g ws"
      "nodes gb = nodes g \<union> (\<Union>w \<in> set ws. written_nodes w)"
    and rej: "rejected = nack_indices has_id records" .
  note sel = batch_selected [OF ok(1,2) ids]
  have "list_all clean_terms (filter (outdated g) records)" using ok(3) by (simp add: list_all_iff)
  from viewed_single [OF rels [unfolded sel(2)] v ws' this] have "ws = ws'" .
  with gs gb rej sel(1) show "but_same_as gb = but_same_as gs" and "nodes gb = nodes gs" and "rejected = {}"
    by simp_all
qed

end
