(* ===== verification/Projectors.thy ===== *)
theory Projectors
  imports SequentialRefinement
begin

text \<open>
  What the four single-record processors share, stated once as contracts: a processor keeps
  the schema of the graph, and it is gated by the content hash stored on its node, so that a
  redelivered record is recognised and changes nothing.
\<close>

section \<open>Keeping the schema\<close>

text \<open>
  A computation that leaves a well-formed graph when it returns one. The rules follow the
  sequencing of the code: a bound graph is well-formed from there on, a bound value of
  another type does not matter.
\<close>

definition leaves_wf :: "py_error + graph \<Rightarrow> bool" where
  "leaves_wf m \<longleftrightarrow> (\<forall>g. m = Inr g \<longrightarrow> graph_wf g)"

definition reports_wf :: "py_error + (bool \<times> graph) \<Rightarrow> bool" where
  "reports_wf m \<longleftrightarrow> (\<forall>b g. m = Inr (b, g) \<longrightarrow> graph_wf g)"

lemma leaves_wf_Inr: "graph_wf g \<Longrightarrow> leaves_wf (Inr g)"
  by (simp add: leaves_wf_def)

lemma leaves_wf_bind:
  "leaves_wf m \<Longrightarrow> (\<And>g. graph_wf g \<Longrightarrow> leaves_wf (f g)) \<Longrightarrow> leaves_wf (bindE m f)"
  by (auto simp: leaves_wf_def)

lemma leaves_wf_bind_any: "(\<And>x. leaves_wf (f x)) \<Longrightarrow> leaves_wf (bindE m f)"
  by (auto simp: leaves_wf_def)

lemma leaves_wf_fold:
  assumes "graph_wf g" and "\<And>x g. graph_wf g \<Longrightarrow> leaves_wf (f x g)"
  shows "leaves_wf (foldE f xs g)"
  using assms(1)
proof (induction xs arbitrary: g)
  case (Cons x xs)
  with assms(2) show ?case by (auto intro!: leaves_wf_bind)
qed (simp add: leaves_wf_Inr)

lemma reports_wf_Inr: "graph_wf g \<Longrightarrow> reports_wf (Inr (b, g))"
  by (simp add: reports_wf_def)

lemma reports_wf_if: "reports_wf a \<Longrightarrow> reports_wf b \<Longrightarrow> reports_wf (if c then a else b)"
  by simp

lemma reports_wf_bind:
  "leaves_wf m \<Longrightarrow> (\<And>g. graph_wf g \<Longrightarrow> reports_wf (f g)) \<Longrightarrow> reports_wf (bindE m f)"
  by (auto simp: leaves_wf_def reports_wf_def)

lemma reports_wf_bind_any: "(\<And>x. reports_wf (f x)) \<Longrightarrow> reports_wf (bindE m f)"
  by (auto simp: reports_wf_def)

lemma leaves_wf_link:
  "graph_wf g \<Longrightarrow> {e_src e, e_dst e} \<subseteq> {m, t} \<Longrightarrow> edge_ok e \<Longrightarrow> leaves_wf (link m t e g)"
  "graph_wf g \<Longrightarrow> {e_src e, e_dst e} \<subseteq> {m, t} \<Longrightarrow> edge_ok e \<Longrightarrow> leaves_wf (link_filling m t k v e g)"
  "graph_wf g \<Longrightarrow> {e_src e, e_dst e} \<subseteq> {m, t} \<Longrightarrow> edge_ok e \<Longrightarrow> leaves_wf (link_matched m t e g)"
  by (simp_all only: leaves_wf_def, blast intro: graph_wf_link, blast intro: graph_wf_link_filling,
      blast intro: graph_wf_link_matched)

lemma leaves_wf_merge_node: "graph_wf g \<Longrightarrow> leaves_wf (merge_node n g)"
  by (simp add: leaves_wf_def graph_wf_def)

lemma leaves_wf_merge_set:
  "graph_wf g \<Longrightarrow> leaves_wf (bindE (merge_node n g) (\<lambda>g1. Inr (set_node n kvs g1)))"
  by (auto simp: leaves_wf_def intro!: graph_wf_set_node) (simp add: graph_wf_def)

lemma leaves_wf_rows:
  assumes "graph_wf g"
  shows "leaves_wf (member_row i m g)" and "leaves_wf (group_row i m g)" and "leaves_wf (alias_row i m g)"
    and "leaves_wf (parent_row i m g)" and "leaves_wf (sublabel_row i m g)"
    and "leaves_wf (master_artist_row i m g)" and "leaves_wf (is_genre_row (Master, i) m g)"
    and "leaves_wf (is_style_row (Master, i) m g)" and "leaves_wf (is_genre_row (Release, i) m g)"
    and "leaves_wf (is_style_row (Release, i) m g)" and "leaves_wf (derived_from_row i m g)"
    and "leaves_wf (release_artist_row i a g)" and "leaves_wf (release_label_row i a g)"
    and "leaves_wf (part_of_row p g)"
  using assms
  by (simp_all add: member_row_def group_row_def alias_row_def parent_row_def sublabel_row_def
      master_artist_row_def is_genre_row_def is_style_row_def derived_from_row_def
      release_artist_row_def release_label_row_def leaves_wf_link)
    (auto simp: part_of_row_def leaves_wf_def graph_wf_def)

lemma leaves_wf_upserts:
  assumes "graph_wf g"
  shows "leaves_wf (artist_upsert rt i record g)" and "leaves_wf (label_upsert i record g)"
    and "leaves_wf (master_upsert i record g)" and "leaves_wf (release_upsert i formats block record g)"
    and "leaves_wf (label_upsert_row record g)" and "leaves_wf (master_upsert_row record g)"
    and "leaves_wf (release_upsert_row r g)"
  unfolding artist_upsert_def label_upsert_def master_upsert_def release_upsert_def
    label_upsert_row_def master_upsert_row_def release_upsert_row_def Let_def
  using assms by (auto intro!: leaves_wf_bind_any leaves_wf_merge_set)

lemma leaves_wf_artist_upsert_row: "graph_wf g \<Longrightarrow> leaves_wf (artist_upsert_row rt record g)"
  by (auto simp: artist_upsert_row_def Let_def leaves_wf_def intro!: graph_wf_set_node)
    (simp add: graph_wf_def)

lemma leaves_wf_prunes:
  assumes "graph_wf g"
  shows "leaves_wf (master_prunes i record g)" and "leaves_wf (release_prunes i record g)"
    and "leaves_wf (prune_batch lb t target desired records g)"
  unfolding master_prunes_def release_prunes_def prune_batch_def prune_stale_edges_def
  using assms by (auto intro!: leaves_wf_bind_any leaves_wf_Inr graph_wf_delete_edges graph_wf_prune_rows)

lemma leaves_wf_media: "graph_wf g \<Longrightarrow> leaves_wf (merge_media src rows (prune_issued_on src ps g))"
  unfolding leaves_wf_def prune_issued_on_def using graph_wf_merge_media graph_wf_prune_rows by blast

lemma leaves_wf_companies:
  "graph_wf g \<Longrightarrow> leaves_wf (merge_companies src rows (prune_credited_to src ps g))"
  unfolding leaves_wf_def prune_credited_to_def using graph_wf_merge_companies graph_wf_prune_rows by blast

lemma leaves_wf_credits: "graph_wf g \<Longrightarrow> leaves_wf (merge_credits rows (prune_credited_on ps g))"
  unfolding leaves_wf_def prune_credited_on_def using graph_wf_merge_credits graph_wf_prune_rows by blast

lemma leaves_wf_same_as: "graph_wf g \<Longrightarrow> leaves_wf (merge_same_as rows g)"
  unfolding leaves_wf_def using graph_wf_merge_same_as by blast

lemma leaves_wf_release_parts:
  assumes "graph_wf g"
  shows "leaves_wf (release_media rt i block g)" and "leaves_wf (release_companies rt i record g)"
    and "leaves_wf (release_credits rt i record g)"
  unfolding release_media_def release_companies_def release_credits_def
  by (rule leaves_wf_bind leaves_wf_bind_any leaves_wf_media leaves_wf_companies leaves_wf_credits
      leaves_wf_same_as assms | assumption | simp add: leaves_wf_Inr assms split: option.splits
    | intro allI impI)+

lemmas wf_rules =
  reports_wf_if reports_wf_Inr reports_wf_bind reports_wf_bind_any
  leaves_wf_fold leaves_wf_rows leaves_wf_upserts leaves_wf_artist_upsert_row leaves_wf_prunes
  leaves_wf_release_parts

lemma reports_wf_processors:
  assumes "graph_wf g"
  shows "reports_wf (process_artist rt record g)" and "reports_wf (process_label record g)"
    and "reports_wf (process_master record g)" and "reports_wf (process_release rt record g)"
  unfolding process_artist_def process_label_def process_master_def process_release_def
  by (rule wf_rules | assumption | rule assms)+

text \<open>The same for the batched writes.\<close>

lemma leaves_wf_link_names:
  assumes "graph_wf g"
  shows "leaves_wf (link_names Master Genre rows g)" and "leaves_wf (link_names Master Style rows g)"
    and "leaves_wf (link_names Release Genre rows g)" and "leaves_wf (link_names Release Style rows g)"
  unfolding link_names_def
  by (rule leaves_wf_bind leaves_wf_bind_any leaves_wf_fold leaves_wf_merge_node leaves_wf_link assms
    | assumption | simp)+

lemma leaves_wf_batch_parts:
  assumes "graph_wf g"
  shows "leaves_wf (batch_media rels g)" and "leaves_wf (batch_companies rels g)"
    and "leaves_wf (batch_credits rt rels g)"
  unfolding batch_media_def batch_companies_def batch_credits_def Let_def
  by (rule leaves_wf_bind leaves_wf_bind_any leaves_wf_media leaves_wf_companies leaves_wf_credits
      leaves_wf_same_as assms | assumption)+

lemma leaves_wf_writes:
  assumes "graph_wf g"
  shows "leaves_wf (artists_write rt records g)" and "leaves_wf (labels_write records g)"
    and "leaves_wf (masters_write records g)" and "leaves_wf (releases_write rt rels g)"
  unfolding artists_write_def labels_write_def masters_write_def releases_write_def
  by (rule leaves_wf_bind leaves_wf_bind_any wf_rules leaves_wf_link_names leaves_wf_batch_parts
      graph_wf_prune_rows assms | assumption)+

lemma leaves_wfD: "leaves_wf m \<Longrightarrow> m = Inr g \<Longrightarrow> graph_wf g"
  by (simp add: leaves_wf_def)

lemmas wf_writesD =
  leaves_wfD [OF leaves_wf_writes(1)] leaves_wfD [OF leaves_wf_writes(2)]
  leaves_wfD [OF leaves_wf_writes(3)] leaves_wfD [OF leaves_wf_writes(4)]

lemma graph_wf_batch_write:
  assumes "graph_wf g" and "batch_write rt key messages g = Inr (out, g')"
  shows "graph_wf g'"
  using assms
  by (auto simp: batch_write_def process_artists_batch_def process_labels_batch_def
      process_masters_batch_def process_releases_batch_def Let_def split: if_splits
      dest: wf_writesD)

section \<open>The hash gate\<close>

text \<open>
  The contract of a gated processor for the nodes labelled \<open>lb\<close>: a record whose stored hash
  is its own is skipped, a skipped record changes nothing, and a written one leaves its hash
  on its node.
\<close>

locale hash_gated =
  fixes lb :: nlabel and process :: "pydict \<Rightarrow> graph \<Rightarrow> py_error + (bool \<times> graph)"
  assumes gated: "process d g = Inr (b, g') \<Longrightarrow> hash_gate lb (dget d ''id'') d g = Inr (\<not> b)"
    and skips: "dhas d ''id'' \<Longrightarrow> hash_gate lb (dget d ''id'') d g = Inr True \<Longrightarrow> process d g = Inr (False, g)"
    and needs_id: "process d g = Inr (b, g') \<Longrightarrow> dhas d ''id''"
    and stamps: "process d g = Inr (True, g') \<Longrightarrow>
      dhas d ''sha256'' \<and> existing_hash lb (dget d ''id'') g' = Some (dget d ''sha256'')"

context hash_gated
begin

lemma unchanged: "process d g = Inr (False, g') \<Longrightarrow> g' = g"
  using skips gated needs_id by fastforce

lemma recognised: "process d g = Inr (True, g') \<Longrightarrow> process d g' = Inr (False, g')"
proof -
  assume run: "process d g = Inr (True, g')"
  from stamps [OF run] have "hash_gate lb (dget d ''id'') d g' = Inr True"
    by (simp add: hash_gate_def py_item_dget py_eq_refl del: py_item.simps py_item_Inr)
  with needs_id [OF run] show ?thesis by (rule skips)
qed

lemma redelivered: "process d g = Inr (b, g') \<Longrightarrow> process d g' = Inr (False, g')"
  using recognised unchanged by (cases b) fastforce+

lemma replayed: "process d g = Inr (b, g') \<Longrightarrow>
    foldE (\<lambda>d g. mapR snd (process d g)) (replicate n d) g' = Inr g'"
  by (induction n) (auto dest: redelivered)

end

text \<open>
  The statements after the upsert leave every stamp alone: links set no property of a node
  that exists, except a name.
\<close>

definition keeps_stamps :: "graph \<Rightarrow> graph \<Rightarrow> bool" where
  "keeps_stamps g g' \<longleftrightarrow> nodes g \<subseteq> nodes g' \<and> (\<forall>n. nprop g' n ''sha256'' = nprop g n ''sha256'')"

lemma keeps_stamps_refl: "keeps_stamps g g"
  by (simp add: keeps_stamps_def)

lemma keeps_stamps_trans: "keeps_stamps a b \<Longrightarrow> keeps_stamps b c \<Longrightarrow> keeps_stamps a c"
  by (auto simp: keeps_stamps_def)

lemma keeps_stamps_fold:
  assumes "\<And>x g g'. f x g = Inr g' \<Longrightarrow> keeps_stamps g g'"
  shows "foldE f xs g = Inr g' \<Longrightarrow> keeps_stamps g g'"
  by (induction xs arbitrary: g)
    (auto simp: keeps_stamps_refl intro: keeps_stamps_trans dest: assms)

lemma keeps_stamps_link: "link m t e g = Inr g' \<Longrightarrow> keeps_stamps g g'"
  by (auto simp: link_def keeps_stamps_def split: if_splits)

lemma keeps_stamps_rows:
  "foldE (member_row i) xs g = Inr g' \<Longrightarrow> keeps_stamps g g'"
  "foldE (group_row i) xs g = Inr g' \<Longrightarrow> keeps_stamps g g'"
  "foldE (alias_row i) xs g = Inr g' \<Longrightarrow> keeps_stamps g g'"
  "foldE (parent_row i) xs g = Inr g' \<Longrightarrow> keeps_stamps g g'"
  "foldE (sublabel_row i) xs g = Inr g' \<Longrightarrow> keeps_stamps g g'"
  "foldE (master_artist_row i) xs g = Inr g' \<Longrightarrow> keeps_stamps g g'"
  "foldE (is_genre_row n) xs g = Inr g' \<Longrightarrow> keeps_stamps g g'"
  "foldE (is_style_row n) xs g = Inr g' \<Longrightarrow> keeps_stamps g g'"
  "foldE part_of_row ps g = Inr g' \<Longrightarrow> keeps_stamps g g'"
  "master_prunes i record g = Inr g' \<Longrightarrow> keeps_stamps g g'"
  unfolding member_row_def group_row_def alias_row_def parent_row_def sublabel_row_def
    master_artist_row_def is_genre_row_def is_style_row_def
  by (erule keeps_stamps_fold [rotated], erule keeps_stamps_link)+
    (erule keeps_stamps_fold [rotated],
      auto simp: part_of_row_def keeps_stamps_def master_prunes_def prune_stale_edges_def)

lemma upsert_stamps:
  "artist_upsert rt i d g = Inr g' \<Longrightarrow> dhas d ''sha256'' \<and> existing_hash Artist i g' = Some (dget d ''sha256'')"
  "label_upsert i d g = Inr g' \<Longrightarrow> dhas d ''sha256'' \<and> existing_hash Label i g' = Some (dget d ''sha256'')"
  "master_upsert i d g = Inr g' \<Longrightarrow> dhas d ''sha256'' \<and> existing_hash Master i g' = Some (dget d ''sha256'')"
  by (auto simp: artist_upsert_def label_upsert_def master_upsert_def existing_hash_def nprop_set_node
      py_item_dget simp del: py_item.simps py_item_Inr)

lemma stamp_kept:
  "keeps_stamps g g' \<Longrightarrow> existing_hash lb i g = Some h \<Longrightarrow> existing_hash lb i g' = Some h"
  by (auto simp: keeps_stamps_def existing_hash_def split: if_splits)

text \<open>The four processors meet the contract.\<close>

interpretation artist: hash_gated Artist "process_artist rt" for rt :: "'z runtime_scheme"
  by unfold_locales
    (auto simp: process_artist_def py_item_dget simp del: py_item.simps py_item_Inr split: if_splits
      dest!: upsert_stamps keeps_stamps_rows, (blast intro: stamp_kept)+)

interpretation label: hash_gated Label process_label
  by unfold_locales
    (auto simp: process_label_def py_item_dget simp del: py_item.simps py_item_Inr split: if_splits
      dest!: upsert_stamps keeps_stamps_rows, (blast intro: stamp_kept)+)

interpretation master: hash_gated Master process_master
  by unfold_locales
    (auto simp: process_master_def py_item_dget simp del: py_item.simps py_item_Inr split: if_splits
      dest!: upsert_stamps keeps_stamps_rows, (blast intro: stamp_kept)+)

interpretation release: hash_gated Release "process_release rt" for rt :: "'z runtime_scheme"
proof
  fix d g b g'
  show "hash_gate Release (dget d ''id'') d g = Inr (\<not> b)" and "dhas d ''id''"
    if "process_release rt d g = Inr (b, g')"
    using that
    by (auto simp: process_release_def py_item_dget simp del: py_item.simps py_item_Inr split: if_splits)
  show "process_release rt d g = Inr (False, g)"
    if "dhas d ''id''" and "hash_gate Release (dget d ''id'') d g = Inr True"
    using that py_item_dget [of d "''id''" "dget d ''id''"]
    by (simp add: process_release_def del: py_item.simps py_item_Inr)
  show "dhas d ''sha256'' \<and> existing_hash Release (dget d ''id'') g' = Some (dget d ''sha256'')"
    if "process_release rt d g = Inr (True, g')"
    using that
  proof (rule process_release_effect)
    fix w assume "single_writes rt d = Inr w" and "nodes g' = nodes g \<union> written_nodes w"
      and "py_item (PDict d) ''sha256'' = Inr (nprop g' (rnode w) ''sha256'')"
    then show ?thesis
      using single_writes_id [of rt d w]
      by (auto simp: py_item_dget existing_hash_def written_release simp del: py_item.simps py_item_Inr)
  qed
qed

end
