(* ===== verification/Progress.thy ===== *)
theory Progress
  imports Projectors
begin

text \<open>
  When the write of a release cannot abort: once the record has been read into its writes,
  no statement of the transaction is refused, because every key and every pattern property
  it merges is present.
\<close>

section \<open>Computations that return\<close>

definition succeeds :: "'e + 'a \<Rightarrow> bool" where
  "succeeds r = (case r of Inl _ \<Rightarrow> False | Inr _ \<Rightarrow> True)"

lemma succeeds_iff: "succeeds r \<longleftrightarrow> (\<exists>x. r = Inr x)"
  by (cases r) (simp_all add: succeeds_def)

lemma succeeds_Inr [simp]: "succeeds (Inr x)"
  by (simp add: succeeds_def)

lemma succeeds_bind: "succeeds m \<Longrightarrow> (\<And>x. m = Inr x \<Longrightarrow> succeeds (f x)) \<Longrightarrow> succeeds (bindE m f)"
  by (auto simp: succeeds_iff)

lemma succeeds_value: "m = Inr x \<Longrightarrow> succeeds (f x) \<Longrightarrow> succeeds (bindE m f)"
  by simp

lemma succeeds_fold:
  "(\<And>x g. x \<in> set xs \<Longrightarrow> succeeds (f x g)) \<Longrightarrow> succeeds (foldE f xs g)"
  by (induction xs arbitrary: g) (auto intro!: succeeds_bind)

section \<open>Clauses that are not refused\<close>

lemma succeeds_links:
  "snd t \<noteq> PNone \<Longrightarrow> PNone \<notin> set (e_key e) \<Longrightarrow> succeeds (link m t e g)"
  "snd t \<noteq> PNone \<Longrightarrow> PNone \<notin> set (e_key e) \<Longrightarrow> succeeds (link_filling m t k v e g)"
  "PNone \<notin> set (e_key e) \<Longrightarrow> succeeds (link_matched m t e g)"
  by (simp_all add: link_def link_filling_def link_matched_def merge_node_def merge_edge_def)

lemma succeeds_merge_media: "succeeds (merge_media MEDIA_SOURCE rows g)"
  unfolding merge_media_def
  by (rule succeeds_fold)
    (simp add: merge_media_row_def merge_node_def merge_edge_def family_node_def medium_node_def
      in_family_edge_def issued_on_edge_def MEDIA_SOURCE_def)

lemma succeeds_merge_companies: "succeeds (merge_companies COMPANY_SOURCE rows g)"
  unfolding merge_companies_def
  by (rule succeeds_fold)
    (simp add: merge_company_row_def merge_node_def merge_edge_def company_node_def
      credited_to_edge_def COMPANY_SOURCE_def)

lemma succeeds_merge_credits:
  assumes "\<And>c. c \<in> set rows \<Longrightarrow> truthy (cd_name c) \<and> truthy (cd_role c)"
  shows "succeeds (merge_credits rows g)"
  unfolding merge_credits_def
proof (rule succeeds_fold)
  fix c and h :: graph assume "c \<in> set rows"
  with assms [of c] have "cd_name c \<noteq> PNone" "cd_role c \<noteq> PNone" by (auto dest: truthy_not_None)
  then show "succeeds (merge_credit_row c h)"
    by (simp add: merge_credit_row_def merge_node_def merge_edge_def person_node_def credited_on_edge_def)
qed

lemma succeeds_merge_same_as: "succeeds (merge_same_as rows g)"
  unfolding merge_same_as_def
  by (rule succeeds_fold) (simp add: succeeds_links same_as_edge_def)

lemma succeeds_part_of:
  "(\<And>p. p \<in> set ps \<Longrightarrow> fst p \<noteq> PNone \<and> snd p \<noteq> PNone) \<Longrightarrow> succeeds (foldE part_of_row ps g)"
  by (rule succeeds_fold) (auto simp: part_of_row_def merge_node_def merge_edge_def succeeds_iff)

section \<open>One release\<close>

lemma clean_listed_truthy:
  assumes "clean_terms d" and "listed d k = Inr xs" and "k \<in> {''genres'', ''styles''}" and "x \<in> set xs"
  shows "x \<noteq> PNone"
proof -
  from assms have "list_all truthy xs" by (auto simp: clean_terms_def)
  with assms(4) show ?thesis by (metis list_all_iff truthy_not_None)
qed

lemma clean_pairs_present:
  assumes "clean_terms d" and "genre_style_pairs d = Inr ps" and "p \<in> set ps"
  shows "fst p \<noteq> PNone \<and> snd p \<noteq> PNone"
proof -
  let ?gs = "dget_default d ''genres'' (PList [])" and ?ss = "dget_default d ''styles'' (PList [])"
  from assms(2,3) obtain gen ss where one: "py_len ?gs = Inr 1" "py_first ?gs = Inr gen"
    and ss: "py_iter ?ss = Inr ss" and p: "p \<in> set (map (\<lambda>s. (gen, s)) ss)"
    by (auto simp: genre_style_pairs_def Let_def split: if_splits)
  have "listed d ''genres'' = Inr [gen]"
    by (rule dget_default_listed [OF refl py_first_iter [OF one]])
  moreover have "listed d ''styles'' = Inr ss" by (rule dget_default_listed [OF refl ss])
  ultimately show ?thesis using p assms(1) clean_listed_truthy [OF assms(1)]
    by (auto simp: image_iff)
qed

lemma process_release_total:
  assumes w: "single_writes rt d = Inr w" and "clean_terms d" and "dhas d ''sha256''"
    and "succeeds (format_names d)" and "rw_id w \<noteq> PNone"
  shows "succeeds (process_release rt d g)"
proof -
  from w obtain block genres styles where id: "py_item (PDict d) ''id'' = Inr (rw_id w)"
    and block: "resolve_media_block rt d = Inr block"
    and kg: "truthy_items (dget d ''genres'') = Inr (rw_keep_genres w)"
    and ks: "truthy_items (dget d ''styles'') = Inr (rw_keep_styles w)"
    and media: "issued_on_rows rt (rw_id w) block = Inr (rw_media w)"
    and companies: "company_writes rt (rw_id w) d = Inr (rw_companies w)"
    and artists: "named_refs (dget d ''artists'') = Inr (rw_artists w)"
    and labels: "named_refs (dget d ''labels'') = Inr (rw_labels w)"
    and genres: "listed d ''genres'' = Inr (rw_genres w)" and styles: "listed d ''styles'' = Inr (rw_styles w)"
    and pairs: "genre_style_pairs d = Inr (rw_pairs w)"
    and credits: "person_credit_rows rt (rw_id w) (dget d ''extraartists'') = Inr (rw_credits w)"
    by (auto simp: single_writes_def simp del: py_item.simps py_item_Inr)
  from assms(4) obtain fmts where fmts: "format_names d = Inr fmts" by (auto simp: succeeds_iff)
  have sha: "py_item (PDict d) ''sha256'' = Inr (dget d ''sha256'')"
    using assms(3) py_item_dget by blast
  have gate: "succeeds (hash_gate Release (rw_id w) d g)"
    using sha by (simp add: hash_gate_def del: py_item.simps py_item_Inr split: option.splits)
  have upsert: "succeeds (release_upsert (rw_id w) fmts block d g)" for g
    using sha assms(5) by (simp add: release_upsert_def merge_node_def del: py_item.simps py_item_Inr)
  have prunes: "succeeds (release_prunes (rw_id w) d g)" for g
    by (simp add: release_prunes_def named_refs_ids [OF artists] named_refs_ids [OF labels] kg ks)
  have p_media: "succeeds (release_media rt (rw_id w) block g)" for g
    by (simp add: release_media_def media succeeds_merge_media)
  have p_companies: "succeeds (release_companies rt (rw_id w) d g)" for g
    using companies by (auto simp: release_companies_def company_writes_def succeeds_merge_companies split: option.splits)
  have p_credits: "succeeds (release_credits rt (rw_id w) d g)" for g
    unfolding release_credits_def credits bindE_Inr
    by (intro succeeds_bind succeeds_merge_credits succeeds_merge_same_as)
      (simp add: person_credit_rows_facts [OF credits])
  have ids: "fst a \<noteq> PNone" if "a \<in> set (rw_artists w) \<union> set (rw_labels w)" for a
    using that named_refs_truthy [OF artists] named_refs_truthy [OF labels] truthy_not_None by blast
  have p_artists: "succeeds (foldE (release_artist_row (rw_id w)) (rw_artists w) g)" for g
    by (rule succeeds_fold) (simp add: release_artist_row_def succeeds_links ids)
  have p_labels: "succeeds (foldE (release_label_row (rw_id w)) (rw_labels w) g)" for g
    by (rule succeeds_fold) (simp add: release_label_row_def succeeds_links ids)
  have p_masters: "succeeds (foldE (derived_from_row (rw_id w)) (master_list d) g)" for g
    by (rule succeeds_fold)
      (auto simp: derived_from_row_def dest: master_list_truthy truthy_not_None intro!: succeeds_links)
  have p_genres: "succeeds (foldE (is_genre_row (rnode w)) (rw_genres w) g)" for g
    by (rule succeeds_fold)
      (use clean_listed_truthy [OF assms(2) genres] in \<open>auto simp: is_genre_row_def intro!: succeeds_links\<close>)
  have p_styles: "succeeds (foldE (is_style_row (rnode w)) (rw_styles w) g)" for g
    by (rule succeeds_fold)
      (use clean_listed_truthy [OF assms(2) styles] in \<open>auto simp: is_style_row_def intro!: succeeds_links\<close>)
  have p_pairs: "succeeds (foldE part_of_row (rw_pairs w) g)" for g
    by (rule succeeds_part_of, erule clean_pairs_present [OF assms(2) pairs])
  show ?thesis
    unfolding process_release_def id bindE_Inr
    by (rule succeeds_bind [OF gate])
      (simp add: fmts block artists labels genres styles pairs,
        intro impI succeeds_bind succeeds_Inr upsert prunes p_media p_companies p_credits p_artists
          p_labels p_masters p_genres p_styles p_pairs)
qed

section \<open>A batch of releases\<close>

definition terms_hashable :: "release_writes \<Rightarrow> bool" where
  "terms_hashable w \<longleftrightarrow> list_all hashable (rw_genres w) \<and> list_all hashable (rw_styles w) \<and>
     list_all (\<lambda>p. hashable (fst p) \<and> hashable (snd p)) (rw_pairs w)"

lemma succeeds_link_names:
  assumes "\<And>r. r \<in> set rows \<Longrightarrow> hashable (snd r) \<and> snd r \<noteq> PNone"
  shows "succeeds (link_names owner target rows g)"
proof -
  have "distinct_values rows = Inr (dict_fromkeys (map snd rows))"
    using assms by (auto simp: distinct_values_def list_all_iff)
  moreover have "succeeds (foldE merge_node (map (\<lambda>n. (target, n)) (dict_fromkeys (map snd rows))) g)"
    by (rule succeeds_fold) (use assms in \<open>auto simp: merge_node_def\<close>)
  ultimately show ?thesis
    by (auto simp: link_names_def intro!: succeeds_bind succeeds_fold succeeds_links)
qed

lemma record_pairs_truthy:
  assumes "record_pairs d = Inr ps" and "p \<in> set ps"
  shows "fst p \<noteq> PNone \<and> snd p \<noteq> PNone"
  using assms by (auto simp: record_pairs_def Let_def split: if_splits dest: truthy_not_None)

lemma batch_view_present:
  assumes "batch_view rt r = Inr w" and "rd_id r = dget (rd_msg r) ''id''"
  shows "\<forall>a \<in> set (rw_artists w). fst a \<noteq> PNone" and "\<forall>l \<in> set (rw_labels w). fst l \<noteq> PNone"
    and "\<forall>m \<in> set (rw_masters w). m \<noteq> PNone" and "\<forall>x \<in> set (rw_genres w). x \<noteq> PNone"
    and "\<forall>x \<in> set (rw_styles w). x \<noteq> PNone" and "\<forall>p \<in> set (rw_pairs w). fst p \<noteq> PNone \<and> snd p \<noteq> PNone"
    and "\<forall>c \<in> set (rw_credits w). truthy (cd_name c) \<and> truthy (cd_role c)"
proof -
  note v = batch_view_Inr [OF assms]
  show "\<forall>a \<in> set (rw_artists w). fst a \<noteq> PNone" "\<forall>l \<in> set (rw_labels w). fst l \<noteq> PNone"
    using named_refs_truthy [OF v(2)] named_refs_truthy [OF v(3)] truthy_not_None by blast+
  show "\<forall>m \<in> set (rw_masters w). m \<noteq> PNone"
    using master_list_truthy [of _ "rd_msg r"] v(4) truthy_not_None by metis
  show "\<forall>x \<in> set (rw_genres w). x \<noteq> PNone" "\<forall>x \<in> set (rw_styles w). x \<noteq> PNone"
    using truthy_items_truthy [OF v(5)] truthy_items_truthy [OF v(6)] truthy_not_None by blast+
  show "\<forall>p \<in> set (rw_pairs w). fst p \<noteq> PNone \<and> snd p \<noteq> PNone"
    using record_pairs_truthy [OF v(11)] by blast
  show "\<forall>c \<in> set (rw_credits w). truthy (cd_name c) \<and> truthy (cd_role c)"
    using person_credit_rows_facts [OF v(12)] by blast
qed

lemma viewed_present:
  assumes "viewed rt rels ws" and "w \<in> set ws"
  obtains r where "batch_view rt r = Inr w" and "rd_id r = dget (rd_msg r) ''id''" and "r \<in> set rels"
proof -
  from assms obtain r where "batch_view rt r = Inr w" "\<exists>d. release_data_of rt d = Inr r" "r \<in> set rels"
    unfolding viewed_def by (induction rels ws rule: list_all2_induct) auto
  with that batch_view_own_rows(2) show thesis by blast
qed

lemma releases_write_total:
  assumes v: "viewed rt rels ws" and "\<forall>w \<in> set ws. terms_hashable w \<and> rw_id w \<noteq> PNone"
  shows "succeeds (releases_write rt rels g)"
proof -
  note rows = viewed_rows [OF v]
  have p: "(\<forall>a \<in> set (rw_artists w). fst a \<noteq> PNone) \<and> (\<forall>l \<in> set (rw_labels w). fst l \<noteq> PNone) \<and>
    (\<forall>m \<in> set (rw_masters w). m \<noteq> PNone) \<and> (\<forall>x \<in> set (rw_genres w). x \<noteq> PNone) \<and>
    (\<forall>x \<in> set (rw_styles w). x \<noteq> PNone) \<and> (\<forall>p \<in> set (rw_pairs w). fst p \<noteq> PNone \<and> snd p \<noteq> PNone) \<and>
    (\<forall>c \<in> set (rw_credits w). truthy (cd_name c) \<and> truthy (cd_role c))" if "w \<in> set ws" for w
  proof -
    from viewed_present [OF v that] obtain r where r: "batch_view rt r = Inr w" "rd_id r = dget (rd_msg r) ''id''" .
    show ?thesis by (intro conjI batch_view_present [OF r])
  qed
  have upsert: "succeeds (foldE release_upsert_row rels g)" for g
  proof (rule succeeds_fold)
    fix r and h :: graph assume "r \<in> set rels"
    then have "rd_id r \<in> set (map rw_id ws)" using rows(1) by (metis image_eqI list.set_map)
    with assms(2) show "succeeds (release_upsert_row r h)"
      by (auto simp: release_upsert_row_def merge_node_def)
  qed
  have s2: "succeeds (foldE (\<lambda>r. release_artist_row (fst r) (snd r)) (paired rw_artists ws) g)" for g
    by (rule succeeds_fold) (use p in \<open>fastforce simp: set_paired release_artist_row_def intro!: succeeds_links\<close>)
  have s3: "succeeds (foldE (\<lambda>r. release_label_row (fst r) (snd r)) (paired rw_labels ws) g)" for g
    by (rule succeeds_fold) (use p in \<open>fastforce simp: set_paired release_label_row_def intro!: succeeds_links\<close>)
  have s4: "succeeds (foldE (\<lambda>r. derived_from_row (fst r) (snd r)) (paired rw_masters ws) g)" for g
    by (rule succeeds_fold) (use p in \<open>auto simp: set_paired derived_from_row_def intro!: succeeds_links\<close>)
  have s5: "succeeds (link_names Release Genre (paired rw_genres ws) g)" for g
    by (rule succeeds_link_names) (use p assms(2) in \<open>auto simp: set_paired terms_hashable_def list_all_iff\<close>)
  have s6: "succeeds (link_names Release Style (paired rw_styles ws) g)" for g
    by (rule succeeds_link_names) (use p assms(2) in \<open>auto simp: set_paired terms_hashable_def list_all_iff\<close>)
  have map_msg: "mapE record_pairs (map rd_msg rels) = mapE (\<lambda>r. record_pairs (rd_msg r)) rels"
    by (induction rels) simp_all
  have pairs: "pair_rows (map rd_msg rels) = Inr (dict_fromkeys (concat (map rw_pairs ws)))"
    using assms(2) rows(8) map_msg
    by (fastforce simp: pair_rows_def distinct_pairs_def terms_hashable_def list_all_iff)
  have s7: "succeeds (foldE part_of_row (dict_fromkeys (concat (map rw_pairs ws))) g)" for g
    by (rule succeeds_part_of) (use p in auto)
  have s10: "succeeds (batch_credits rt rels g)" for g
    unfolding batch_credits_def rows(9) bindE_Inr Let_def
    by (intro succeeds_bind succeeds_merge_credits succeeds_merge_same_as) (use p in auto)
  show ?thesis
    unfolding releases_write_def rows(2-7) pairs bindE_Inr
    by (intro succeeds_bind upsert s2 s3 s4 s5 s6 s7 s10)
      (simp_all add: batch_media_def batch_companies_def Let_def succeeds_merge_media succeeds_merge_companies)
qed

lemma process_releases_batch_total:
  assumes "mapE (release_data_of rt) (to_process rt Release has_id messages g) = Inr rels"
    and "viewed rt rels ws" and "\<forall>w \<in> set ws. terms_hashable w \<and> rw_id w \<noteq> PNone"
  shows "succeeds (process_releases_batch rt messages g)"
  using assms(1) releases_write_total [OF assms(2,3)]
  by (auto simp: process_releases_batch_def Let_def succeeds_iff)

end
