(* ===== verification/ReleaseSpec.thy ===== *)
theory ReleaseSpec
  imports Progress
begin

text \<open>
  The contract of a release write in terms of the graph alone. The edges a release manages
  are those of the relations its record states; a write makes them exactly what the record
  asserts, and touches nothing else but the derived edges.
\<close>

section \<open>The edges a release manages\<close>

text \<open>
  Edges asserted by another provider are not managed: the source is part of their key. A
  record without a canonical companies block manages no company credits.
\<close>

definition release_managed :: "release_writes \<Rightarrow> edge \<Rightarrow> bool" where
  "release_managed w e \<longleftrightarrow>
     release_end e = rnode w \<and>
     (e_rel e \<in> {BY, ON, DERIVED_FROM, IS, CREDITED_ON} \<or>
      e_rel e = ISSUED_ON \<and> e_key e = [MEDIA_SOURCE] \<or>
      e_rel e = CREDITED_TO \<and> rw_companies w \<noteq> None \<and> e_key e \<noteq> [] \<and> last (e_key e) = COMPANY_SOURCE)"

text \<open>What reading a record guarantees of the writes.\<close>

definition keeps_ok :: "release_writes \<Rightarrow> bool" where
  "keeps_ok w \<longleftrightarrow>
     (\<forall>a \<in> set (rw_artists w). truthy (fst a)) \<and> (\<forall>l \<in> set (rw_labels w). truthy (fst l)) \<and>
     (\<forall>m \<in> set (rw_masters w). truthy m) \<and>
     rw_keep_genres w = filter truthy (rw_genres w) \<and> rw_keep_styles w = filter truthy (rw_styles w)"

lemma single_writes_keeps_ok:
  assumes "single_writes rt d = Inr w"
  shows "keeps_ok w"
proof -
  from assms have "named_refs (dget d ''artists'') = Inr (rw_artists w)"
    "named_refs (dget d ''labels'') = Inr (rw_labels w)" "rw_masters w = master_list d"
    "listed d ''genres'' = Inr (rw_genres w)" "listed d ''styles'' = Inr (rw_styles w)"
    "truthy_items (dget d ''genres'') = Inr (rw_keep_genres w)"
    "truthy_items (dget d ''styles'') = Inr (rw_keep_styles w)"
    by (auto simp: single_writes_def)
  then show ?thesis
    unfolding keeps_ok_def
    by (auto dest: named_refs_truthy master_list_truthy listed_truthy_items)
qed

lemma batch_view_keeps_ok:
  assumes "batch_view rt r = Inr w" and "rd_id r = dget (rd_msg r) ''id''"
  shows "keeps_ok w"
proof -
  note v = batch_view_Inr [OF assms]
  have "filter truthy (rw_genres w) = rw_genres w" "filter truthy (rw_styles w) = rw_styles w"
    using truthy_items_truthy [OF v(5)] truthy_items_truthy [OF v(6)] by (simp_all add: filter_id_conv)
  then show ?thesis
    unfolding keeps_ok_def
    using named_refs_truthy [OF v(2)] named_refs_truthy [OF v(3)] master_list_truthy [of _ "rd_msg r"] v(4) v(7) v(8)
    by auto
qed

section \<open>Stale, asserted, managed\<close>

lemma stale_managed: "stale_release w e \<Longrightarrow> release_managed w e"
  by (auto simp: stale_release_def release_managed_def release_end_def stale_def stale_issued_on_def
      stale_credited_to_def stale_credited_on_def prune_record_def credit_prune_record_def
      credited_on_prune_record_def split: option.splits list.splits)

lemma asserted_managed: "own_rows w \<Longrightarrow> e \<in> asserted_edges w \<Longrightarrow> release_managed w e"
  by (auto simp: asserted_edges_def release_managed_def release_end_def own_rows_def
      issued_on_edge_def credited_to_edge_def credited_on_edge_def split: option.splits)

lemma other_edges_not_managed:
  "e \<in> derived_edges w' \<Longrightarrow> \<not> release_managed w e" "e \<in> same_as_edges N w' \<Longrightarrow> \<not> release_managed w e"
  by (auto simp: derived_edges_def same_as_edges_def release_managed_def)

lemma managed_plain:
  assumes "keeps_ok w" and "edge_ok e" and "release_end e = rnode w" and "\<not> stale_release w e"
    and "e_rel e \<in> {BY, ON, DERIVED_FROM, IS}"
  shows "e \<in> asserted_edges w"
proof -
  have null: "PNone \<notin> set (map fst (rw_artists w))" "PNone \<notin> set (map fst (rw_labels w))"
    "PNone \<notin> set (rw_masters w)" "PNone \<notin> set (rw_keep_genres w)" "PNone \<notin> set (rw_keep_styles w)"
    using assms(1) by (force simp: keeps_ok_def)+
  obtain t lb v where e: "e = plain (rnode w) t (lb, v)"
    using assms(2,3,5) by (cases e) (auto simp: release_end_def)
  note fresh = assms(4) [unfolded stale_release_def de_Morgan_disj]
  have kept: "v \<in> set keep" if "\<not> stale (rnode w) t lb keep e" and "PNone \<notin> set keep" for keep
    using that by (simp add: e stale_def not_in_def)
  have "t \<in> {BY, ON, DERIVED_FROM, IS}" and "lb \<in> fst (snd (schema t))"
    using assms(2,5) by (auto simp: e)
  then consider "t = BY" "lb = Artist" | "t = ON" "lb = Label" | "t = DERIVED_FROM" "lb = Master"
    | "t = IS" "lb = Genre" | "t = IS" "lb = Style" by auto
  then consider "t = BY" "lb = Artist" "v \<in> set (map fst (rw_artists w))"
    | "t = ON" "lb = Label" "v \<in> set (map fst (rw_labels w))"
    | "t = DERIVED_FROM" "lb = Master" "v \<in> set (rw_masters w)"
    | "t = IS" "lb = Genre" "v \<in> set (rw_keep_genres w)"
    | "t = IS" "lb = Style" "v \<in> set (rw_keep_styles w)"
    by cases (use fresh null kept in metis)+
  then show ?thesis
    unfolding e using assms(1) by cases (auto simp: asserted_edges_def keeps_ok_def image_iff)
qed

lemma managed_media:
  assumes "own_rows w" and "edge_ok e" and "release_end e = rnode w" and "\<not> stale_release w e"
    and "e_rel e = ISSUED_ON" and "e_key e = [MEDIA_SOURCE]"
  shows "e \<in> asserted_edges w"
proof -
  obtain v where e: "e = Edge (rnode w) ISSUED_ON (Medium, v) [MEDIA_SOURCE]"
    using assms(2,3,5,6) by (cases e) (auto simp: release_end_def)
  with assms(4) obtain r where "r \<in> set (rw_media w)" "v = PStr (mr_medium r)"
    by (auto simp: stale_release_def stale_issued_on_def prune_record_def stale_def not_in_def)
  with assms(1) e show ?thesis
    by (auto simp: asserted_edges_def issued_on_edge_def own_rows_def medium_node_def image_iff)
qed

lemma managed_companies:
  assumes "own_rows w" and "edge_ok e" and "release_end e = rnode w" and "\<not> stale_release w e"
    and "e_rel e = CREDITED_TO" and "rw_companies w = Some rs" and "e_key e \<noteq> []" and "last (e_key e) = COMPANY_SOURCE"
  shows "e \<in> asserted_edges w"
proof -
  obtain role v where e: "e = Edge (rnode w) CREDITED_TO (Company, v) [role, COMPANY_SOURCE]"
    using assms(2,3,5,7,8) by (cases e) (auto simp: release_end_def length_Suc_conv numeral_2_eq_2)
  with assms(4,6) obtain r where "r \<in> set rs" "v = PStr (cr_id r)" "role = PStr (cr_role r)"
    by (auto simp: stale_release_def stale_credited_to_def credit_prune_record_def)
  with assms(1,6) e show ?thesis
    by (auto simp: asserted_edges_def credited_to_edge_def own_rows_def company_node_def image_iff)
qed

lemma managed_credits:
  assumes "own_rows w" and "edge_ok e" and "release_end e = rnode w" and "\<not> stale_release w e"
    and "e_rel e = CREDITED_ON"
  shows "e \<in> asserted_edges w"
proof -
  obtain v role where e: "e = Edge (Person, v) CREDITED_ON (rnode w) [role]"
    using assms(2,3,5) by (cases e) (auto simp: release_end_def length_Suc_conv)
  with assms(4) obtain r where "r \<in> set (rw_credits w)" "v = cd_name r" "role = cd_role r"
    by (auto simp: stale_release_def stale_credited_on_def credited_on_prune_record_def)
  with assms(1) e show ?thesis
    by (auto simp: asserted_edges_def credited_on_edge_def own_rows_def person_node_def image_iff)
qed

lemma managed_kept:
  "edge_ok e \<Longrightarrow> own_rows w \<Longrightarrow> keeps_ok w \<Longrightarrow> release_managed w e \<Longrightarrow> \<not> stale_release w e \<Longrightarrow>
     e \<in> asserted_edges w"
  unfolding release_managed_def
  by (elim conjE disjE) (auto intro: managed_plain managed_media managed_companies managed_credits)

section \<open>The contract\<close>

lemma settled_contract:
  assumes "\<forall>e \<in> edges g. edge_ok e" and "own_rows w" and "keeps_ok w"
    and "edges g' = {e \<in> edges g. \<not> stale_release w e} \<union> asserted_edges w \<union> derived_edges w \<union>
      same_as_edges (nodes g') w"
  shows "{e \<in> edges g'. release_managed w e} = asserted_edges w"
    and "{e \<in> edges g'. \<not> release_managed w e} =
      {e \<in> edges g. \<not> release_managed w e} \<union> derived_edges w \<union> same_as_edges (nodes g') w"
  using assms(1) managed_kept [OF _ assms(2,3)] asserted_managed [OF assms(2)] stale_managed [of w]
    other_edges_not_managed(1) [where w = w and w' = w]
    other_edges_not_managed(2) [where w = w and w' = w and N = "nodes g'"]
  unfolding assms(4) by blast+

end
