(* ===== verification/Samples.thy ===== *)
theory Samples
  imports ReleaseSpec "HOL-Library.Code_Target_Nat" "HOL-Library.Code_Target_Int"
begin

text \<open>
  Concrete inputs for the witnesses: a runtime whose external functions are small concrete
  ones, and records of each kind as the extractor sends them.
\<close>

section \<open>A concrete runtime\<close>

text \<open>
  The media mapper yields one vinyl item per format, descriptions are none, names are
  stripped as they are, every role is production, digests are 64 zeros.
\<close>

definition demo_media :: "pyval list \<Rightarrow> py_error + (pystr \<times> pyval) list" where
  "demo_media formats = Inr
     [(lit ''items'', PList (map (\<lambda>_. PDict [(lit ''medium'', PStr (lit ''vinyl_lp'')),
                                        (lit ''family'', PStr (lit ''vinyl'')), (lit ''qty'', PInt 1)]) formats)),
      (lit ''families'', PList (if formats = [] then [] else [PStr (lit ''vinyl'')]))]"

definition demo_rt :: runtime where
  "demo_rt = \<lparr>map_discogs_formats = demo_media, flatten_descriptions = (\<lambda>_. Inr []),
     legacy_format_names_to_media = (\<lambda>_. demo_media []), medium_label = (\<lambda>_. None),
     strip_person_name = py_strip, categorize_role = (\<lambda>_. Inr (lit ''production'')),
     sha256_hexdigest = (\<lambda>_. replicate 64 48), casefold = id, repr_other = (\<lambda>_. [])\<rparr>"

section \<open>Records\<close>

definition ref :: "int \<Rightarrow> string \<Rightarrow> pyval" where
  "ref i n = PDict [(lit ''id'', PInt i), (lit ''name'', PStr (lit n))]"

definition demo_release :: "int \<Rightarrow> string \<Rightarrow> pydict" where
  "demo_release i sha =
     [(lit ''id'', PInt i), (lit ''sha256'', PStr (lit sha)), (lit ''title'', PStr (lit ''T'')),
      (lit ''artists'', PList [ref 7 ''A'']), (lit ''labels'', PList [ref 9 ''L'']),
      (lit ''genres'', PList [PStr (lit ''Rock'')]), (lit ''styles'', PList [PStr (lit ''Punk'')]),
      (lit ''formats'', PList [PDict [(lit ''name'', PStr (lit ''Vinyl''))]]),
      (lit ''extraartists'', PList [PDict [(lit ''id'', PInt 7), (lit ''name'', PStr (lit ''E'')),
                                      (lit ''role'', PStr (lit ''Mix''))]])]"

section \<open>What the samples read as\<close>

text \<open>A concrete write: reading the record is evaluated, the statements then cannot fail.\<close>

lemma release_runs:
  assumes w: "single_writes rt d = Inr w" and "clean_terms d" and "dhas d ''sha256''"
    and "succeeds (format_names d)" and "rw_id w \<noteq> PNone" and "outdated g d"
  shows "\<exists>g'. process_release rt d g = Inr (True, g')"
proof -
  from process_release_total [OF assms(1-5)] obtain b g' where "process_release rt d g = Inr (b, g')"
    unfolding succeeds_iff by fastforce
  with single_step [OF this] assms(6) show ?thesis by auto
qed

lemma succeeds_projr: "succeeds r \<Longrightarrow> r = Inr (projr r)"
  by (cases r) (simp_all add: succeeds_def)

definition demo_writes :: release_writes where
  "demo_writes = projr (single_writes demo_rt (demo_release 1 ''a''))"

lemma demo_reads: "single_writes demo_rt (demo_release 1 ''a'') = Inr demo_writes"
proof -
  have "succeeds (single_writes demo_rt (demo_release 1 ''a''))" by code_simp
  then show ?thesis unfolding demo_writes_def by (rule succeeds_projr)
qed

lemma demo_release_facts:
  "clean_terms (demo_release 1 ''a'')" "dhas (demo_release 1 ''a'') ''sha256''"
  "succeeds (format_names (demo_release 1 ''a''))" "dget (demo_release 1 ''a'') ''id'' = PInt 1"
  by code_simp+

lemma outdated_empty: "outdated empty_graph d"
  by (simp add: outdated_def hash_gate_def existing_hash_def empty_graph_def)

lemma demo_release_runs: "\<exists>g'. process_release demo_rt (demo_release 1 ''a'') empty_graph = Inr (True, g')"
  using demo_release_facts single_writes_id [OF demo_reads]
  by (intro release_runs [OF demo_reads] outdated_empty) simp_all

section \<open>Small records of the other kinds\<close>

definition demo_artist :: pydict where
  "demo_artist = [(lit ''id'', PInt 7), (lit ''sha256'', PStr (lit ''h'')), (lit ''name'', PStr (lit ''A'')),
     (lit ''members'', PList [ref 8 ''M'']), (lit ''aliases'', PList [ref 6 ''B''])]"

definition demo_label :: pydict where
  "demo_label = [(lit ''id'', PInt 9), (lit ''sha256'', PStr (lit ''h'')), (lit ''name'', PStr (lit ''L'')),
     (lit ''parentLabel'', ref 10 ''P''), (lit ''sublabels'', PList [ref 11 ''S''])]"

definition demo_master :: pydict where
  "demo_master = [(lit ''id'', PInt 5), (lit ''sha256'', PStr (lit ''h'')), (lit ''title'', PStr (lit ''M'')),
     (lit ''artists'', PList [ref 7 ''A'']), (lit ''genres'', PList [PStr (lit ''Rock'')])]"

definition reports :: "bool \<Rightarrow> 'e + (bool \<times> graph) \<Rightarrow> bool" where
  "reports b r = (case r of Inl _ \<Rightarrow> False | Inr (c, _) \<Rightarrow> c = b)"

lemma reports_iff: "reports b r \<longleftrightarrow> (\<exists>g. r = Inr (b, g))"
  by (cases r) (auto simp: reports_def)

lemma demo_artist_runs: "reports True (process_artist demo_rt demo_artist empty_graph)"
  by code_simp

lemma demo_label_runs: "reports True (process_label demo_label empty_graph)"
  by code_simp

lemma demo_master_runs: "reports True (process_master demo_master empty_graph)"
  by code_simp

section \<open>A batch\<close>

definition small_release :: "int \<Rightarrow> string \<Rightarrow> int \<Rightarrow> pydict" where
  "small_release i sha artist =
     [(lit ''id'', PInt i), (lit ''sha256'', PStr (lit sha)), (lit ''artists'', PList [ref artist ''A''])]"

definition demo_batch :: "pydict list" where
  "demo_batch = [small_release 1 ''a'' 7, small_release 2 ''b'' 8]"

lemma demo_batch_runs: "succeeds (process_releases_batch demo_rt demo_batch empty_graph)"
  by code_simp

text \<open>A decidable form of the conditions under which a release is written on any graph.\<close>

definition writable :: "'z runtime_scheme \<Rightarrow> pydict \<Rightarrow> bool" where
  "writable rt d \<longleftrightarrow> succeeds (single_writes rt d) \<and> clean_terms d \<and> dhas d ''sha256'' \<and>
     succeeds (format_names d) \<and> dget d ''id'' \<noteq> PNone"

lemma writable_run: "list_all (writable rt) ds \<Longrightarrow> succeeds (release_run rt ds g)"
  unfolding release_run_def
proof (rule succeeds_fold)
  fix d and h :: graph assume "list_all (writable rt) ds" and "d \<in> set ds"
  then have d: "writable rt d" by (auto simp: list_all_iff)
  then obtain w where w: "single_writes rt d = Inr w" by (auto simp: writable_def succeeds_iff)
  with d single_writes_id [OF w] have "succeeds (process_release rt d h)"
    by (intro process_release_total [OF w]) (simp_all add: writable_def)
  then show "succeeds (mapR snd (process_release rt d h))" by (auto simp: succeeds_iff)
qed

lemma demo_batch_writable: "list_all (writable demo_rt) demo_batch"
  by code_simp

lemma demo_batch_ok:
  "list_all has_id demo_batch" "list_all stamped demo_batch" "list_all clean_terms demo_batch"
  "distinct (map (\<lambda>d. py_str demo_rt (dget d ''id'')) demo_batch)"
  by code_simp+

end
