(* ===== verification/ProjectionTheorems.thy ===== *)
theory ProjectionTheorems
  imports Samples
begin

text \<open>
  The properties of the graph projection: what one write of a release leaves, how both write
  paths agree, what redelivery does, which invariant every write keeps.
\<close>

section \<open>One release\<close>

text \<open>
  C1. A release write is exact. When the processor reports a change, the edges the release
  manages (its artists, labels, master, genres, styles, credits, and this provider's media
  and companies) are afterwards precisely those its record asserts: nothing stale survives,
  nothing asserted is missing.
\<close>

theorem release_exact:
  assumes "graph_wf g" and "process_release rt record g = Inr (True, g')"
  shows "\<exists>w. single_writes rt record = Inr w \<and> {e \<in> edges g'. release_managed w e} = asserted_edges w"
  using assms(2)
proof (rule process_release_effect)
  fix w assume w: "single_writes rt record = Inr w"
    and e: "edges g' = {e \<in> edges g. \<not> stale_release w e} \<union> asserted_edges w \<union> derived_edges w \<union>
      same_as_edges (nodes g') w"
  have "\<forall>e \<in> edges g. edge_ok e" using assms(1) by (simp add: graph_wf_def)
  from settled_contract(1) [OF this single_writes_own_rows [OF w] single_writes_keeps_ok [OF w] e] w
  show ?thesis by blast
qed

lemma release_exact_witness:
  "\<exists>g'. process_release demo_rt (demo_release 1 ''a'') empty_graph = Inr (True, g') \<and>
     {e \<in> edges g'. release_managed demo_writes e} = asserted_edges demo_writes"
proof -
  obtain g' where run: "process_release demo_rt (demo_release 1 ''a'') empty_graph = Inr (True, g')"
    using demo_release_runs by blast
  from release_exact [OF graph_wf_empty run] demo_reads run show ?thesis by auto
qed

text \<open>
  C2. A release write touches nothing else. Every edge the release does not manage, among
  them the edges of other releases, of masters, and the media and company edges another
  provider asserted, is there afterwards exactly if it was there before or is one of the
  edges between other nodes the record implies (medium to family, style to genre, credited
  person to its artist).
\<close>

theorem release_frame:
  assumes "graph_wf g" and "process_release rt record g = Inr (True, g')"
  shows "\<exists>w. single_writes rt record = Inr w \<and>
    {e \<in> edges g'. \<not> release_managed w e} =
      {e \<in> edges g. \<not> release_managed w e} \<union> derived_edges w \<union> same_as_edges (nodes g') w"
  using assms(2)
proof (rule process_release_effect)
  fix w assume w: "single_writes rt record = Inr w"
    and e: "edges g' = {e \<in> edges g. \<not> stale_release w e} \<union> asserted_edges w \<union> derived_edges w \<union>
      same_as_edges (nodes g') w"
  have "\<forall>e \<in> edges g. edge_ok e" using assms(1) by (simp add: graph_wf_def)
  from settled_contract(2) [OF this single_writes_own_rows [OF w] single_writes_keeps_ok [OF w] e] w
  show ?thesis by blast
qed

lemma release_frame_witness:
  "\<exists>g'. process_release demo_rt (demo_release 1 ''a'') empty_graph = Inr (True, g') \<and>
     {e \<in> edges g'. \<not> release_managed demo_writes e} =
       derived_edges demo_writes \<union> same_as_edges (nodes g') demo_writes"
proof -
  obtain g' where run: "process_release demo_rt (demo_release 1 ''a'') empty_graph = Inr (True, g')"
    using demo_release_runs by blast
  from release_frame [OF graph_wf_empty run] demo_reads run show ?thesis
    by (auto simp: empty_graph_def)
qed



section \<open>Redelivery\<close>

text \<open>
  C10. Releases are idempotent under redelivery: after a release has been processed, any
  number of further deliveries of the same record are recognised by the stored hash, and
  leave the graph as it is.
\<close>

theorem release_redelivery:
  assumes "process_release rt record g = Inr (b, g')"
  shows "foldE (\<lambda>d g. mapR snd (process_release rt d g)) (replicate n record) g' = Inr g' \<and>
    process_release rt record g' = Inr (False, g')"
  using release.replayed [OF assms] release.redelivered [OF assms] by (rule conjI)

lemma release_redelivery_witness:
  "\<exists>g'. process_release demo_rt (demo_release 1 ''a'') empty_graph = Inr (True, g') \<and>
     foldE (\<lambda>d g. mapR snd (process_release demo_rt d g)) (replicate 3 (demo_release 1 ''a'')) g' = Inr g'"
proof -
  obtain g' where run: "process_release demo_rt (demo_release 1 ''a'') empty_graph = Inr (True, g')"
    using demo_release_runs by blast
  with release_redelivery [OF run, of 3] show ?thesis by blast
qed

text \<open>
  Artists, labels and masters are idempotent under redelivery in the same way, however
  many copies follow.
\<close>

theorem entity_redelivery:
  assumes "process_artist rt a g = Inr (b, g')" and "process_label l h = Inr (c, h')"
    and "process_master m k = Inr (d, k')"
  shows "foldE (\<lambda>d g. mapR snd (process_artist rt d g)) (replicate n a) g' = Inr g' \<and>
    process_artist rt a g' = Inr (False, g') \<and>
    foldE (\<lambda>d g. mapR snd (process_label d g)) (replicate n l) h' = Inr h' \<and>
    process_label l h' = Inr (False, h') \<and>
    foldE (\<lambda>d g. mapR snd (process_master d g)) (replicate n m) k' = Inr k' \<and>
    process_master m k' = Inr (False, k')"
  using artist.replayed [OF assms(1)] artist.redelivered [OF assms(1)] label.replayed [OF assms(2)]
    label.redelivered [OF assms(2)] master.replayed [OF assms(3)] master.redelivered [OF assms(3)] by blast

lemma entity_redelivery_witness:
  "\<exists>g' h' k'. process_artist demo_rt demo_artist empty_graph = Inr (True, g') \<and>
     process_artist demo_rt demo_artist g' = Inr (False, g') \<and>
     process_label demo_label empty_graph = Inr (True, h') \<and> process_label demo_label h' = Inr (False, h') \<and>
     process_master demo_master empty_graph = Inr (True, k') \<and> process_master demo_master k' = Inr (False, k')"
proof -
  obtain g' h' k' where run: "process_artist demo_rt demo_artist empty_graph = Inr (True, g')"
    "process_label demo_label empty_graph = Inr (True, h')" "process_master demo_master empty_graph = Inr (True, k')"
    using demo_artist_runs demo_label_runs demo_master_runs by (auto simp: reports_iff)
  with entity_redelivery [OF run] show ?thesis by blast
qed

section \<open>The schema\<close>

text \<open>The graphs the service can produce from an empty database.\<close>

inductive graph_step :: "'z runtime_scheme \<Rightarrow> graph \<Rightarrow> graph \<Rightarrow> bool" for rt where
  artist: "process_artist rt d g = Inr (b, g') \<Longrightarrow> graph_step rt g g'"
| label: "process_label d g = Inr (b, g') \<Longrightarrow> graph_step rt g g'"
| master: "process_master d g = Inr (b, g') \<Longrightarrow> graph_step rt g g'"
| release: "process_release rt d g = Inr (b, g') \<Longrightarrow> graph_step rt g g'"
| batch: "batch_write rt key messages g = Inr (out, g') \<Longrightarrow> graph_step rt g g'"

lemma graph_step_wf: "graph_step rt g g' \<Longrightarrow> graph_wf g \<Longrightarrow> graph_wf g'"
  by (induction rule: graph_step.induct)
    (auto dest: reports_wf_processors [unfolded reports_wf_def, rule_format] graph_wf_batch_write)

text \<open>
  C4. Every reachable graph is well-formed: whatever records arrive in whatever order on
  either path, starting from an empty database no edge dangles, every edge joins the labels
  the schema allows, and no node or edge carries a null key.
\<close>

theorem reachable_graph_wf:
  assumes "(graph_step rt)\<^sup>*\<^sup>* empty_graph g"
  shows "graph_wf g"
  using assms by (induction rule: rtranclp_induct) (auto simp: graph_wf_empty intro: graph_step_wf)

lemma reachable_graph_wf_witness:
  "\<exists>g'. process_release demo_rt (demo_release 1 ''a'') empty_graph = Inr (True, g') \<and> graph_wf g'"
proof -
  obtain g' where run: "process_release demo_rt (demo_release 1 ''a'') empty_graph = Inr (True, g')"
    using demo_release_runs by blast
  then have "(graph_step demo_rt)\<^sup>*\<^sup>* empty_graph g'" by (blast intro: graph_step.release)
  from reachable_graph_wf [OF this] run show ?thesis by blast
qed

section \<open>The two write paths\<close>




text \<open>
  C16. The result list of a batch has one settlement per message, in order: a message
  without a usable id is rejected, every other one acknowledged, also those skipped by
  their hash.
\<close>

theorem batch_settlements:
  assumes "batch_write rt key messages g = Inr (out, g')"
  shows "length out = length messages \<and>
    (\<forall>i < length messages. out ! i =
       (if (if key = ''masters'' then has_master_id else has_id) (messages ! i) then ACK else REJECT))"
proof -
  have rejected: "i \<in> nack_indices usable messages \<longleftrightarrow> i < length messages \<and> \<not> usable (messages ! i)"
    for usable :: "pydict \<Rightarrow> bool" and i
    by (force simp: nack_indices_def in_set_enumerate_eq)
  from assms have "out = batch_results (length messages)
      (nack_indices (if key = ''masters'' then has_master_id else has_id) messages)"
    by (auto simp: batch_write_def process_artists_batch_def process_labels_batch_def
        process_masters_batch_def process_releases_batch_def Let_def split: if_splits)
  then show ?thesis by (simp add: batch_results_def rejected)
qed

lemma batch_settlements_witness:
  "\<exists>out g'. batch_write demo_rt ''releases'' demo_batch empty_graph = Inr (out, g') \<and> out = [ACK, ACK]"
proof -
  obtain r gb where "process_releases_batch demo_rt demo_batch empty_graph = Inr (r, gb)"
    using demo_batch_runs unfolding succeeds_iff by fastforce
  then obtain out where run: "batch_write demo_rt ''releases'' demo_batch empty_graph = Inr (out, gb)"
    by (simp add: batch_write_def)
  from batch_settlements [OF run] have "length out = 2" "out ! 0 = ACK" "out ! 1 = ACK"
    using demo_batch_ok(1) by (auto simp: demo_batch_def)
  then have "out = [ACK, ACK]" by (auto simp: numeral_2_eq_2 length_Suc_conv)
  with run show ?thesis by blast
qed

end
