(* ===== verification/RowTheorems.thy ===== *)
theory RowTheorems
  imports Samples
begin

text \<open>
  The properties of the rows a record is projected into: media counts, company credits,
  person credits, and the identities they are keyed by.
\<close>

section \<open>Media\<close>

text \<open>
  The media rows of a release have one row per medium its usable items name, each with
  the sum of the items' quantities (an item without a usable quantity counts once), so every
  quantity is positive.
\<close>

theorem media_rows_counted:
  assumes "issued_on_rows rt i block = Inr rows" and "py_iter (py_or (dget block ''items'') (PList [])) = Inr items"
  shows "distinct (map mr_medium rows) \<and>
    (\<forall>m. m \<in> mr_medium ` set rows \<longleftrightarrow> (\<exists>x \<in> set items. item_medium x = Some m)) \<and>
    (\<forall>r \<in> set rows. mr_release r = i \<and> 1 \<le> mr_qty r \<and>
       mr_qty r = sum_list (map (item_count (mr_medium r)) items))"
  using assms(1)
proof (rule issued_on_rows_dict)
  fix items' d assume i: "py_iter (py_or (dget block ''items'') (PList [])) = Inr items'"
    and f: "foldE (\<lambda>x d. Inr (issued_on_step rt i x d)) items' [] = (Inr d :: py_error + _)"
    and d: "d = fold (issued_on_step rt i) items' []" and rows: "rows = map snd d"
    and keys: "map mr_medium rows = map fst d"
  from i assms(2) have items: "items' = items" by simp
  have dist: "distinct (map fst d)" by (rule media.loop_distinct [OF f])
  have set: "m \<in> fst ` set d \<longleftrightarrow> (\<exists>x \<in> set items. item_medium x = Some m)" for m
    using media.loop_key_set [OF f] items by simp
  have "mr_release r = i \<and> 1 \<le> mr_qty r \<and> mr_qty r = sum_list (map (item_count (mr_medium r)) items)"
    if r: "r \<in> set rows" for r
  proof -
    from r rows obtain k where k: "(k, r) \<in> set d" by auto
    then have ok: "media_row_ok rt i k r" by (rule media.loop_ok [OF f])
    have "medium_total d k = mr_qty r" using k dist by (simp add: medium_total_def)
    moreover have "medium_total d k = sum_list (map (item_count k) items)"
      using medium_total_fold [of rt i items "[]" k] by (simp add: d items medium_total_def)
    ultimately show ?thesis using ok by (simp add: media_row_ok_def)
  qed
  with dist set keys show ?thesis by (metis list.set_map)
qed

definition two_vinyl :: pydict where
  "two_vinyl = [(lit ''items'', PList [PDict [(lit ''medium'', PStr [1]), (lit ''family'', PStr [2]), (lit ''qty'', PInt 2)],
     PDict [(lit ''medium'', PStr [1]), (lit ''family'', PStr [2])]])]"

lemma media_rows_counted_witness:
  "\<exists>rows. issued_on_rows demo_rt (PInt 1) two_vinyl = Inr rows \<and> distinct (map mr_medium rows) \<and>
     map mr_qty rows = [3]"
proof -
  have "succeeds (issued_on_rows demo_rt (PInt 1) two_vinyl)" by code_simp
  then obtain rows where rows: "issued_on_rows demo_rt (PInt 1) two_vinyl = Inr rows"
    by (auto simp: succeeds_iff)
  have "case issued_on_rows demo_rt (PInt 1) two_vinyl of Inl _ \<Rightarrow> False | Inr rows \<Rightarrow> map mr_qty rows = [3]"
    by code_simp
  moreover have "py_iter (py_or (dget two_vinyl ''items'') (PList [])) =
      Inr (projr (py_iter (py_or (dget two_vinyl ''items'') (PList []))))"
    by (rule succeeds_projr) code_simp
  ultimately show ?thesis using rows media_rows_counted [OF rows] by auto
qed

section \<open>Companies\<close>

text \<open>
  The company rows of a release carry each (company, role) pair once, exactly the pairs
  its items credit, and no row has an empty identity, name, role or category.
\<close>

theorem company_rows_distinct:
  assumes "credited_to_rows rt i block = Inr rows" and "py_iter (py_or (dget block ''items'') (PList [])) = Inr items"
  shows "distinct (map (\<lambda>r. (cr_id r, cr_role r)) rows) \<and>
    (\<forall>k. k \<in> (\<lambda>r. (cr_id r, cr_role r)) ` set rows \<longleftrightarrow> (\<exists>x \<in> set items. item_credit rt x = Inr (Some k))) \<and>
    (\<forall>r \<in> set rows. cr_release r = i \<and> cr_id r \<noteq> [] \<and> cr_name r \<noteq> [] \<and> cr_role r \<noteq> [] \<and> cr_category r \<noteq> [])"
  using assms(1)
proof (rule credited_to_rows_dict)
  fix items' d assume "py_iter (py_or (dget block ''items'') (PList [])) = Inr items'"
    and f: "foldE (credited_to_step rt i) items' [] = Inr d" and rows: "rows = map snd d"
    and keys: "map (\<lambda>r. (cr_id r, cr_role r)) rows = map fst d"
  with assms(2) have items: "items' = items" by simp
  have "\<forall>r \<in> set rows. cr_release r = i \<and> cr_id r \<noteq> [] \<and> cr_name r \<noteq> [] \<and> cr_role r \<noteq> [] \<and> cr_category r \<noteq> []"
    using companies.loop_ok [OF f] rows by (fastforce simp: company_row_ok_def)
  moreover have "distinct (map (\<lambda>r. (cr_id r, cr_role r)) rows)"
    unfolding keys by (rule companies.loop_distinct [OF f])
  moreover have "(\<lambda>r. (cr_id r, cr_role r)) ` set rows = fst ` set d" by (metis keys list.set_map)
  ultimately show ?thesis using companies.loop_key_set [OF f] items by simp
qed

definition two_companies :: pydict where
  "two_companies = [(lit ''items'', PList
     [PDict [(lit ''discogs_id'', PInt 5), (lit ''name'', PStr [65]), (lit ''role'', PStr [66])],
      PDict [(lit ''discogs_id'', PStr [53]), (lit ''name'', PStr [65]), (lit ''role'', PStr [66])]])]"

lemma company_rows_distinct_witness:
  "\<exists>rows. credited_to_rows demo_rt (PInt 1) two_companies = Inr rows \<and> length rows = 1 \<and>
     distinct (map (\<lambda>r. (cr_id r, cr_role r)) rows)"
proof -
  have "case credited_to_rows demo_rt (PInt 1) two_companies of Inl _ \<Rightarrow> False | Inr rows \<Rightarrow> length rows = 1"
    by code_simp
  then obtain rows where rows: "credited_to_rows demo_rt (PInt 1) two_companies = Inr rows" "length rows = 1"
    by (auto split: sum.splits)
  have "py_iter (py_or (dget two_companies ''items'') (PList [])) =
      Inr (projr (py_iter (py_or (dget two_companies ''items'') (PList []))))"
    by (rule succeeds_projr) code_simp
  from company_rows_distinct [OF rows(1) this] rows show ?thesis by blast
qed

text \<open>
  A company without a usable Discogs id is identified by its name up to case folding
  and white space: names with the same folded words give the same identity, however they
  are spaced.
\<close>

theorem company_identity_by_words:
  assumes "discogs_id (dget d ''discogs_id'') = Inr None" and "discogs_id (dget d' ''discogs_id'') = Inr None"
    and "dget d ''name'' = PStr s" and "dget d' ''name'' = PStr s'" and "py_strip s \<noteq> []" and "py_strip s' \<noteq> []"
    and "casefold rt (py_join [32] (py_split (py_strip s))) = casefold rt (py_join [32] (py_split (py_strip s')))"
  shows "company_identity rt d = company_identity rt d' \<and> (\<exists>t. company_identity rt d = Inr (Some (DERIVED_ID_PREFIX @ t)))"
  using assms by (simp add: company_identity_def text_of_def)

lemma company_identity_by_words_witness:
  "company_identity demo_rt [(lit ''name'', PStr [65, 32, 32, 66])] =
     company_identity demo_rt [(lit ''name'', PStr [9, 65, 32, 66])]"
proof -
  let ?d = "[(lit ''name'', PStr [65, 32, 32, 66])]" and ?d' = "[(lit ''name'', PStr [9, 65, 32, 66])]"
  have *: "discogs_id (dget ?d ''discogs_id'') = Inr None" "discogs_id (dget ?d' ''discogs_id'') = Inr None"
    "dget ?d ''name'' = PStr [65, 32, 32, 66]" "dget ?d' ''name'' = PStr [9, 65, 32, 66]"
    by (simp_all add: dget_def discogs_id_def)
  have **: "py_strip [65, 32, 32, 66] \<noteq> []" "py_strip [9, 65, 32, 66] \<noteq> []"
    "casefold demo_rt (py_join [32] (py_split (py_strip [65, 32, 32, 66]))) =
      casefold demo_rt (py_join [32] (py_split (py_strip [9, 65, 32, 66])))"
    by code_simp+
  from company_identity_by_words [OF * **] show ?thesis by blast
qed

text \<open>
  A Discogs id means the same as a number and as the text of that number (within the
  interpreter's limit on the digits of a parsed integer), and only a positive one is usable.
\<close>

theorem discogs_id_number_text:
  assumes "length (dec_of_int i) \<le> int_max_str_digits"
  shows "discogs_id (PStr (dec_of_int i)) = discogs_id (PInt i) \<and>
    discogs_id (PInt i) = Inr (if 1 \<le> i then Some (dec_of_int i) else None)"
proof (cases "0 \<le> i")
  case True
  then have t: "dec_of_int i = dec_of_nat (nat i)" by (simp add: dec_of_int_def)
  with assms py_int_dec_of_nat [of "nat i"] True show ?thesis by (simp add: discogs_id_def)
next
  case False
  have "\<not> is_digit 45" by code_simp
  with False have "\<not> py_isdigit (dec_of_int i)" by (simp add: dec_of_int_def py_isdigit_def)
  with False show ?thesis by (simp add: discogs_id_def)
qed

lemma discogs_id_number_text_witness:
  "discogs_id (PStr (dec_of_int 271)) = discogs_id (PInt 271)"
proof -
  have "length (dec_of_int 271) \<le> int_max_str_digits" by code_simp
  from discogs_id_number_text [OF this] show ?thesis by blast
qed


section \<open>Person names\<close>

text \<open>
  C29. A person's name never exceeds the index limit. A name of at most 8000 bytes is kept; a
  longer one becomes a prefix of itself, cut between characters, and a suffix that carries
  the digest of the whole name: 8000 bytes at most, and at most three bytes unused.
\<close>

theorem person_name_bounded:
  assumes "list_all scalar name" and "hex_digest (sha256_hexdigest rt (concat (map utf8_char name)))"
  shows "\<exists>b. bound_person_name rt name = Inr b \<and> utf8_length b \<le> PERSON_NAME_MAX_BYTES \<and>
    (if utf8_length name \<le> PERSON_NAME_MAX_BYTES then b = name
     else PERSON_NAME_MAX_BYTES < utf8_length b + 4 \<and>
       (\<exists>p r. name = p @ r \<and> b = p @ bound_suffix rt name))"
proof (cases "utf8_length name \<le> PERSON_NAME_MAX_BYTES")
  case True
  with bound_person_name_short [OF assms(1)] show ?thesis by auto
next
  case False
  then have long: "PERSON_NAME_MAX_BYTES < utf8_length name" by simp
  let ?p = "fitting 7978 name"
  have suffix: "utf8_length (bound_suffix rt name) = 22"
    using bound_suffix_ascii [OF assms(2)] by (simp add: utf8_length_ascii)
  obtain r where "name = ?p @ r" using fitting_prefix by blast
  moreover have "utf8_length (?p @ bound_suffix rt name) \<le> PERSON_NAME_MAX_BYTES"
    using fitting_length [of 7978 name] suffix
    by (simp add: utf8_length_append) (simp add: utf8_length_def PERSON_NAME_MAX_BYTES_def)
  moreover have "PERSON_NAME_MAX_BYTES < utf8_length (?p @ bound_suffix rt name) + 4"
    using fitting_maximal [of 7978 name] long suffix
    by (simp add: utf8_length_append) (simp add: utf8_length_def PERSON_NAME_MAX_BYTES_def)
  ultimately show ?thesis using bound_person_name_long [OF assms(1) long assms(2)] False by auto
qed

lemma person_name_bounded_witness:
  "\<exists>b. bound_person_name demo_rt (lit ''Ana'') = Inr b \<and> b = lit ''Ana''"
proof -
  have *: "list_all scalar (lit ''Ana'')"
    "hex_digest (sha256_hexdigest demo_rt (concat (map utf8_char (lit ''Ana''))))"
    "utf8_length (lit ''Ana'') \<le> PERSON_NAME_MAX_BYTES"
    by code_simp+
  from person_name_bounded [OF *(1,2)] *(3) show ?thesis by auto
qed

text \<open>
  Two long names stay apart as far as their digests do: when the first sixteen digits of
  the digests differ, so do the bounded names, even if the names share their first 8000
  bytes.
\<close>

theorem long_names_distinct:
  assumes "bound_person_name rt s = Inr a" and "bound_person_name rt t = Inr b"
    and "list_all scalar s" and "list_all scalar t"
    and "PERSON_NAME_MAX_BYTES < utf8_length s" and "PERSON_NAME_MAX_BYTES < utf8_length t"
    and "hex_digest (sha256_hexdigest rt (concat (map utf8_char s)))"
    and "hex_digest (sha256_hexdigest rt (concat (map utf8_char t)))"
    and "take 16 (sha256_hexdigest rt (concat (map utf8_char s))) \<noteq> take 16 (sha256_hexdigest rt (concat (map utf8_char t)))"
  shows "a \<noteq> b"
proof
  assume "a = b"
  with assms have "fitting 7978 s @ bound_suffix rt s = fitting 7978 t @ bound_suffix rt t"
    by (simp add: bound_person_name_long)
  moreover have "length (bound_suffix rt s) = length (bound_suffix rt t)"
    by (simp add: bound_suffix_ascii(2) assms(7,8))
  ultimately have "bound_suffix rt s = bound_suffix rt t" by simp
  with assms(9) show False by (simp add: bound_suffix_def)
qed

definition sum_rt :: runtime where
  "sum_rt = demo_rt\<lparr>sha256_hexdigest := (\<lambda>bs. replicate 64 (48 + hd bs mod 2))\<rparr>"

lemma long_run:
  assumes "8000 < n" and "c < 128"
  shows "list_all scalar (replicate n c)" and "PERSON_NAME_MAX_BYTES < utf8_length (replicate n c)"
    and "sha256_hexdigest sum_rt (concat (map utf8_char (replicate n c))) = replicate 64 (48 + c mod 2)"
proof -
  show "list_all scalar (replicate n c)" using assms by (simp add: list_all_iff scalar_def surrogate_def)
  have "utf8_length (replicate n c) = n"
    using assms by (subst utf8_length_ascii) (simp_all add: list_all_iff)
  with assms show "PERSON_NAME_MAX_BYTES < utf8_length (replicate n c)" by (simp add: PERSON_NAME_MAX_BYTES_def)
  obtain k where "n = Suc k" using assms by (cases n) auto
  with assms show "sha256_hexdigest sum_rt (concat (map utf8_char (replicate n c))) = replicate 64 (48 + c mod 2)"
    by (simp add: sum_rt_def utf8_char_def)
qed

lemma hex_run: "hex_digest (replicate 64 (48 + c mod 2))"
  by (auto simp: hex_digest_def list_all_iff)

lemma long_names_distinct_witness:
  "\<exists>a b. bound_person_name sum_rt (replicate 8001 65) = Inr a \<and>
     bound_person_name sum_rt (replicate 8001 66) = Inr b \<and> a \<noteq> b"
proof -
  have n: "(8000 :: nat) < 8001" and c: "(65 :: nat) < 128" "(66 :: nat) < 128" by simp_all
  note s = long_run [OF n c(1)] and t = long_run [OF n c(2)]
  have hex: "hex_digest (sha256_hexdigest sum_rt (concat (map utf8_char (replicate 8001 65))))"
    "hex_digest (sha256_hexdigest sum_rt (concat (map utf8_char (replicate 8001 66))))"
    unfolding s(3) t(3) by (rule hex_run)+
  have "take 16 (replicate 64 (48 + 65 mod 2)) \<noteq> take 16 (replicate 64 (48 + 66 mod 2 :: nat))" by simp
  then have ne: "take 16 (sha256_hexdigest sum_rt (concat (map utf8_char (replicate 8001 65)))) \<noteq>
      take 16 (sha256_hexdigest sum_rt (concat (map utf8_char (replicate 8001 66))))"
    unfolding s(3) t(3) .
  note a = bound_person_name_long [OF s(1,2) hex(1)] and b = bound_person_name_long [OF t(1,2) hex(2)]
  from long_names_distinct [OF a b s(1) t(1) s(2) t(2) hex ne] a b show ?thesis by blast
qed

section \<open>Person credits\<close>

text \<open>
  Every credit row is complete: it names a person and a role, both non-empty, belongs to
  the release, and carries an artist id only when the credit is linked, so no merge of the
  credit statement can meet a null.
\<close>

theorem credit_rows_complete:
  assumes "person_credit_rows rt i v = Inr rows" and "r \<in> set rows"
  shows "truthy (cd_name r) \<and> truthy (cd_role r) \<and> cd_release r = i \<and>
    (cd_artist r = PNone \<or> truthy (cd_artist r)) \<and> succeeds (merge_credit_row r g)"
proof -
  note facts = person_credit_rows_facts [OF assms]
  have "succeeds (merge_credits [r] g)" using facts by (intro succeeds_merge_credits) simp
  then have "succeeds (merge_credit_row r g)" by (auto simp: merge_credits_def succeeds_iff)
  with facts show ?thesis by blast
qed

lemma credit_rows_complete_witness:
  "\<exists>r. person_credit_rows demo_rt (PInt 1) (PList [PDict [(lit ''name'', PStr [65]), (lit ''role'', PStr [66])]]) = Inr [r] \<and>
     truthy (cd_name r)"
proof -
  have "case person_credit_rows demo_rt (PInt 1) (PList [PDict [(lit ''name'', PStr [65]), (lit ''role'', PStr [66])]]) of
      Inl _ \<Rightarrow> False | Inr rows \<Rightarrow> length rows = 1"
    by code_simp
  then obtain rows where rows: "person_credit_rows demo_rt (PInt 1)
      (PList [PDict [(lit ''name'', PStr [65]), (lit ''role'', PStr [66])]]) = Inr rows" "length rows = 1"
    by (auto split: sum.splits)
  then obtain r where "rows = [r]" by (auto simp: length_Suc_conv)
  with rows credit_rows_complete [OF rows(1), of r empty_graph] show ?thesis by simp
qed

section \<open>Master references\<close>

text \<open>
  A usable master id is normal: it is neither blank nor the sentinel \<^verbatim>\<open>0\<close>, carries no
  outer white space, and normalizing it again, as the second reader of a reference does,
  changes nothing.
\<close>

theorem master_id_normal:
  assumes "usable_master_id v = Some t"
  shows "t \<noteq> [] \<and> t \<noteq> NO_MASTER_ID \<and> py_strip t = t \<and> usable_master_id (PStr t) = Some t"
  using usable_master_id_Some [OF assms] usable_master_id_fixed [OF assms] by blast

lemma master_id_normal_witness: "usable_master_id (PStr (lit ''42'')) = Some (lit ''42'')"
proof -
  have "py_strip (lit '' 42 '') = lit ''42''" "lit ''42'' \<noteq> NO_MASTER_ID" by code_simp+
  then have "usable_master_id (PStr (lit '' 42 '')) = Some (lit ''42'')" by (simp add: usable_master_id_def)
  from master_id_normal [OF this] show ?thesis by blast
qed

text \<open>
  What is unusable is exactly the number 0, a blank text, the text \<^verbatim>\<open>0\<close> up to white
  space, and every value that is neither a number nor a text; a number and its text are one
  id.
\<close>

theorem master_id_unusable:
  "(usable_master_id v = None \<longleftrightarrow>
     (case v of PInt i \<Rightarrow> i = 0 | PStr s \<Rightarrow> py_strip s = [] \<or> py_strip s = NO_MASTER_ID | _ \<Rightarrow> True)) \<and>
   usable_master_id (PInt i) = usable_master_id (PStr (dec_of_int i))"
  using usable_master_id_None_iff usable_master_id_int_text by blast

end
