(* ===== verification/PathDifferences.thy ===== *)
theory PathDifferences
  imports ProjectionTheorems
begin

text \<open>
  Where the code does not do what its own comments promise, or where the two write paths
  treat the same record differently. Each is stated as the code behaves.
\<close>

text \<open>
  An explicit null genre list aborts a release: every other field tolerates null, but
  the length of the genre list is taken without a default, so a changed release with a null
  there is never written, on any graph.
\<close>

theorem null_genres_abort:
  assumes "map_of record (lit ''genres'') = Some PNone"
  shows "process_release rt record g \<noteq> Inr (True, g') \<and> process_master record g \<noteq> Inr (True, g')"
proof -
  from assms have none: "genre_style_pairs record = Inl TypeError"
    by (simp add: genre_style_pairs_def dget_default_def)
  have "process_release rt record g \<noteq> Inr (True, g')"
  proof
    assume "process_release rt record g = Inr (True, g')"
    then obtain w where "single_writes rt record = Inr w" by (rule process_release_effect)
    then have "\<exists>ps. genre_style_pairs record = Inr ps" by (auto simp: single_writes_def)
    with none show False by simp
  qed
  moreover have "process_master record g \<noteq> Inr (True, g')"
    using none by (auto simp: process_master_def split: if_splits)
  ultimately show ?thesis ..
qed

lemma null_genres_abort_witness:
  "\<forall>g'. process_master [(lit ''id'', PInt 5), (lit ''sha256'', PStr [1]), (lit ''genres'', PNone)] empty_graph \<noteq>
     Inr (True, g')"
proof -
  have "map_of [(lit ''id'', PInt 5), (lit ''sha256'', PStr [1]), (lit ''genres'', PNone)] (lit ''genres'') = Some PNone"
    by simp
  from null_genres_abort [OF this] show ?thesis by blast
qed


definition sentinel_master :: pydict where
  "sentinel_master = [(lit ''id'', PStr NO_MASTER_ID), (lit ''sha256'', PStr (lit ''h''))]"

text \<open>
  The sentinel id is a master on one path only: the single-record processor writes a
  master node with the id \<^verbatim>\<open>0\<close>, which the batch rejects.
\<close>

theorem sentinel_master_differs:
  "(case process_master sentinel_master empty_graph of
      Inl _ \<Rightarrow> False | Inr (_, g') \<Rightarrow> (Master, PStr NO_MASTER_ID) \<in> nodes g') \<and>
   process_masters_batch rt [sentinel_master] g = Inr ({0}, g)"
proof
  show "case process_master sentinel_master empty_graph of
      Inl _ \<Rightarrow> False | Inr (_, g') \<Rightarrow> (Master, PStr NO_MASTER_ID) \<in> nodes g'"
    by code_simp
  have "py_strip NO_MASTER_ID = NO_MASTER_ID" by code_simp
  then have "\<not> has_master_id sentinel_master"
    using usable_master_id_None_iff [of "PStr NO_MASTER_ID"]
    by (simp add: has_master_id_def sentinel_master_def dget_def)
  then show "process_masters_batch rt [sentinel_master] g = Inr ({0}, g)"
    by (simp add: process_masters_batch_def nack_indices_def to_process_def Let_def)
qed

text \<open>
  A record without a hash, about a node without one, is acknowledged by the batch
  without being written; the single-record path fails on it.
\<close>

theorem missing_hash_differs:
  assumes "has_id d" and "dget d ''sha256'' = PNone" and "\<not> dhas d ''sha256''"
    and "(Artist, dget d ''id'') \<notin> nodes g"
  shows "process_artists_batch rt [d] g = Inr ({}, g) \<and> process_artist rt d g = Inl KeyError"
proof
  have "existing_hashes rt Artist g [d] = Map.empty"
    using assms(4) by (simp add: existing_hashes_def read_hash_def existing_hash_def)
  then have "\<not> changed rt (existing_hashes rt Artist g [d]) d"
    using assms(2) by (simp add: changed_def)
  with assms(1) show "process_artists_batch rt [d] g = Inr ({}, g)"
    by (simp add: process_artists_batch_def nack_indices_def to_process_def Let_def)
  have id: "py_item (PDict d) ''id'' = Inr (dget d ''id'')"
    using dget_truthy [of d "''id''"] assms(1) by (simp add: has_id_def)
  have sha: "py_item (PDict d) ''sha256'' = Inl KeyError"
    using assms(3) by (simp add: dhas_def split: option.splits)
  show "process_artist rt d g = Inl KeyError"
    using assms(4) by (simp add: process_artist_def id hash_gate_def existing_hash_def artist_upsert_def sha
        del: py_item.simps)
qed

lemma missing_hash_differs_witness:
  "process_artists_batch demo_rt [[(lit ''id'', PInt 7)]] empty_graph = Inr ({}, empty_graph) \<and>
     process_artist demo_rt [(lit ''id'', PInt 7)] empty_graph = Inl KeyError"
  by (rule missing_hash_differs) (simp_all add: has_id_def dget_def dhas_def empty_graph_def)

end
