(* ===== verification/CatalogNames.thy ===== *)
theory CatalogNames
  imports PyText "HOL-Library.Code_Target_Nat" "HOL-Library.Code_Target_Int"
begin

text \<open>
  \<^verbatim>\<open>graphinator/catalog_contract.py\<close> and \<^verbatim>\<open>graphinator/queue_names.py\<close>: the entities, the
  consumers, and the names of exchanges and queues. The exchange prefix is read from the
  environment when the module is loaded; here it is the first argument.
\<close>

definition ENTITY_TYPES :: "pystr list" where
  "ENTITY_TYPES = [lit ''artists'', lit ''labels'', lit ''masters'', lit ''releases'']"

definition DATA_TYPES :: "pystr list" where
  "DATA_TYPES = ENTITY_TYPES"

definition CONSUMERS :: "pystr list" where
  "CONSUMERS = [lit ''graphinator'', lit ''tableinator'']"

definition exchange_name :: "pystr \<Rightarrow> pystr \<Rightarrow> py_error + pystr" where
  "exchange_name prefix entity =
     (if entity \<notin> set ENTITY_TYPES then Inl ValueError
      else Inr (prefix @ lit ''-'' @ entity))"

definition queue_name :: "pystr \<Rightarrow> pystr \<Rightarrow> pystr \<Rightarrow> py_error + pystr" where
  "queue_name prefix consumer entity =
     (if consumer \<notin> set CONSUMERS then Inl ValueError
      else if entity \<notin> set ENTITY_TYPES then Inl ValueError
      else Inr (prefix @ lit ''-'' @ consumer @ lit ''-'' @ entity))"

definition dead_letter_exchange_name :: "pystr \<Rightarrow> pystr \<Rightarrow> pystr \<Rightarrow> py_error + pystr" where
  "dead_letter_exchange_name prefix consumer entity =
     bindE (queue_name prefix consumer entity) (\<lambda>q. Inr (q @ lit ''.dlx''))"

definition dead_letter_queue_name :: "pystr \<Rightarrow> pystr \<Rightarrow> pystr \<Rightarrow> py_error + pystr" where
  "dead_letter_queue_name prefix consumer entity =
     bindE (queue_name prefix consumer entity) (\<lambda>q. Inr (q @ lit ''.dlq''))"

text \<open>Everything the service and its sibling declare on the broker.\<close>

definition wire_names :: "pystr \<Rightarrow> (py_error + pystr) list" where
  "wire_names prefix =
     map (exchange_name prefix) ENTITY_TYPES @
     concat (map (\<lambda>c. concat (map (\<lambda>e. [queue_name prefix c e, dead_letter_exchange_name prefix c e,
       dead_letter_queue_name prefix c e]) ENTITY_TYPES)) CONSUMERS)"

lemma wire_names_prefix: "wire_names prefix = map (mapR (\<lambda>n. prefix @ n)) (wire_names [])"
  by (simp add: wire_names_def exchange_name_def queue_name_def dead_letter_exchange_name_def
      dead_letter_queue_name_def ENTITY_TYPES_def CONSUMERS_def)

lemma mapR_append_inj: "inj (mapR (\<lambda>n. (prefix :: pystr) @ n) :: py_error + pystr \<Rightarrow> py_error + pystr)"
  by (rule injI) (auto simp: mapR_def bindE_def split: sum.splits)

text \<open>
  Whatever the prefix, the names of the four exchanges and of the queues, dead-letter
  exchanges and dead-letter queues of both consumers are all defined and pairwise distinct; an
  unknown entity or consumer has none.
\<close>

theorem wire_names_distinct:
  "distinct (wire_names prefix) \<and> Inl ` UNIV \<inter> set (wire_names prefix) = {} \<and>
   (queue_name prefix c e = Inl ValueError) = (\<not> (c \<in> set CONSUMERS \<and> e \<in> set ENTITY_TYPES)) \<and>
   (dead_letter_exchange_name prefix c e = Inl ValueError) = (\<not> (c \<in> set CONSUMERS \<and> e \<in> set ENTITY_TYPES))"
proof -
  have "distinct (wire_names [])" by code_simp
  then have "distinct (wire_names prefix)"
    using mapR_append_inj by (subst wire_names_prefix) (simp add: distinct_map inj_on_def inj_def)
  moreover have "Inl ` UNIV \<inter> set (wire_names prefix) = {}"
    by (auto simp: wire_names_def exchange_name_def queue_name_def dead_letter_exchange_name_def
        dead_letter_queue_name_def ENTITY_TYPES_def CONSUMERS_def)
  ultimately show ?thesis
    by (simp add: queue_name_def dead_letter_exchange_name_def)
qed

end
