(* ===== verification/ServiceState.thy ===== *)
theory ServiceState
  imports CatalogNames "HOL-Library.List_Lexorder"
begin

text \<open>
  The state \<^verbatim>\<open>graphinator/graphinator.py\<close> keeps in module variables, the
  \<^verbatim>\<open>ExtractionCompletion\<close> nodes it keeps in the database, and how a statement on them
  can go wrong. Operations are functions from the state to a result and the next state.
\<close>

section \<open>Durable state\<close>

text \<open>
  One \<^verbatim>\<open>ExtractionCompletion\<close> node; an absent property is \<open>None\<close>. Times are whole numbers on
  one clock, the epoch at 0. Nothing keeps versions unique: nodes with the same version exist
  in older databases.
\<close>

datatype maintenance_status = Succeeded | Failed

record completion =
  cn_version :: "pystr option"
  cn_signals :: "pystr list option"
  cn_created_at :: "int option"
  cn_updated_at :: "int option"
  cn_maintained_at :: "int option"
  cn_status :: "maintenance_status option"
  cn_error :: "pystr option"
  cn_failed_at :: "int option"
  cn_stats_version :: "int option"

definition blank_completion :: "pystr \<Rightarrow> int \<Rightarrow> completion" where
  "blank_completion v now =
     \<lparr>cn_version = Some v, cn_signals = None, cn_created_at = Some now, cn_updated_at = None,
      cn_maintained_at = None, cn_status = None, cn_error = None, cn_failed_at = None, cn_stats_version = None\<rparr>"

text \<open>
  A statement runs; or it fails and leaves no trace; or it commits and its acknowledgement is
  lost, so that the caller sees an error all the same.
\<close>

datatype fault = Fine | Rejected | AnswerLost

section \<open>Process state\<close>

text \<open>A detached task and whether it is done; \<^verbatim>\<open>cancel\<close> only asks it to stop.\<close>

datatype task_state = Running | Cancelling | Finished

record task =
  task_version :: "pystr option"
  task_state :: task_state

definition task_done :: "task option \<Rightarrow> bool" where
  "task_done t \<longleftrightarrow> (case t of None \<Rightarrow> True | Some t \<Rightarrow> task_state t = Finished)"

text \<open>What the process does to the outside: settlements, hand-overs to the batch engine,
  pauses, timers, tasks, in order.\<close>

datatype event =
    Ack
  | RequeueOrDeadLetter nat
  | DeadLettered
  | Queued
  | FlushRequested pystr
  | BackoffWait
  | BackoffReset
  | OutageWait
  | OutageReset
  | TimerCancelled pystr
  | TimerScheduled pystr
  | MaintenanceStarted "pystr option"
  | RefreshStarted pystr
  | RefreshCancelled

record service =
  completions :: "completion list"
  faults :: "fault list"
  clock :: int
  graph_ready :: bool
  latch_signals :: "pystr set"
  latch_version :: "pystr option"
  completed_files :: "pystr set"
  extraction_signalled :: "pystr set"
  consumer_tags :: "(pystr \<times> pystr) list"
  cancel_timers :: "pystr set"
  queue_handles :: "pystr set"
  maintenance_task :: "task option"
  refresh_task :: "task option"
  trace :: "event list"

datatype service_error = DatabaseError | NotInitialized | NothingToStamp | ChannelError

type_synonym 'a action = "service \<Rightarrow> (service_error + 'a) \<times> service"

definition emit :: "event \<Rightarrow> service \<Rightarrow> service" where
  "emit e s = s\<lparr>trace := trace s @ [e]\<rparr>"

text \<open>One statement: its effect on the nodes, and whether the caller sees it succeed.\<close>

definition next_outcome :: "fault list \<Rightarrow> fault \<times> fault list" where
  "next_outcome fs = (case fs of [] \<Rightarrow> (Fine, []) | f # fs' \<Rightarrow> (f, fs'))"

definition statement :: "(completion list \<Rightarrow> completion list) \<Rightarrow> service \<Rightarrow> bool \<times> service" where
  "statement f s =
     (case next_outcome (faults s) of
        (Fine, fs) \<Rightarrow> (True, s\<lparr>completions := f (completions s), faults := fs\<rparr>)
      | (Rejected, fs) \<Rightarrow> (False, s\<lparr>faults := fs\<rparr>)
      | (AnswerLost, fs) \<Rightarrow> (False, s\<lparr>completions := f (completions s), faults := fs\<rparr>))"

definition bindA :: "'a action \<Rightarrow> ('a \<Rightarrow> 'b action) \<Rightarrow> 'b action" where
  "bindA m f s = (case m s of (Inl e, s') \<Rightarrow> (Inl e, s') | (Inr x, s') \<Rightarrow> f x s')"

lemma emit_simps [simp]:
  "completions (emit e s) = completions s" "faults (emit e s) = faults s" "clock (emit e s) = clock s"
  "graph_ready (emit e s) = graph_ready s" "latch_signals (emit e s) = latch_signals s"
  "latch_version (emit e s) = latch_version s" "completed_files (emit e s) = completed_files s"
  "extraction_signalled (emit e s) = extraction_signalled s" "consumer_tags (emit e s) = consumer_tags s"
  "cancel_timers (emit e s) = cancel_timers s" "queue_handles (emit e s) = queue_handles s"
  "maintenance_task (emit e s) = maintenance_task s" "refresh_task (emit e s) = refresh_task s"
  "trace (emit e s) = trace s @ [e]"
  by (simp_all add: emit_def)

lemma statement_cases:
  assumes "statement f s = (ok, s')"
  obtains (runs) fs where "s' = s\<lparr>completions := f (completions s), faults := fs\<rparr>"
  | (rejected) fs where "\<not> ok" and "s' = s\<lparr>faults := fs\<rparr>"
  using assms by (auto simp: statement_def split: prod.splits fault.splits)

lemma statement_ok: "statement f s = (True, s') \<Longrightarrow> \<exists>fs. s' = s\<lparr>completions := f (completions s), faults := fs\<rparr>"
  by (auto simp: statement_def split: prod.splits fault.splits)

lemma statement_quiet: "faults s = [] \<Longrightarrow> statement f s = (True, s\<lparr>completions := f (completions s)\<rparr>)"
  by (cases s) (simp add: statement_def next_outcome_def)

text \<open>A statement that only reads leaves the nodes.\<close>

lemma statement_read: "statement id s = (ok, s') \<Longrightarrow> \<exists>fs. s' = s\<lparr>faults := fs\<rparr>"
  by (erule statement_cases) auto

text \<open>A service that has just started over given nodes.\<close>

definition fresh_service :: "completion list \<Rightarrow> service" where
  "fresh_service ms =
     \<lparr>completions = ms, faults = [], clock = 7, graph_ready = True, latch_signals = {}, latch_version = None,
      completed_files = {}, extraction_signalled = {}, consumer_tags = [], cancel_timers = {},
      queue_handles = {}, maintenance_task = None, refresh_task = None, trace = []\<rparr>"

end
