(* ===== verification/ExtractionLatch.thy ===== *)
theory ExtractionLatch
  imports ServiceState
begin

text \<open>
  The durable latch of \<^verbatim>\<open>graphinator/graphinator.py\<close>: which types have signalled the end of an
  extraction, kept on the \<^verbatim>\<open>ExtractionCompletion\<close> node of its version, cached in the process,
  and stamped when the maintenance that follows has finished. Each function is one database
  statement, or a few of them under the latch lock.
\<close>

section \<open>Statements\<close>

definition of_version :: "pystr \<Rightarrow> completion list \<Rightarrow> completion list" where
  "of_version v = filter (\<lambda>m. cn_version m = Some v)"

definition durable_signals :: "pystr \<Rightarrow> completion list \<Rightarrow> pystr set" where
  "durable_signals v ms =
     set (concat (map (\<lambda>m. case cn_signals m of None \<Rightarrow> [] | Some xs \<Rightarrow> xs) (of_version v ms)))"

definition load_extraction_signals :: "pystr \<Rightarrow> pystr set action" where
  "load_extraction_signals v s =
     (if \<not> graph_ready s then (Inr {}, s)
      else case statement id s of
             (False, s') \<Rightarrow> (Inl DatabaseError, s')
           | (True, s') \<Rightarrow> (Inr (durable_signals v (completions s')), s'))"

text \<open>The \<^verbatim>\<open>reduce\<close> of the latch statement, its \<^verbatim>\<open>MERGE\<close> and its \<^verbatim>\<open>SET\<close>.\<close>

definition record_signals :: "pystr list \<Rightarrow> pystr list \<Rightarrow> pystr list" where
  "record_signals sigs recorded = fold (\<lambda>x r. if x \<in> set r then r else r @ [x]) sigs recorded"

definition merge_signals :: "pystr \<Rightarrow> pystr list \<Rightarrow> int \<Rightarrow> completion list \<Rightarrow> completion list" where
  "merge_signals v sigs now ms =
     (let ms' = (if list_ex (\<lambda>m. cn_version m = Some v) ms then ms else ms @ [blank_completion v now])
      in map (\<lambda>m. if cn_version m = Some v
            then m\<lparr>cn_signals := Some (record_signals sigs (case cn_signals m of None \<Rightarrow> [] | Some xs \<Rightarrow> xs)),
                   cn_updated_at := Some now\<rparr>
            else m) ms')"

definition sorted_signals :: "pystr set \<Rightarrow> pystr list" where
  "sorted_signals = sorted_list_of_set"

definition persist_extraction_signals :: "pystr \<Rightarrow> pystr set \<Rightarrow> unit action" where
  "persist_extraction_signals v signals s =
     (if \<not> graph_ready s then (Inl NotInitialized, s)
      else case statement (merge_signals v (sorted_signals signals) (clock s)) s of
             (False, s') \<Rightarrow> (Inl DatabaseError, s')
           | (True, s') \<Rightarrow> (Inr (), s'))"

definition record_extraction_signal :: "pystr \<Rightarrow> pystr \<Rightarrow> pystr set action" where
  "record_extraction_signal v dt s =
     bindA (if latch_version s \<noteq> Some v then load_extraction_signals v else (\<lambda>s. (Inr (latch_signals s), s)))
       (\<lambda>persisted. let candidate = persisted \<union> {dt} in
          bindA (persist_extraction_signals v candidate) (\<lambda>_ s'.
            (Inr candidate, s'\<lparr>latch_signals := candidate, latch_version := Some v\<rparr>))) s"

definition maintained :: "pystr \<Rightarrow> completion list \<Rightarrow> bool" where
  "maintained v ms = list_ex (\<lambda>m. cn_maintained_at m \<noteq> None) (of_version v ms)"

definition is_extraction_maintained :: "pystr \<Rightarrow> bool action" where
  "is_extraction_maintained v s =
     (if \<not> graph_ready s then (Inr False, s)
      else case statement id s of
             (False, s') \<Rightarrow> (Inl DatabaseError, s')
           | (True, s') \<Rightarrow> (Inr (maintained v (completions s')), s'))"

text \<open>
  The newest node; of several created at the same moment the database may return any, the
  model takes the first.
\<close>

definition created :: "completion \<Rightarrow> int" where
  "created m = (case cn_created_at m of None \<Rightarrow> 0 | Some t \<Rightarrow> t)"

fun newest :: "completion list \<Rightarrow> completion option" where
  "newest [] = None"
| "newest (m # ms) =
     (case newest ms of
        None \<Rightarrow> Some m
      | Some m' \<Rightarrow> if created m < created m' then Some m' else Some m)"

definition latest_extraction_version :: "pystr option action" where
  "latest_extraction_version s =
     (if \<not> graph_ready s then (Inr None, s)
      else case statement id s of
             (False, s') \<Rightarrow> (Inl DatabaseError, s')
           | (True, s') \<Rightarrow> (Inr (Option.bind (newest (completions s')) cn_version), s'))"

section \<open>Stamps\<close>

definition STATS_VERSION :: int where "STATS_VERSION = 1"
definition MAINTENANCE_ERROR_MAX_CHARS :: nat where "MAINTENANCE_ERROR_MAX_CHARS = 500"

definition stamp_success :: "pystr \<Rightarrow> int \<Rightarrow> completion \<Rightarrow> completion" where
  "stamp_success v now m =
     (if cn_version m = Some v
      then m\<lparr>cn_maintained_at := (case cn_maintained_at m of None \<Rightarrow> Some now | Some t \<Rightarrow> Some t),
             cn_status := Some Succeeded, cn_stats_version := Some STATS_VERSION,
             cn_error := None, cn_failed_at := None\<rparr>
      else m)"

definition stamp_maintenance_success :: "pystr \<Rightarrow> unit action" where
  "stamp_maintenance_success v s =
     (if \<not> graph_ready s then (Inl NotInitialized, s)
      else case statement (map (stamp_success v (clock s))) s of
             (False, s') \<Rightarrow> (Inl DatabaseError, s')
           | (True, s') \<Rightarrow> (if of_version v (completions s') = [] then Inl NothingToStamp else Inr (), s'))"

definition note_failure :: "pystr \<Rightarrow> pystr \<Rightarrow> int \<Rightarrow> completion \<Rightarrow> completion" where
  "note_failure v error now m =
     (if cn_version m = Some v \<and> cn_maintained_at m = None
      then m\<lparr>cn_status := Some Failed, cn_error := Some error, cn_failed_at := Some now\<rparr>
      else m)"

definition record_maintenance_failure :: "pystr \<Rightarrow> pystr \<Rightarrow> unit action" where
  "record_maintenance_failure v error s =
     (if \<not> graph_ready s then (Inl NotInitialized, s)
      else case statement (map (note_failure v (take MAINTENANCE_ERROR_MAX_CHARS error) (clock s))) s of
             (False, s') \<Rightarrow> (Inl DatabaseError, s')
           | (True, s') \<Rightarrow> (Inr (), s'))"

definition stamp_stats :: "pystr \<Rightarrow> completion \<Rightarrow> completion" where
  "stamp_stats v m = (if cn_version m = Some v then m\<lparr>cn_stats_version := Some STATS_VERSION\<rparr> else m)"

definition stamp_stats_version :: "pystr \<Rightarrow> unit action" where
  "stamp_stats_version v s =
     (if \<not> graph_ready s then (Inl NotInitialized, s)
      else case statement (map (stamp_stats v)) s of
             (False, s') \<Rightarrow> (Inl DatabaseError, s')
           | (True, s') \<Rightarrow> (if of_version v (completions s') = [] then Inl NothingToStamp else Inr (), s'))"

section \<open>What the statements change\<close>

named_theorems latch_simps \<open>durable signals and stamps after a statement\<close>

lemma set_record_signals: "set (record_signals sigs r) = set r \<union> set sigs"
  unfolding record_signals_def by (induction sigs arbitrary: r) auto

lemma durable_map [latch_simps]:
  "(\<And>m. cn_version (f m) = cn_version m \<and> cn_signals (f m) = cn_signals m) \<Longrightarrow>
     durable_signals v (map f ms) = durable_signals v ms"
  by (induction ms) (simp_all add: durable_signals_def of_version_def)

lemma durable_stamps [latch_simps]:
  "durable_signals v (map (stamp_success w now) ms) = durable_signals v ms"
  "durable_signals v (map (note_failure w e now) ms) = durable_signals v ms"
  "durable_signals v (map (stamp_stats w) ms) = durable_signals v ms"
  by (rule durable_map; simp add: stamp_success_def note_failure_def stamp_stats_def)+

lemma finite_durable [simp]: "finite (durable_signals v ms)"
  unfolding durable_signals_def by (rule finite_set)

lemma durable_Nil [simp]: "durable_signals v [] = {}"
  by (simp add: durable_signals_def of_version_def)

lemma durable_Cons [simp]: "durable_signals v (m # ms) =
    (if cn_version m = Some v then (case cn_signals m of None \<Rightarrow> {} | Some xs \<Rightarrow> set xs) else {}) \<union> durable_signals v ms"
  by (auto simp: durable_signals_def of_version_def split: option.splits)

lemma durable_append [simp]: "durable_signals v (ms @ ms') = durable_signals v ms \<union> durable_signals v ms'"
  by (induction ms) auto

text \<open>What the \<^verbatim>\<open>MERGE\<close> adds, and what its \<^verbatim>\<open>SET\<close> does to a matched node.\<close>

lemma durable_blank [simp]: "durable_signals w [blank_completion v now] = {}"
  by (simp add: blank_completion_def)

lemma durable_map_matched:
  assumes "\<And>m. cn_version (f m) = cn_version m"
    and "\<And>m. cn_signals (f m) = Some (record_signals sigs (case cn_signals m of None \<Rightarrow> [] | Some xs \<Rightarrow> xs))"
  shows "durable_signals w (map (\<lambda>m. if cn_version m = Some v then f m else m) ms) =
    durable_signals w ms \<union> (if w = v \<and> list_ex (\<lambda>m. cn_version m = Some v) ms then set sigs else {})"
  by (induction ms) (auto simp: assms set_record_signals split: option.splits)

lemma durable_merge [latch_simps]:
  "durable_signals w (merge_signals v sigs now ms) = durable_signals w ms \<union> (if w = v then set sigs else {})"
  unfolding merge_signals_def Let_def
  by (subst durable_map_matched) (auto simp: blank_completion_def)

lemma set_sorted_signals [simp]: "finite S \<Longrightarrow> set (sorted_signals S) = S"
  by (simp add: sorted_signals_def)

text \<open>A maintained version stays maintained; only the success stamp makes one.\<close>

lemma maintained_simps [simp]:
  "maintained v [] = False"
  "maintained v (m # ms) \<longleftrightarrow> cn_version m = Some v \<and> cn_maintained_at m \<noteq> None \<or> maintained v ms"
  "maintained v (ms @ ms') \<longleftrightarrow> maintained v ms \<or> maintained v ms'"
  by (auto simp: maintained_def of_version_def)

lemma maintained_map:
  "(\<And>m. cn_version (f m) = cn_version m \<and> (cn_maintained_at (f m) = None \<longleftrightarrow> cn_maintained_at m = None)) \<Longrightarrow>
     maintained w (map f ms) = maintained w ms"
  by (induction ms) simp_all

lemma maintained_merge [latch_simps]: "maintained w (merge_signals v sigs now ms) = maintained w ms"
  unfolding merge_signals_def Let_def by (subst maintained_map) (auto simp: blank_completion_def)

lemma maintained_stamps [latch_simps]:
  "maintained w (map (note_failure v e now) ms) = maintained w ms"
  "maintained w (map (stamp_stats v) ms) = maintained w ms"
  "maintained w (map (stamp_success v now) ms) \<longleftrightarrow>
     maintained w ms \<or> w = v \<and> of_version v ms \<noteq> []"
proof -
  show "maintained w (map (note_failure v e now) ms) = maintained w ms"
    and "maintained w (map (stamp_stats v) ms) = maintained w ms"
    by (rule maintained_map; simp add: note_failure_def stamp_stats_def)+
  show "maintained w (map (stamp_success v now) ms) \<longleftrightarrow> maintained w ms \<or> w = v \<and> of_version v ms \<noteq> []"
    by (induction ms) (auto simp: stamp_success_def of_version_def split: option.splits)
qed

section \<open>The latch as its callers see it\<close>

text \<open>The cache never claims a signal the database does not have.\<close>

definition coherent :: "service \<Rightarrow> bool" where
  "coherent s \<longleftrightarrow> finite (latch_signals s) \<and>
     (\<forall>v. latch_version s = Some v \<longrightarrow> latch_signals s \<subseteq> durable_signals v (completions s))"

text \<open>The part of the state the latch functions do not touch.\<close>

definition rest :: "service \<Rightarrow> service" where
  "rest s = s\<lparr>completions := [], faults := [], latch_signals := {}, latch_version := None\<rparr>"

lemma rest_simps [simp]:
  "rest (s\<lparr>completions := ms\<rparr>) = rest s" "rest (s\<lparr>faults := fs\<rparr>) = rest s"
  "rest (s\<lparr>latch_signals := S\<rparr>) = rest s" "rest (s\<lparr>latch_version := lv\<rparr>) = rest s"
  by (simp_all add: rest_def)

lemma rest_fields:
  assumes "rest s' = rest s"
  shows "clock s' = clock s" "graph_ready s' = graph_ready s" "completed_files s' = completed_files s"
    "extraction_signalled s' = extraction_signalled s" "consumer_tags s' = consumer_tags s"
    "cancel_timers s' = cancel_timers s" "queue_handles s' = queue_handles s"
    "maintenance_task s' = maintenance_task s" "refresh_task s' = refresh_task s" "trace s' = trace s"
  using arg_cong [OF assms, of clock] arg_cong [OF assms, of graph_ready] arg_cong [OF assms, of completed_files]
    arg_cong [OF assms, of extraction_signalled] arg_cong [OF assms, of consumer_tags]
    arg_cong [OF assms, of cancel_timers] arg_cong [OF assms, of queue_handles]
    arg_cong [OF assms, of maintenance_task] arg_cong [OF assms, of refresh_task] arg_cong [OF assms, of trace]
  by (simp_all add: rest_def)

lemma statement_rest:
  assumes "statement f s = (ok, s')"
  shows "rest s' = rest s" "latch_signals s' = latch_signals s" "latch_version s' = latch_version s"
    and "completions s' = completions s \<or> completions s' = f (completions s)"
    and "ok \<Longrightarrow> completions s' = f (completions s)"
  using assms by (auto simp: statement_def split: prod.splits fault.splits)

lemma load_outcome:
  assumes "load_extraction_signals v s = (r, s')"
  shows "rest s' = rest s" "latch_signals s' = latch_signals s" "latch_version s' = latch_version s"
    and "completions s' = completions s"
    and "r = Inr S \<Longrightarrow> S = (if graph_ready s then durable_signals v (completions s) else {})"
  using assms by (auto simp: load_extraction_signals_def statement_def split: if_splits prod.splits fault.splits)

lemma persist_outcome:
  assumes "persist_extraction_signals v S s = (r, s')"
  shows "rest s' = rest s" "latch_signals s' = latch_signals s" "latch_version s' = latch_version s"
    and "completions s' = completions s \<or>
      completions s' = merge_signals v (sorted_signals S) (clock s) (completions s)"
    and "r = Inr () \<Longrightarrow> completions s' = merge_signals v (sorted_signals S) (clock s) (completions s)"
  using assms by (auto simp: persist_extraction_signals_def statement_def split: if_splits prod.splits fault.splits)

lemma maintained_outcome:
  assumes "is_extraction_maintained v s = (r, s')"
  shows "rest s' = rest s" "latch_signals s' = latch_signals s" "latch_version s' = latch_version s"
    and "completions s' = completions s" and "r = Inr b \<Longrightarrow> b = (graph_ready s \<and> maintained v (completions s))"
  using assms by (auto simp: is_extraction_maintained_def statement_def split: if_splits prod.splits fault.splits)

text \<open>
  The two outcomes of recording a signal. What was known of the version (\<open>P\<close>) is read from
  the cache when the cache is this version's, else from the database.
\<close>

lemma record_outcome:
  assumes "record_extraction_signal v dt s = (r, s')"
  obtains (failed) e where "r = Inl e" and "rest s' = rest s"
      and "latch_signals s' = latch_signals s" and "latch_version s' = latch_version s"
      and "\<exists>P. completions s' = completions s \<or>
             completions s' = merge_signals v (sorted_signals (insert dt P)) (clock s) (completions s)"
  | (recorded) P where "r = Inr (insert dt P)" and "rest s' = rest s"
      and "latch_signals s' = insert dt P" and "latch_version s' = Some v"
      and "completions s' = merge_signals v (sorted_signals (insert dt P)) (clock s) (completions s)"
      and "P = (if latch_version s = Some v then latch_signals s
                else if graph_ready s then durable_signals v (completions s) else {})"
proof -
  let ?load = "if latch_version s \<noteq> Some v then load_extraction_signals v else (\<lambda>s. (Inr (latch_signals s), s))"
  obtain q s1 where l: "?load s = (q, s1)" by fastforce
  then have s1: "rest s1 = rest s" "latch_signals s1 = latch_signals s" "latch_version s1 = latch_version s"
      "completions s1 = completions s"
    and known: "\<And>P. q = Inr P \<Longrightarrow> P = (if latch_version s = Some v then latch_signals s
        else if graph_ready s then durable_signals v (completions s) else {})"
    using load_outcome [of v s q s1] by (auto split: if_splits)
  show thesis
  proof (cases q)
    case (Inl e)
    with assms l have "r = Inl e" "s' = s1" by (simp_all add: record_extraction_signal_def bindA_def Let_def)
    with s1 show thesis by (intro failed) auto
  next
    case (Inr P)
    obtain q2 s2 where p: "persist_extraction_signals v (insert dt P) s1 = (q2, s2)" by fastforce
    note p' = persist_outcome [OF p] rest_fields(1) [OF s1(1)]
    show thesis
    proof (cases q2)
      case (Inl e)
      with assms l p \<open>q = Inr P\<close> have "r = Inl e" "s' = s2" by (simp_all add: record_extraction_signal_def bindA_def Let_def)
      with s1 p' show thesis by (intro failed) auto
    next
      case (Inr u)
      with assms l p \<open>q = Inr P\<close> have "r = Inr (insert dt P)"
        "s' = s2\<lparr>latch_signals := insert dt P, latch_version := Some v\<rparr>"
        by (simp_all add: record_extraction_signal_def bindA_def Let_def)
      with s1 p' Inr known [OF \<open>q = Inr P\<close>] show thesis by (intro recorded [of P]) auto
    qed
  qed
qed

lemma record_keeps:
  assumes "record_extraction_signal v dt s = (r, s')" and "coherent s"
  shows "coherent s'" and "durable_signals w (completions s) \<subseteq> durable_signals w (completions s')"
    and "maintained w (completions s') = maintained w (completions s)" and "rest s' = rest s"
proof -
  from assms(1) have "coherent s' \<and> durable_signals w (completions s) \<subseteq> durable_signals w (completions s') \<and>
    maintained w (completions s') = maintained w (completions s) \<and> rest s' = rest s"
  proof (cases rule: record_outcome)
    case (failed e)
    then have "\<And>u. durable_signals u (completions s) \<subseteq> durable_signals u (completions s')"
      "maintained w (completions s') = maintained w (completions s)" by (auto simp: latch_simps)
    with failed(2-4) assms(2) show ?thesis unfolding coherent_def by (metis subset_trans)
  next
    case (recorded P)
    then have "finite P" using assms(2) by (auto simp: coherent_def)
    with recorded have "\<And>u. durable_signals u (completions s') =
        durable_signals u (completions s) \<union> (if u = v then insert dt P else {})"
      "maintained w (completions s') = maintained w (completions s)" by (simp_all add: latch_simps)
    with recorded(2-4) \<open>finite P\<close> show ?thesis by (auto simp: coherent_def)
  qed
  then show "coherent s'" and "durable_signals w (completions s) \<subseteq> durable_signals w (completions s')"
    and "maintained w (completions s') = maintained w (completions s)" and "rest s' = rest s" by blast+
qed

lemma record_durable:
  assumes "record_extraction_signal v dt s = (Inr S, s')" and "coherent s"
  shows "dt \<in> S \<and> S \<subseteq> durable_signals v (completions s')"
  using assms(1)
proof (cases rule: record_outcome)
  case (recorded P)
  then have "finite P" using assms(2) by (auto simp: coherent_def)
  with recorded(1,5) show ?thesis by (auto simp: latch_simps)
qed simp

end
