(* ===== verification/MarkerHandling.thy ===== *)
theory MarkerHandling
  imports ExtractionLatch PyValue
begin

text \<open>
  \<^verbatim>\<open>check_file_completion\<close> of \<^verbatim>\<open>graphinator/graphinator.py\<close> and what it calls: the end-of-type
  markers, their requeueing, and the start of the post-import maintenance. The batch queues
  belong to the shared package: whether the flush before a marker drained its queue comes with
  the delivery.
\<close>

section \<open>Markers and their settlement\<close>

text \<open>
  A marker delivery: its queue's type, its decoded body, how often the broker has handed it
  out, what flushing the type's batch queue reports (\<open>None\<close>: there is no batch processor),
  whether the channel still takes settlements.
\<close>

record marker =
  mk_type :: pystr
  mk_data :: "(pystr \<times> pyval) list"
  mk_handouts :: int
  mk_flushed :: "bool option"
  mk_channel_up :: bool

record marker_config =
  cancel_delay :: int
  text_runtime :: runtime

definition MARKER_MAX_REQUEUES :: nat where "MARKER_MAX_REQUEUES = 500"
definition EXTRACTION_LATCH_UNKNOWN_VERSION :: pystr where "EXTRACTION_LATCH_UNKNOWN_VERSION = lit ''unknown''"

definition settle_with :: "event \<Rightarrow> marker \<Rightarrow> unit action" where
  "settle_with e d s = (if mk_channel_up d then (Inr (), emit e s) else (Inl ChannelError, s))"

text \<open>
  \<^verbatim>\<open>requeue_or_dead_letter\<close> is the shared package's; it reads the hand-outs against the bound
  it is given.
\<close>

definition requeue_marker :: "marker \<Rightarrow> bool action" where
  "requeue_marker d s =
     bindA (settle_with (RequeueOrDeadLetter MARKER_MAX_REQUEUES) d) (\<lambda>_ s'. (Inr True, s'))
       (if int MARKER_MAX_REQUEUES \<le> mk_handouts d then s else emit BackoffWait s)"

text \<open>\<^verbatim>\<open>marker_backoff.reset()\<close> and the acknowledgement.\<close>

definition acknowledge :: "marker \<Rightarrow> unit action" where
  "acknowledge d s = settle_with Ack d (emit BackoffReset s)"

section \<open>Consumers and tasks\<close>

definition drop_timer :: "pystr \<Rightarrow> service \<Rightarrow> service" where
  "drop_timer dt s =
     (if dt \<in> cancel_timers s then emit (TimerCancelled dt) (s\<lparr>cancel_timers := cancel_timers s - {dt}\<rparr>) else s)"

definition schedule_consumer_cancellation :: "pystr \<Rightarrow> service \<Rightarrow> service" where
  "schedule_consumer_cancellation dt s =
     (let s' = (if dt \<in> cancel_timers s then emit (TimerCancelled dt) s else s)
      in emit (TimerScheduled dt) (s'\<lparr>cancel_timers := insert dt (cancel_timers s')\<rparr>))"

definition arm_cancellation :: "marker_config \<Rightarrow> pystr \<Rightarrow> service \<Rightarrow> service" where
  "arm_cancellation cfg dt s =
     (if 0 < cancel_delay cfg \<and> dt \<in> queue_handles s then schedule_consumer_cancellation dt s else s)"

definition start_post_import_maintenance :: "pystr option \<Rightarrow> service \<Rightarrow> service" where
  "start_post_import_maintenance v s =
     (if \<not> task_done (maintenance_task s) then s
      else
        let s1 = (case refresh_task s of
                    None \<Rightarrow> s
                  | Some t \<Rightarrow> if task_state t = Finished then s
                              else emit RefreshCancelled (s\<lparr>refresh_task := Some (t\<lparr>task_state := Cancelling\<rparr>)\<rparr>))
        in emit (MaintenanceStarted v)
             (s1\<lparr>maintenance_task := Some \<lparr>task_version = v, task_state = Running\<rparr>\<rparr>))"

section \<open>The handler\<close>

definition complete_file :: "marker_config \<Rightarrow> pystr \<Rightarrow> service \<Rightarrow> service" where
  "complete_file cfg dt s = arm_cancellation cfg dt (s\<lparr>completed_files := insert dt (completed_files s)\<rparr>)"

definition complete_type :: "marker_config \<Rightarrow> pystr \<Rightarrow> service \<Rightarrow> service" where
  "complete_type cfg dt s =
     arm_cancellation cfg dt
       (s\<lparr>completed_files := insert dt (completed_files s), extraction_signalled := insert dt (extraction_signalled s)\<rparr>)"

definition marker_version :: "marker_config \<Rightarrow> marker \<Rightarrow> pystr" where
  "marker_version cfg d =
     py_str (text_runtime cfg) (py_or (dget (mk_data d) ''version'') (PStr EXTRACTION_LATCH_UNKNOWN_VERSION))"

definition is_file_complete :: "marker \<Rightarrow> bool" where
  "is_file_complete d \<longleftrightarrow> dget (mk_data d) ''type'' = PStr (lit ''file_complete'')"

definition is_extraction_complete :: "marker \<Rightarrow> bool" where
  "is_extraction_complete d \<longleftrightarrow> dget (mk_data d) ''type'' = PStr (lit ''extraction_complete'')"

definition check_file_completion :: "marker_config \<Rightarrow> marker \<Rightarrow> bool action" where
  "check_file_completion cfg d s =
     (if is_file_complete d then
        if mk_flushed d = Some False then requeue_marker d s
        else bindA (acknowledge d) (\<lambda>_ s'. (Inr True, s')) (complete_file cfg (mk_type d) s)
      else if is_extraction_complete d then
        let s1 = drop_timer (mk_type d) s in
        if mk_flushed d = Some False then requeue_marker d s1
        else
          let v = marker_version cfg d in
          case record_extraction_signal v (mk_type d) s1 of
            (Inl _, s2) \<Rightarrow> requeue_marker d s2
          | (Inr signals, s2) \<Rightarrow>
              let s3 = complete_type cfg (mk_type d) s2 in
              if \<not> set DATA_TYPES \<subseteq> signals
              then bindA (acknowledge d) (\<lambda>_ s'. (Inr True, s')) s3
              else
                case is_extraction_maintained v s3 of
                  (Inl _, s4) \<Rightarrow> requeue_marker d s4
                | (Inr True, s4) \<Rightarrow> bindA (acknowledge d) (\<lambda>_ s'. (Inr True, s')) s4
                | (Inr False, s4) \<Rightarrow>
                    bindA (acknowledge d) (\<lambda>_ s'. (Inr True, start_post_import_maintenance (Some v) s')) s4
      else (Inr False, s))"

section \<open>The handler between its awaits\<close>

text \<open>
  Where a handler can be suspended: waiting for the flush, for the latch (the lock makes
  reading and writing it one step), for the maintenance check, for the settlement. Between two
  of these points nothing else runs.
\<close>

datatype phase =
    Arrived
  | Flushing
  | Recording
  | Checking
  | Acking "pystr option"
  | Starting pystr
  | Requeueing
  | Settled "service_error + bool"

definition advance :: "marker_config \<Rightarrow> marker \<Rightarrow> phase \<Rightarrow> service \<Rightarrow> phase \<times> service" where
  "advance cfg d ph s =
     (case ph of
        Arrived \<Rightarrow>
          if is_file_complete d then (Flushing, s)
          else if is_extraction_complete d then (Flushing, drop_timer (mk_type d) s)
          else (Settled (Inr False), s)
      | Flushing \<Rightarrow>
          if mk_flushed d = Some False then (Requeueing, s)
          else if is_file_complete d then (Acking None, complete_file cfg (mk_type d) s)
          else (Recording, s)
      | Recording \<Rightarrow>
          (case record_extraction_signal (marker_version cfg d) (mk_type d) s of
             (Inl _, s') \<Rightarrow> (Requeueing, s')
           | (Inr signals, s') \<Rightarrow>
               (if set DATA_TYPES \<subseteq> signals then Checking else Acking None, complete_type cfg (mk_type d) s'))
      | Checking \<Rightarrow>
          (case is_extraction_maintained (marker_version cfg d) s of
             (Inl _, s') \<Rightarrow> (Requeueing, s')
           | (Inr m, s') \<Rightarrow> (Acking (if m then None else Some (marker_version cfg d)), s'))
      | Acking start \<Rightarrow>
          (case acknowledge d s of
             (Inl e, s') \<Rightarrow> (Settled (Inl e), s')
           | (Inr _, s') \<Rightarrow> (case start of None \<Rightarrow> Settled (Inr True) | Some v \<Rightarrow> Starting v, s'))
      | Starting v \<Rightarrow> (Settled (Inr True), start_post_import_maintenance (Some v) s)
      | Requeueing \<Rightarrow> (case requeue_marker d s of (r, s') \<Rightarrow> (Settled r, s'))
      | Settled r \<Rightarrow> (Settled r, s))"

fun advances :: "marker_config \<Rightarrow> marker \<Rightarrow> nat \<Rightarrow> phase \<times> service \<Rightarrow> phase \<times> service" where
  "advances cfg d 0 c = c"
| "advances cfg d (Suc n) c = advances cfg d n (advance cfg d (fst c) (snd c))"

text \<open>What a handler still does from each point on, given enough sections.\<close>

lemma advances_Settled [simp]: "advances cfg d n (Settled r, s) = (Settled r, s)"
  by (induction n) (simp_all add: advance_def)

lemma advances_Requeueing [simp]:
  "advances cfg d (Suc n) (Requeueing, s) = (case requeue_marker d s of (r, s') \<Rightarrow> (Settled r, s'))"
  by (simp add: advance_def split: prod.splits)

lemma advances_Acking [simp]:
  "advances cfg d (Suc (Suc n)) (Acking w, s) =
     (case bindA (acknowledge d) (\<lambda>_ s'. (Inr True,
              case w of None \<Rightarrow> s' | Some v \<Rightarrow> start_post_import_maintenance (Some v) s')) s of
        (r, s') \<Rightarrow> (Settled r, s'))"
  by (cases "acknowledge d s"; cases "fst (acknowledge d s)"; cases w) (simp_all add: advance_def bindA_def)

lemma advances_Checking [simp]:
  "advances cfg d (Suc (Suc (Suc n))) (Checking, s) =
     (case (case is_extraction_maintained (marker_version cfg d) s of
              (Inl _, s') \<Rightarrow> requeue_marker d s'
            | (Inr True, s') \<Rightarrow> bindA (acknowledge d) (\<lambda>_ s'. (Inr True, s')) s'
            | (Inr False, s') \<Rightarrow> bindA (acknowledge d)
                (\<lambda>_ s'. (Inr True, start_post_import_maintenance (Some (marker_version cfg d)) s')) s') of
        (r, s') \<Rightarrow> (Settled r, s'))"
  by (subst advances.simps, subst advance_def)
    (auto simp del: advances.simps split: prod.splits sum.splits bool.splits)


end
