(* ===== verification/MaintenanceRun.thy ===== *)
theory MaintenanceRun
  imports MarkerHandling
begin

text \<open>
  The maintenance that follows an import, of \<^verbatim>\<open>graphinator/graphinator.py\<close>: one detached task
  at a time, its attempts and steps, the stamp at its end, the refresh of outdated statistics,
  and what a restarted process resumes. The sweeps themselves are steps with a reported
  outcome.
\<close>

section \<open>Steps\<close>

text \<open>The key a run's checkpoints carry.\<close>

definition maintenance_run_key :: "pystr \<Rightarrow> pystr" where
  "maintenance_run_key v = v @ lit ''@stats-'' @ dec_of_int STATS_VERSION"

datatype step_result = StepDone | StepIncomplete | StepRaised pystr | StepStopped pystr

text \<open>A step's failure as a description; a request to stop leaves the step as an exception.\<close>

definition run_maintenance_step :: "pystr \<Rightarrow> step_result \<Rightarrow> pystr + pystr option" where
  "run_maintenance_step name r =
     (case r of
        StepStopped e \<Rightarrow> Inl e
      | StepRaised e \<Rightarrow> Inr (Some (name @ lit '': '' @ e))
      | StepIncomplete \<Rightarrow> Inr (Some name)
      | StepDone \<Rightarrow> Inr None)"

definition POST_IMPORT_MAINTENANCE_MAX_ATTEMPTS :: nat where "POST_IMPORT_MAINTENANCE_MAX_ATTEMPTS = 3"

definition maintenance_steps :: "pystr list" where
  "maintenance_steps = [lit ''stub_cleanup'', lit ''sentinel_master_cleanup'', lit ''genre_style_label_stats'',
     lit ''artist_stats'', lit ''person_credit_counts'']"

definition refresh_steps :: "pystr list" where
  "refresh_steps = [lit ''label_stats'', lit ''artist_stats'']"

text \<open>
  What a pass meets, by attempt: a shutdown request, the drain of the batch queues (\<open>None\<close>:
  no batch processor; \<open>Inl\<close>: it raises), the outcome of each step; and how an error of the
  latch reads in a message.
\<close>

record pass_world =
  shutdown_at :: "nat \<Rightarrow> bool"
  drain_at :: "nat \<Rightarrow> (pystr + bool) option"
  step_at :: "nat \<Rightarrow> pystr \<Rightarrow> step_result"
  describe :: "service_error \<Rightarrow> pystr"

text \<open>The loop over the steps: every step runs, failures are collected, a stop ends it.\<close>

fun run_steps :: "(pystr \<Rightarrow> step_result) \<Rightarrow> pystr list \<Rightarrow> pystr + pystr list" where
  "run_steps world [] = Inr []"
| "run_steps world (name # names) =
     bindE (run_maintenance_step name (world name)) (\<lambda>f.
     bindE (run_steps world names) (\<lambda>fs. Inr (case f of None \<Rightarrow> fs | Some x \<Rightarrow> x # fs)))"

section \<open>An attempt\<close>

definition incomplete_text :: "pystr list \<Rightarrow> pystr" where
  "incomplete_text failed =
     lit ''maintenance step(s) did not complete: '' @ py_join (lit '', '') failed @ lit '' (see service logs)''"

text \<open>The failed steps of an attempt, or the exception that ended them.\<close>

definition attempt_failures :: "pass_world \<Rightarrow> nat \<Rightarrow> service \<Rightarrow> pystr + pystr list" where
  "attempt_failures w k s =
     bindE (case drain_at w k of None \<Rightarrow> Inr True | Some d \<Rightarrow> d) (\<lambda>drained.
       if \<not> drained then Inr [lit ''batch_queue_drain'']
       else if graph_ready s then run_steps (step_at w k) maintenance_steps
       else Inr [])"

text \<open>One attempt: whether it succeeded, and the failure text it leaves.\<close>

definition maintenance_attempt ::
  "pass_world \<Rightarrow> pystr option \<Rightarrow> nat \<Rightarrow> pystr \<Rightarrow> service \<Rightarrow> (bool \<times> pystr) \<times> service" where
  "maintenance_attempt w v k failure s =
     (case attempt_failures w k s of
        Inl e \<Rightarrow> ((False, e), s)
      | Inr [] \<Rightarrow>
          (case v of
             None \<Rightarrow> ((True, failure), s)
           | Some v' \<Rightarrow>
               if \<not> graph_ready s then ((True, failure), s)
               else case stamp_maintenance_success v' s of
                      (Inl e, s') \<Rightarrow> ((False, describe w e), s')
                    | (Inr _, s') \<Rightarrow> ((True, failure), s'))
      | Inr failed \<Rightarrow> ((False, incomplete_text failed), s))"

definition give_up :: "pystr option \<Rightarrow> pystr \<Rightarrow> service \<Rightarrow> service" where
  "give_up v failure s =
     (case v of
        None \<Rightarrow> s
      | Some v' \<Rightarrow> if graph_ready s then snd (record_maintenance_failure v' failure s) else s)"

text \<open>The attempts numbered from \<open>k\<close>, \<open>n\<close> of them left.\<close>

fun attempts_from :: "pass_world \<Rightarrow> pystr option \<Rightarrow> nat \<Rightarrow> nat \<Rightarrow> pystr \<Rightarrow> service \<Rightarrow> bool \<times> service" where
  "attempts_from w v 0 k failure s = (False, s)"
| "attempts_from w v (Suc n) k failure s =
     (if shutdown_at w k then (False, s)
      else case maintenance_attempt w v k failure s of
             ((True, _), s') \<Rightarrow> (True, s')
           | ((False, failure'), s') \<Rightarrow>
               if k = POST_IMPORT_MAINTENANCE_MAX_ATTEMPTS then (False, give_up v failure' s')
               else attempts_from w v n (k + 1) failure' s')"

definition run_post_import_maintenance :: "pass_world \<Rightarrow> pystr option \<Rightarrow> service \<Rightarrow> bool \<times> service" where
  "run_post_import_maintenance w v s =
     attempts_from w v POST_IMPORT_MAINTENANCE_MAX_ATTEMPTS 1 (lit ''post-import maintenance failed'') s"

section \<open>Restart\<close>

text \<open>
  \<^verbatim>\<open>resume_pending_maintenance\<close>; an error of the database is logged and resumes nothing.
\<close>

definition resume_pending_maintenance :: "service \<Rightarrow> bool \<times> service" where
  "resume_pending_maintenance s =
     (if \<not> graph_ready s then (False, s)
      else case bindA latest_extraction_version (\<lambda>lv.
             case lv of
               None \<Rightarrow> (\<lambda>s. (Inr None, s))
             | Some v \<Rightarrow> bindA (load_extraction_signals v) (\<lambda>signals.
                 if \<not> set DATA_TYPES \<subseteq> signals then (\<lambda>s. (Inr None, s))
                 else bindA (is_extraction_maintained v) (\<lambda>m s. (Inr (if m then None else Some v), s)))) s of
             (Inr (Some v), s') \<Rightarrow> (True, start_post_import_maintenance (Some v) s')
           | (_, s') \<Rightarrow> (False, s'))"

definition max_stats :: "pystr \<Rightarrow> completion list \<Rightarrow> int option" where
  "max_stats v ms =
     (case List.map_filter cn_stats_version (of_version v ms) of [] \<Rightarrow> None | x # xs \<Rightarrow> Some (fold max xs x))"

definition stored_stats_version :: "pystr \<Rightarrow> int option action" where
  "stored_stats_version v s =
     (case statement id s of
        (False, s') \<Rightarrow> (Inl DatabaseError, s')
      | (True, s') \<Rightarrow> (Inr (max_stats v (completions s')), s'))"

definition stats_refresh_version :: "pystr option action" where
  "stats_refresh_version s =
     (if \<not> graph_ready s then (Inr None, s)
      else bindA latest_extraction_version (\<lambda>lv.
        case lv of
          None \<Rightarrow> (\<lambda>s. (Inr None, s))
        | Some v \<Rightarrow> bindA (load_extraction_signals v) (\<lambda>signals.
            if \<not> set DATA_TYPES \<subseteq> signals then (\<lambda>s. (Inr None, s))
            else bindA (is_extraction_maintained v) (\<lambda>m.
              if \<not> m then (\<lambda>s. (Inr None, s))
              else bindA (stored_stats_version v) (\<lambda>stats s.
                (Inr (if stats = Some STATS_VERSION then None else Some v), s))))) s)"

definition start_stats_refresh :: "pystr \<Rightarrow> service \<Rightarrow> bool \<times> service" where
  "start_stats_refresh v s =
     (if \<not> task_done (maintenance_task s) then (False, s)
      else if \<not> task_done (refresh_task s) then (False, s)
      else (True, emit (RefreshStarted v) (s\<lparr>refresh_task := Some \<lparr>task_version = Some v, task_state = Running\<rparr>\<rparr>)))"

definition resume_stats_refresh :: "service \<Rightarrow> bool \<times> service" where
  "resume_stats_refresh s =
     (case stats_refresh_version s of
        (Inr (Some v), s') \<Rightarrow> start_stats_refresh v s'
      | (_, s') \<Rightarrow> (False, s'))"

text \<open>\<^verbatim>\<open>run_stats_refresh\<close>: a stop or an error of the stamp ends it; failed steps are retried.\<close>

fun refresh_attempts :: "pass_world \<Rightarrow> pystr \<Rightarrow> nat \<Rightarrow> nat \<Rightarrow> service \<Rightarrow> bool \<times> service" where
  "refresh_attempts w v 0 k s = (False, s)"
| "refresh_attempts w v (Suc n) k s =
     (case run_steps (step_at w k) refresh_steps of
        Inl _ \<Rightarrow> (False, s)
      | Inr [] \<Rightarrow> (case stamp_stats_version v s of (Inl _, s') \<Rightarrow> (False, s') | (Inr _, s') \<Rightarrow> (True, s'))
      | Inr _ \<Rightarrow> refresh_attempts w v n (k + 1) s)"

definition run_stats_refresh :: "pass_world \<Rightarrow> pystr \<Rightarrow> service \<Rightarrow> bool \<times> service" where
  "run_stats_refresh w v s = refresh_attempts w v POST_IMPORT_MAINTENANCE_MAX_ATTEMPTS 1 s"

section \<open>Clean attempts\<close>

text \<open>An attempt with nothing to report: the queues drained and every step was done.\<close>

definition clean_attempt :: "pass_world \<Rightarrow> nat \<Rightarrow> service \<Rightarrow> bool" where
  "clean_attempt w k s \<longleftrightarrow> drain_at w k \<in> {None, Some (Inr True)} \<and>
     (graph_ready s \<longrightarrow> (\<forall>name \<in> set maintenance_steps. step_at w k name = StepDone))"

lemma run_steps_Nil: "run_steps world names = Inr [] \<longleftrightarrow> (\<forall>name \<in> set names. world name = StepDone)"
proof (induction names)
  case (Cons name names)
  then show ?case
    by (cases "world name"; cases "run_steps world names") (auto simp: run_maintenance_step_def)
qed simp

lemma attempt_failures_Nil: "attempt_failures w k s = Inr [] \<longleftrightarrow> clean_attempt w k s"
proof (cases "drain_at w k")
  case None
  then show ?thesis by (simp add: attempt_failures_def clean_attempt_def run_steps_Nil)
next
  case (Some d)
  then show ?thesis by (cases d) (simp_all add: attempt_failures_def clean_attempt_def run_steps_Nil)
qed

lemma clean_attempt_rest: "rest s' = rest s \<Longrightarrow> clean_attempt w k s' = clean_attempt w k s"
  using rest_fields(2) [of s' s] by (simp add: clean_attempt_def)

section \<open>Stamps are final\<close>

text \<open>
  What every maintenance function keeps of a node: its version and signals, and a stamp once
  it is there.
\<close>

definition kept :: "completion \<Rightarrow> completion \<Rightarrow> bool" where
  "kept m m' \<longleftrightarrow> cn_version m' = cn_version m \<and> cn_signals m' = cn_signals m \<and>
     (cn_maintained_at m \<noteq> None \<longrightarrow> cn_maintained_at m' = cn_maintained_at m)"

lemma kept_refl [simp]: "kept m m" and kept_trans: "kept a b \<Longrightarrow> kept b c \<Longrightarrow> kept a c"
  by (auto simp: kept_def)

lemma kept_all_refl [simp]: "list_all2 kept ms ms"
  by (simp add: list_all2_same)

lemma kept_all_trans: "list_all2 kept as bs \<Longrightarrow> list_all2 kept bs cs \<Longrightarrow> list_all2 kept as cs"
  by (erule (1) list_all2_trans [rotated]) (erule (1) kept_trans)

lemma kept_map: "(\<And>m. kept m (f m)) \<Longrightarrow> list_all2 kept ms (map f ms)"
  by (simp add: list_all2_conv_all_nth)

lemma kept_stamps [simp]: "kept m (stamp_success v now m)" "kept m (note_failure v e now m)" "kept m (stamp_stats v m)"
  by (auto simp: kept_def stamp_success_def note_failure_def stamp_stats_def split: option.splits)

lemma kept_durable: "list_all2 kept ms ms' \<Longrightarrow> durable_signals v ms' = durable_signals v ms"
  by (induction rule: list_all2_induct) (simp_all add: kept_def)

lemma kept_maintained: "list_all2 kept ms ms' \<Longrightarrow> maintained v ms \<Longrightarrow> maintained v ms'"
  by (induction rule: list_all2_induct) (auto simp: kept_def)

lemma stamp_outcome:
  assumes "stamp_maintenance_success v s = (r, s')"
  shows "rest s' = rest s" "latch_signals s' = latch_signals s" "latch_version s' = latch_version s"
    and "completions s' = completions s \<or> completions s' = map (stamp_success v (clock s)) (completions s)"
    and "r = Inr u \<Longrightarrow> maintained v (completions s')"
proof -
  show "rest s' = rest s" "latch_signals s' = latch_signals s" "latch_version s' = latch_version s"
    "completions s' = completions s \<or> completions s' = map (stamp_success v (clock s)) (completions s)"
    using assms by (auto simp: stamp_maintenance_success_def statement_def split: if_splits prod.splits fault.splits)
  assume "r = Inr u"
  with assms have "completions s' = map (stamp_success v (clock s)) (completions s)" and "of_version v (completions s') \<noteq> []"
    by (auto simp: stamp_maintenance_success_def statement_def split: if_splits prod.splits fault.splits)
  then have "\<exists>m \<in> set (completions s). cn_version m = Some v"
    by (auto simp: of_version_def filter_empty_conv stamp_success_def split: if_splits)
  then have "of_version v (completions s) \<noteq> []" by (auto simp: of_version_def filter_empty_conv)
  with \<open>completions s' = _\<close> show "maintained v (completions s')" by (simp add: latch_simps)
qed

lemma give_up_outcome:
  shows "rest (give_up v e s) = rest s" "latch_signals (give_up v e s) = latch_signals s"
    "latch_version (give_up v e s) = latch_version s"
    and "list_all2 kept (completions s) (completions (give_up v e s))"
    and "maintained u (completions (give_up v e s)) = maintained u (completions s)"
proof -
  have "rest (give_up v e s) = rest s \<and> latch_signals (give_up v e s) = latch_signals s \<and>
    latch_version (give_up v e s) = latch_version s \<and>
    (completions (give_up v e s) = completions s \<or>
     (\<exists>v' e' t. completions (give_up v e s) = map (note_failure v' e' t) (completions s)))"
    by (auto simp: give_up_def record_maintenance_failure_def statement_def split: option.splits prod.splits fault.splits)
  then show "rest (give_up v e s) = rest s" "latch_signals (give_up v e s) = latch_signals s"
    "latch_version (give_up v e s) = latch_version s"
    "list_all2 kept (completions s) (completions (give_up v e s))"
    "maintained u (completions (give_up v e s)) = maintained u (completions s)"
    by (auto simp: latch_simps kept_map)
qed

lemma attempt_outcome:
  assumes "maintenance_attempt w v k failure s = ((ok, failure'), s')"
  shows "rest s' = rest s" "latch_signals s' = latch_signals s" "latch_version s' = latch_version s"
    and "list_all2 kept (completions s) (completions s')"
    and "ok \<Longrightarrow> clean_attempt w k s \<and> (\<forall>v'. v = Some v' \<and> graph_ready s \<longrightarrow> maintained v' (completions s'))"
    and "maintained u (completions s') \<Longrightarrow> maintained u (completions s) \<or> v = Some u \<and> clean_attempt w k s"
proof -
  have "rest s' = rest s \<and> latch_signals s' = latch_signals s \<and> latch_version s' = latch_version s \<and>
    list_all2 kept (completions s) (completions s') \<and>
    (ok \<longrightarrow> clean_attempt w k s \<and> (\<forall>v'. v = Some v' \<and> graph_ready s \<longrightarrow> maintained v' (completions s'))) \<and>
    (maintained u (completions s') \<longrightarrow> maintained u (completions s) \<or> v = Some u \<and> clean_attempt w k s)"
  proof (cases "attempt_failures w k s = Inr [] \<and> (\<exists>v'. v = Some v') \<and> graph_ready s")
    case False
    with assms show ?thesis
      by (auto simp: maintenance_attempt_def attempt_failures_Nil split: sum.splits list.splits option.splits)
  next
    case True
    then obtain v' where v: "v = Some v'" and clean: "clean_attempt w k s" and ready: "graph_ready s"
      and none: "attempt_failures w k s = Inr []" by (auto simp: attempt_failures_Nil)
    then obtain r where st: "stamp_maintenance_success v' s = (r, s')" and r: "ok \<longleftrightarrow> (\<exists>x. r = Inr x)"
      using assms by (auto simp: maintenance_attempt_def split: sum.splits prod.splits)
    note o = stamp_outcome [OF st]
    from o(4) have "list_all2 kept (completions s) (completions s')" by (auto simp: kept_map)
    moreover from o(4) have "maintained u (completions s') \<Longrightarrow> maintained u (completions s) \<or> v = Some u"
      using v by (auto simp: latch_simps)
    ultimately show ?thesis using o(1-3,5) v clean r by auto
  qed
  then show "rest s' = rest s" "latch_signals s' = latch_signals s" "latch_version s' = latch_version s"
    "list_all2 kept (completions s) (completions s')"
    "ok \<Longrightarrow> clean_attempt w k s \<and> (\<forall>v'. v = Some v' \<and> graph_ready s \<longrightarrow> maintained v' (completions s'))"
    "maintained u (completions s') \<Longrightarrow> maintained u (completions s) \<or> v = Some u \<and> clean_attempt w k s"
    by blast+
qed

text \<open>A pass that meets no obstacle.\<close>

definition smooth_world :: pass_world where
  "smooth_world = \<lparr>shutdown_at = (\<lambda>_. False), drain_at = (\<lambda>_. Some (Inr True)), step_at = (\<lambda>_ _. StepDone),
     describe = (\<lambda>_. [])\<rparr>"

section \<open>A whole pass\<close>

lemma attempts_outcome:
  assumes "attempts_from w v n k failure s = (ok, s')"
  shows "rest s' = rest s \<and> latch_signals s' = latch_signals s \<and> latch_version s' = latch_version s \<and>
    list_all2 kept (completions s) (completions s') \<and>
    (ok \<longrightarrow> (\<exists>j \<in> {k..<k + n}. clean_attempt w j s) \<and>
       (\<forall>v'. v = Some v' \<and> graph_ready s \<longrightarrow> maintained v' (completions s'))) \<and>
    (\<forall>u. maintained u (completions s') \<longrightarrow> maintained u (completions s) \<or>
       v = Some u \<and> (\<exists>j \<in> {k..<k + n}. clean_attempt w j s))"
  using assms
proof (induction n arbitrary: k failure s)
  case (Suc n)
  show ?case
  proof (cases "shutdown_at w k")
    case True
    with Suc.prems show ?thesis by simp
  next
    case False
    obtain ok1 f1 s1 where a: "maintenance_attempt w v k failure s = ((ok1, f1), s1)"
      by (cases "maintenance_attempt w v k failure s") force
    note o = attempt_outcome [OF a]
    have k: "k \<in> {k..<k + Suc n}" by simp
    consider (finished) "ok1" "ok" "s' = s1"
      | (last) "\<not> ok1" "\<not> ok" "s' = give_up v f1 s1"
      | (again) "\<not> ok1" "attempts_from w v n (k + 1) f1 s1 = (ok, s')"
      using Suc.prems False a by (cases ok1; cases "k = POST_IMPORT_MAINTENANCE_MAX_ATTEMPTS") simp_all
    then show ?thesis
    proof cases
      case finished
      with o k show ?thesis by blast
    next
      case last
      note g = give_up_outcome [where v = v and e = f1 and s = s1]
      have "list_all2 kept (completions s) (completions s')" using kept_all_trans o(4) g(4) last(3) by simp
      with last(2,3) o(1-3,6) g(1-3,5) k show ?thesis by metis
    next
      case again
      from Suc.IH [OF again(2)] have IH: "rest s' = rest s1" "latch_signals s' = latch_signals s1"
        "latch_version s' = latch_version s1" "list_all2 kept (completions s1) (completions s')"
        "ok \<longrightarrow> (\<exists>j \<in> {k + 1..<k + 1 + n}. clean_attempt w j s) \<and>
          (\<forall>v'. v = Some v' \<and> graph_ready s \<longrightarrow> maintained v' (completions s'))"
        "\<forall>u. maintained u (completions s') \<longrightarrow> maintained u (completions s1) \<or>
          v = Some u \<and> (\<exists>j \<in> {k + 1..<k + 1 + n}. clean_attempt w j s)"
        using clean_attempt_rest [OF o(1)] rest_fields(2) [OF o(1)] by simp_all
      let ?C = "\<exists>j \<in> {k..<k + Suc n}. clean_attempt w j s"
      have later: "\<exists>j \<in> {k + 1..<k + 1 + n}. clean_attempt w j s \<Longrightarrow> ?C" by auto
      have now: "clean_attempt w k s \<Longrightarrow> ?C" using k by blast
      have "\<forall>u. maintained u (completions s') \<longrightarrow> maintained u (completions s) \<or> v = Some u \<and> ?C"
        using IH(6) o(6) later now by metis
      then show ?thesis
        using IH(1-3,5) o(1-3) kept_all_trans [OF o(4) IH(4)] later by metis
    qed
  qed
qed simp

text \<open>
  C25. A maintenance pass stamps only what it maintained: success means that in one of the
  three attempts the queues drained and every step was done, and then the version is stamped;
  a version newly stamped is the pass's own and had such an attempt; stamps of earlier passes
  are never moved, and the latch's signals are not touched.
\<close>

theorem pass_stamps:
  assumes "run_post_import_maintenance w v s = (ok, s')"
  shows "list_all2 kept (completions s) (completions s') \<and>
    (ok \<longrightarrow> (\<exists>k \<in> {1, 2, 3}. clean_attempt w k s) \<and>
       (\<forall>v'. v = Some v' \<and> graph_ready s \<longrightarrow> maintained v' (completions s'))) \<and>
    (\<forall>u. maintained u (completions s') \<longrightarrow> maintained u (completions s) \<or>
       v = Some u \<and> (\<exists>k \<in> {1, 2, 3}. clean_attempt w k s))"
proof -
  have "{1..<1 + POST_IMPORT_MAINTENANCE_MAX_ATTEMPTS} = {1, 2, 3}"
    by (auto simp: POST_IMPORT_MAINTENANCE_MAX_ATTEMPTS_def)
  with attempts_outcome [OF assms [unfolded run_post_import_maintenance_def]] show ?thesis by simp
qed

lemma of_version_map: "(\<And>m. cn_version (f m) = cn_version m) \<Longrightarrow> of_version v (map f ms) = map f (of_version v ms)"
  by (induction ms) (simp_all add: of_version_def)

lemma attempt_quiet:
  assumes "faults s = []" and "graph_ready s" and "of_version v (completions s) \<noteq> []"
  shows "clean_attempt w k s \<Longrightarrow> maintenance_attempt w (Some v) k failure s =
      ((True, failure), s\<lparr>completions := map (stamp_success v (clock s)) (completions s)\<rparr>)"
    and "\<not> clean_attempt w k s \<Longrightarrow> \<exists>e. maintenance_attempt w (Some v) k failure s = ((False, e), s)"
proof -
  from assms(3) have "of_version v (map (stamp_success v (clock s)) (completions s)) \<noteq> []"
    by (subst of_version_map) (simp_all add: stamp_success_def)
  then show "clean_attempt w k s \<Longrightarrow> maintenance_attempt w (Some v) k failure s =
      ((True, failure), s\<lparr>completions := map (stamp_success v (clock s)) (completions s)\<rparr>)"
    using assms by (simp add: maintenance_attempt_def attempt_failures_Nil [symmetric] stamp_maintenance_success_def
        statement_quiet)
  show "\<not> clean_attempt w k s \<Longrightarrow> \<exists>e. maintenance_attempt w (Some v) k failure s = ((False, e), s)"
    by (auto simp: maintenance_attempt_def attempt_failures_Nil [symmetric] split: sum.splits list.splits)
qed

lemma attempts_quiet:
  assumes "faults s = []" and "graph_ready s" and "of_version v (completions s) \<noteq> []"
    and "\<forall>j \<in> {k..<k + n}. \<not> shutdown_at w j" and "0 < n" and "k + n = POST_IMPORT_MAINTENANCE_MAX_ATTEMPTS + 1"
  shows "if \<exists>j \<in> {k..<k + n}. clean_attempt w j s
    then attempts_from w (Some v) n k failure s =
           (True, s\<lparr>completions := map (stamp_success v (clock s)) (completions s)\<rparr>)
    else \<exists>e. attempts_from w (Some v) n k failure s = (False,
           s\<lparr>completions := map (note_failure v (take MAINTENANCE_ERROR_MAX_CHARS e) (clock s)) (completions s)\<rparr>)"
  using assms(4-6)
proof (induction n arbitrary: k failure)
  case (Suc n)
  then have run: "\<not> shutdown_at w k" by simp
  show ?case
  proof (cases "clean_attempt w k s")
    case True
    then have "\<exists>j \<in> {k..<k + Suc n}. clean_attempt w j s" by force
    with True run attempt_quiet(1) [OF assms(1-3) True] show ?thesis by simp
  next
    case False
    with attempt_quiet(2) [OF assms(1-3)] obtain e where e: "maintenance_attempt w (Some v) k failure s = ((False, e), s)"
      by blast
    have split: "(\<exists>j \<in> {k..<k + Suc n}. clean_attempt w j s) \<longleftrightarrow> (\<exists>j \<in> {k + 1..<k + 1 + n}. clean_attempt w j s)"
    proof -
      have "{k..<k + Suc n} = insert k {k + 1..<k + 1 + n}" by auto
      with False show ?thesis by simp
    qed
    show ?thesis
    proof (cases "n = 0")
      case True
      with Suc.prems(3) have "k = POST_IMPORT_MAINTENANCE_MAX_ATTEMPTS" by simp
      moreover from True False have "\<not> (\<exists>j \<in> {k..<k + Suc n}. clean_attempt w j s)" by auto
      ultimately show ?thesis
        using run e assms(1,2)
        by (auto simp: give_up_def record_maintenance_failure_def statement_quiet)
    next
      case n: False
      with Suc.prems(3) have "k \<noteq> POST_IMPORT_MAINTENANCE_MAX_ATTEMPTS" by simp
      then have step: "attempts_from w (Some v) (Suc n) k failure s = attempts_from w (Some v) n (k + 1) e s"
        using run e by simp
      have "\<forall>j \<in> {k + 1..<k + 1 + n}. \<not> shutdown_at w j" using Suc.prems(1) by simp
      moreover have "0 < n" "k + 1 + n = POST_IMPORT_MAINTENANCE_MAX_ATTEMPTS + 1" using n Suc.prems(3) by simp_all
      ultimately show ?thesis unfolding split step by (rule Suc.IH)
    qed
  qed
qed simp

lemma pass_stamps_witness:
  "maintained (lit ''v1'') (completions (snd (run_post_import_maintenance smooth_world (Some (lit ''v1''))
     (fresh_service [blank_completion (lit ''v1'') 0]))))"
proof -
  let ?run = "run_post_import_maintenance smooth_world (Some (lit ''v1'')) (fresh_service [blank_completion (lit ''v1'') 0])"
  obtain ok s' where run: "?run = (ok, s')" by fastforce
  have "fst ?run" by code_simp
  with pass_stamps [OF run] run show ?thesis by (simp add: fresh_service_def)
qed

text \<open>
  When neither the database nor a shutdown interferes, a pass succeeds exactly when one of
  its three attempts is clean, and then stamps the version's nodes; otherwise it leaves the
  failure, in at most 500 characters, on those of them that carry no stamp.
\<close>

theorem pass_succeeds_iff:
  assumes "faults s = []" and "graph_ready s" and "of_version v (completions s) \<noteq> []"
    and "\<forall>k \<in> {1, 2, 3}. \<not> shutdown_at w k"
  shows "if \<exists>k \<in> {1, 2, 3}. clean_attempt w k s
    then run_post_import_maintenance w (Some v) s =
           (True, s\<lparr>completions := map (stamp_success v (clock s)) (completions s)\<rparr>)
    else \<exists>e. length e \<le> 500 \<and> run_post_import_maintenance w (Some v) s =
           (False, s\<lparr>completions := map (note_failure v e (clock s)) (completions s)\<rparr>)"
proof -
  have three: "{1..<1 + POST_IMPORT_MAINTENANCE_MAX_ATTEMPTS} = {1, 2, 3}"
    by (auto simp: POST_IMPORT_MAINTENANCE_MAX_ATTEMPTS_def)
  from assms(4) have "\<forall>j \<in> {1..<1 + POST_IMPORT_MAINTENANCE_MAX_ATTEMPTS}. \<not> shutdown_at w j"
    by (simp only: three)
  moreover have "0 < POST_IMPORT_MAINTENANCE_MAX_ATTEMPTS"
    "1 + POST_IMPORT_MAINTENANCE_MAX_ATTEMPTS = POST_IMPORT_MAINTENANCE_MAX_ATTEMPTS + 1"
    by (simp_all add: POST_IMPORT_MAINTENANCE_MAX_ATTEMPTS_def)
  ultimately have "if \<exists>k \<in> {1, 2, 3}. clean_attempt w k s
    then run_post_import_maintenance w (Some v) s =
           (True, s\<lparr>completions := map (stamp_success v (clock s)) (completions s)\<rparr>)
    else \<exists>e. run_post_import_maintenance w (Some v) s = (False,
           s\<lparr>completions := map (note_failure v (take MAINTENANCE_ERROR_MAX_CHARS e) (clock s)) (completions s)\<rparr>)"
    unfolding run_post_import_maintenance_def three [symmetric] by (rule attempts_quiet [OF assms(1-3)])
  moreover have "length (take MAINTENANCE_ERROR_MAX_CHARS e) \<le> 500" for e :: pystr
    by (simp add: MAINTENANCE_ERROR_MAX_CHARS_def)
  ultimately show ?thesis by (cases "\<exists>k \<in> {1, 2, 3}. clean_attempt w k s") (simp only: if_True if_False, metis)+
qed

text \<open>The first attempt meets a step that does not complete, the second is clean.\<close>

definition flaky_world :: pass_world where
  "flaky_world = smooth_world\<lparr>step_at := (\<lambda>k name. if k = 1 \<and> name = lit ''artist_stats'' then StepIncomplete else StepDone)\<rparr>"

lemma pass_succeeds_iff_witness:
  "let s = fresh_service [blank_completion (lit ''v1'') 0] in
   fst (run_post_import_maintenance flaky_world (Some (lit ''v1'')) s) \<and> \<not> clean_attempt flaky_world 1 s"
proof -
  let ?s = "fresh_service [blank_completion (lit ''v1'') 0]"
  have "of_version (lit ''v1'') (completions ?s) \<noteq> []"
    by (simp add: fresh_service_def blank_completion_def of_version_def)
  moreover have "clean_attempt flaky_world 2 ?s" "\<forall>k. \<not> shutdown_at flaky_world k"
    by (simp_all add: clean_attempt_def flaky_world_def smooth_world_def)
  moreover have "\<not> clean_attempt flaky_world 1 ?s"
    by (simp add: clean_attempt_def flaky_world_def smooth_world_def maintenance_steps_def fresh_service_def)
  ultimately show ?thesis
    using pass_succeeds_iff [of ?s "lit ''v1''" flaky_world] by (auto simp: fresh_service_def Let_def)
qed

end
