(* ===== verification/MarkerSystem.thy ===== *)
theory MarkerSystem
  imports MaintenanceRun
begin

text \<open>
  The latch under concurrency and crashes. Any number of marker handlers interleave at their
  awaits, maintenance attempts run between them, the database fails or loses answers, and the
  process may die at any point and start again with nothing but the database. A step relation
  has one rule per kind of step; what acknowledged markers promise is an invariant of it.
\<close>

section \<open>The system\<close>

text \<open>
  \<open>acknowledged\<close> records the extraction markers the service has acknowledged, by version and
  type; \<open>passed\<close> the versions for which an attempt of their own pass was clean. Both are for the statements
  only, no step reads them.
\<close>

record system =
  server :: service
  in_flight :: "(marker \<times> phase) list"
  acknowledged :: "(pystr \<times> pystr) set"
  passed :: "pystr set"

definition newly_acknowledged :: "marker_config \<Rightarrow> marker \<Rightarrow> phase \<Rightarrow> (pystr \<times> pystr) set" where
  "newly_acknowledged cfg d ph =
     (case ph of
        Acking _ \<Rightarrow> if is_file_complete d \<or> \<not> mk_channel_up d then {} else {(marker_version cfg d, mk_type d)}
      | _ \<Rightarrow> {})"

text \<open>A process that has just started: the database as it was, everything in memory fresh.\<close>

definition fresh_process :: "completion list \<Rightarrow> service \<Rightarrow> bool" where
  "fresh_process ms s' \<longleftrightarrow> completions s' = ms \<and> latch_signals s' = {} \<and> latch_version s' = None \<and>
     completed_files s' = {} \<and> extraction_signalled s' = {} \<and> consumer_tags s' = [] \<and> cancel_timers s' = {} \<and>
     maintenance_task s' = None \<and> refresh_task s' = None"

text \<open>What the surroundings may change at any time: not the nodes, the latch or the tasks.\<close>

definition surroundings :: "service \<Rightarrow> service \<Rightarrow> bool" where
  "surroundings s s' \<longleftrightarrow> completions s' = completions s \<and> latch_signals s' = latch_signals s \<and>
     latch_version s' = latch_version s \<and> maintenance_task s' = maintenance_task s \<and> refresh_task s' = refresh_task s"

inductive sys_step :: "marker_config \<Rightarrow> system \<Rightarrow> system \<Rightarrow> bool" for cfg where
  deliver: "sys_step cfg c (c\<lparr>in_flight := in_flight c @ [(d, Arrived)]\<rparr>)"
| proceed: "i < length (in_flight c) \<Longrightarrow> in_flight c ! i = (d, ph) \<Longrightarrow>
     advance cfg d ph (server c) = (ph', s') \<Longrightarrow>
     sys_step cfg c (c\<lparr>server := s', in_flight := (in_flight c)[i := (d, ph')],
                       acknowledged := acknowledged c \<union> newly_acknowledged cfg d ph\<rparr>)"
| attempt: "maintenance_task (server c) = Some t \<Longrightarrow> task_state t \<noteq> Finished \<Longrightarrow>
     maintenance_attempt w (task_version t) k failure (server c) = (r, s') \<Longrightarrow>
     sys_step cfg c (c\<lparr>server := s',
       passed := passed c \<union> {v. task_version t = Some v \<and> clean_attempt w k (server c)}\<rparr>)"
| giving_up: "maintenance_task (server c) = Some t \<Longrightarrow> task_state t \<noteq> Finished \<Longrightarrow>
     sys_step cfg c (c\<lparr>server := give_up (task_version t) failure (server c)\<rparr>)"
| task_end: "maintenance_task (server c) = Some t \<Longrightarrow>
     sys_step cfg c (c\<lparr>server := (server c)\<lparr>maintenance_task := Some (t\<lparr>task_state := Finished\<rparr>)\<rparr>\<rparr>)"
| resume: "resume_pending_maintenance (server c) = (b, s') \<Longrightarrow> sys_step cfg c (c\<lparr>server := s'\<rparr>)"
| refresh: "resume_stats_refresh (server c) = (b, s') \<Longrightarrow> sys_step cfg c (c\<lparr>server := s'\<rparr>)"
| refresh_run: "run_stats_refresh w v (server c) = (b, s') \<Longrightarrow> sys_step cfg c (c\<lparr>server := s'\<rparr>)"
| outside: "surroundings (server c) s' \<Longrightarrow> sys_step cfg c (c\<lparr>server := s'\<rparr>)"
| restart: "fresh_process (completions (server c)) s' \<Longrightarrow>
     sys_step cfg c (c\<lparr>server := s', in_flight := []\<rparr>)"

inductive reachable_from :: "marker_config \<Rightarrow> completion list \<Rightarrow> system \<Rightarrow> bool" for cfg ms where
  start: "fresh_process ms (server c) \<Longrightarrow> in_flight c = [] \<Longrightarrow> acknowledged c = {} \<Longrightarrow> passed c = {} \<Longrightarrow>
     reachable_from cfg ms c"
| step: "reachable_from cfg ms c \<Longrightarrow> sys_step cfg c c' \<Longrightarrow> reachable_from cfg ms c'"

section \<open>The invariant\<close>

definition all_signalled :: "pystr \<Rightarrow> service \<Rightarrow> bool" where
  "all_signalled v s \<longleftrightarrow> set DATA_TYPES \<subseteq> durable_signals v (completions s)"

definition signalled :: "marker_config \<Rightarrow> marker \<Rightarrow> service \<Rightarrow> bool" where
  "signalled cfg d s \<longleftrightarrow> mk_type d \<in> durable_signals (marker_version cfg d) (completions s)"

text \<open>What a handler has established when it reaches a phase.\<close>

definition phase_ok :: "marker_config \<Rightarrow> service \<Rightarrow> marker \<times> phase \<Rightarrow> bool" where
  "phase_ok cfg s c =
     (case c of (d, ph) \<Rightarrow>
       (case ph of
          Recording \<Rightarrow> \<not> is_file_complete d
        | Checking \<Rightarrow> \<not> is_file_complete d \<and> signalled cfg d s \<and> all_signalled (marker_version cfg d) s
        | Acking w \<Rightarrow> (is_file_complete d \<and> w = None \<or> signalled cfg d s) \<and>
            (\<forall>v. w = Some v \<longrightarrow> all_signalled v s)
        | Starting v \<Rightarrow> all_signalled v s
        | _ \<Rightarrow> True))"

definition task_ok :: "service \<Rightarrow> bool" where
  "task_ok s \<longleftrightarrow> (\<forall>t v. maintenance_task s = Some t \<longrightarrow> task_version t = Some v \<longrightarrow> all_signalled v s)"

definition sys_ok :: "marker_config \<Rightarrow> completion list \<Rightarrow> system \<Rightarrow> bool" where
  "sys_ok cfg ms c \<longleftrightarrow> coherent (server c) \<and> task_ok (server c) \<and>
     (\<forall>p \<in> set (in_flight c). phase_ok cfg (server c) p) \<and>
     (\<forall>(v, dt) \<in> acknowledged c. dt \<in> durable_signals v (completions (server c))) \<and>
     (\<forall>v \<in> passed c. all_signalled v (server c)) \<and>
     (\<forall>v. maintained v (completions (server c)) \<longrightarrow> maintained v ms \<or> v \<in> passed c) \<and>
     (\<forall>v. durable_signals v ms \<subseteq> durable_signals v (completions (server c))) \<and>
     (\<forall>v. maintained v ms \<longrightarrow> maintained v (completions (server c)))"

text \<open>What a step may do to the nodes without disturbing what others rely on.\<close>

definition grows :: "service \<Rightarrow> service \<Rightarrow> bool" where
  "grows s s' \<longleftrightarrow> (\<forall>v. durable_signals v (completions s) \<subseteq> durable_signals v (completions s')) \<and>
     (\<forall>v. maintained v (completions s) \<longrightarrow> maintained v (completions s'))"

lemma growsI [intro?]:
  "(\<And>v. durable_signals v (completions s) \<subseteq> durable_signals v (completions s')) \<Longrightarrow>
   (\<And>v. maintained v (completions s) \<Longrightarrow> maintained v (completions s')) \<Longrightarrow> grows s s'"
  by (simp add: grows_def)

lemma grows_same: "completions s' = completions s \<Longrightarrow> grows s s'"
  by (simp add: grows_def)

lemma grows_kept: "list_all2 kept (completions s) (completions s') \<Longrightarrow> grows s s'"
  by (simp add: grows_def kept_durable kept_maintained)

lemma grows_signalled: "grows s s' \<Longrightarrow> all_signalled v s \<Longrightarrow> all_signalled v s'"
  "grows s s' \<Longrightarrow> signalled cfg d s \<Longrightarrow> signalled cfg d s'"
  by (auto simp: grows_def all_signalled_def signalled_def)

lemma grows_phase: "grows s s' \<Longrightarrow> phase_ok cfg s p \<Longrightarrow> phase_ok cfg s' p"
  by (auto simp: phase_ok_def split: prod.splits phase.splits dest: grows_signalled)

text \<open>
  The frame: a step of the server that lets the nodes grow, keeps the cache coherent and the
  task legitimate, and makes no stamp of its own, keeps everything but the handler that took it.
\<close>

lemma sys_ok_frame:
  assumes "sys_ok cfg ms c" and "grows (server c) s'" and "coherent s'" and "task_ok s'"
    and "\<And>v. maintained v (completions s') \<Longrightarrow> maintained v (completions (server c)) \<or> v \<in> P"
    and "\<forall>v \<in> P. all_signalled v s'"
    and "\<forall>p \<in> set fl. phase_ok cfg s' p"
    and "\<forall>(v, dt) \<in> A. dt \<in> durable_signals v (completions s')"
  shows "sys_ok cfg ms (c\<lparr>server := s', in_flight := fl, acknowledged := acknowledged c \<union> A, passed := passed c \<union> P\<rparr>)"
proof -
  have d: "\<And>v. durable_signals v (completions (server c)) \<subseteq> durable_signals v (completions s')"
    and m: "\<And>v. maintained v (completions (server c)) \<Longrightarrow> maintained v (completions s')"
    using assms(2) by (auto simp: grows_def)
  from assms(1) have old: "\<forall>(v, dt) \<in> acknowledged c. dt \<in> durable_signals v (completions (server c))"
    "\<forall>v \<in> passed c. all_signalled v (server c)"
    "\<forall>v. maintained v (completions (server c)) \<longrightarrow> maintained v ms \<or> v \<in> passed c"
    "\<forall>v. durable_signals v ms \<subseteq> durable_signals v (completions (server c))"
    "\<forall>v. maintained v ms \<longrightarrow> maintained v (completions (server c))"
    by (simp_all add: sys_ok_def)
  have "\<forall>(v, dt) \<in> acknowledged c \<union> A. dt \<in> durable_signals v (completions s')"
    using old(1) assms(8) d by blast
  moreover have "\<forall>v \<in> passed c \<union> P. all_signalled v s'"
    using old(2) assms(6) grows_signalled(1) [OF assms(2)] by blast
  moreover have "\<forall>v. maintained v (completions s') \<longrightarrow> maintained v ms \<or> v \<in> passed c \<union> P"
    using old(3) assms(5) by blast
  moreover have "\<forall>v. durable_signals v ms \<subseteq> durable_signals v (completions s')"
    using old(4) d by blast
  moreover have "\<forall>v. maintained v ms \<longrightarrow> maintained v (completions s')"
    using old(5) m by blast
  ultimately show ?thesis using assms(3,4,7) by (simp add: sys_ok_def)
qed

section \<open>Every operation keeps it\<close>

text \<open>Operations that touch neither the nodes, nor the latch, nor the maintenance task.\<close>

definition quiet :: "service \<Rightarrow> service \<Rightarrow> bool" where
  "quiet s s' \<longleftrightarrow> completions s' = completions s \<and> latch_signals s' = latch_signals s \<and>
     latch_version s' = latch_version s \<and> maintenance_task s' = maintenance_task s"

lemma quietD:
  assumes "quiet s s'"
  shows "grows s s'" "coherent s \<Longrightarrow> coherent s'" "task_ok s \<Longrightarrow> task_ok s'"
    and "maintained v (completions s') \<Longrightarrow> maintained v (completions s)"
    and "durable_signals v (completions s') = durable_signals v (completions s)"
  using assms by (auto simp: quiet_def coherent_def task_ok_def all_signalled_def intro: grows_same)

lemma quiet_trans: "quiet a b \<Longrightarrow> quiet b c \<Longrightarrow> quiet a c"
  by (simp add: quiet_def)

lemma quiet_small [simp]:
  "quiet s s" "quiet s (emit e s)" "quiet s (drop_timer dt s)" "quiet s (complete_file cfg dt s)"
  "quiet s (complete_type cfg dt s)"
  by (auto simp: quiet_def drop_timer_def complete_file_def complete_type_def arm_cancellation_def
      schedule_consumer_cancellation_def Let_def)

lemma quiet_settle: "settle_with e d s = (r, s') \<Longrightarrow> quiet s s'"
  by (auto simp: settle_with_def split: if_splits)

lemma quiet_acknowledge: "acknowledge d s = (r, s') \<Longrightarrow> quiet s s'"
  unfolding acknowledge_def by (rule quiet_trans [OF quiet_small(2) quiet_settle])

lemma quiet_requeue: "requeue_marker d s = (r, s') \<Longrightarrow> quiet s s'"
  by (auto simp: requeue_marker_def bindA_def settle_with_def quiet_def split: if_splits)

lemma quiet_maintained: "is_extraction_maintained v s = (r, s') \<Longrightarrow> quiet s s'"
  using maintained_outcome [of v s r s'] rest_fields(8) [of s' s] by (simp add: quiet_def)

lemma start_outcome:
  "completions (start_post_import_maintenance v s) = completions s"
  "latch_signals (start_post_import_maintenance v s) = latch_signals s"
  "latch_version (start_post_import_maintenance v s) = latch_version s"
  "maintenance_task (start_post_import_maintenance v s) =
     (if task_done (maintenance_task s) then Some \<lparr>task_version = v, task_state = Running\<rparr> else maintenance_task s)"
  by (auto simp: start_post_import_maintenance_def Let_def split: option.splits)

lemma start_ok:
  assumes "coherent s" and "task_ok s" and "\<forall>u. v = Some u \<longrightarrow> all_signalled u s"
  shows "grows s (start_post_import_maintenance v s)" "coherent (start_post_import_maintenance v s)"
    "task_ok (start_post_import_maintenance v s)"
  using assms by (auto simp: coherent_def task_ok_def all_signalled_def start_outcome intro: grows_same)

text \<open>One section of a handler.\<close>

definition section_ok :: "marker_config \<Rightarrow> marker \<Rightarrow> phase \<Rightarrow> service \<Rightarrow> phase \<Rightarrow> service \<Rightarrow> bool" where
  "section_ok cfg d ph s ph' s' \<longleftrightarrow> grows s s' \<and> coherent s' \<and> task_ok s' \<and> phase_ok cfg s' (d, ph') \<and>
     (\<forall>v. maintained v (completions s') \<longrightarrow> maintained v (completions s)) \<and>
     (\<forall>(v, dt) \<in> newly_acknowledged cfg d ph. dt \<in> durable_signals v (completions s'))"

lemma section_quiet:
  assumes "quiet s s'" and "coherent s" and "task_ok s" and "phase_ok cfg s (d, ph')"
    and "\<forall>(v, dt) \<in> newly_acknowledged cfg d ph. dt \<in> durable_signals v (completions s)"
  shows "section_ok cfg d ph s ph' s'"
  unfolding section_ok_def
  using quietD [OF assms(1)] assms(2-5) grows_phase [OF quietD(1) [OF assms(1)]] by auto

lemma section_recording:
  assumes "advance cfg d Recording s = (ph', s')" and "coherent s" and "task_ok s" and "\<not> is_file_complete d"
  shows "section_ok cfg d Recording s ph' s'"
proof -
  let ?v = "marker_version cfg d"
  obtain q s1 where rec: "record_extraction_signal ?v (mk_type d) s = (q, s1)" by fastforce
  note k = record_keeps [OF rec assms(2)]
  have grow: "grows s s1" using k(2,3) by (auto intro: growsI)
  have task: "task_ok s1"
    using assms(3) k(4) grows_signalled(1) [OF grow] rest_fields(8) [of s1 s] by (auto simp: task_ok_def)
  have quiet: "quiet s1 s'"
    using assms(1) rec by (cases q) (auto simp: advance_def)
  have phase: "phase_ok cfg s1 (d, ph')"
  proof (cases q)
    case (Inr S)
    from record_durable [OF rec [unfolded Inr] assms(2)] have "mk_type d \<in> S" "S \<subseteq> durable_signals ?v (completions s1)"
      by blast+
    with assms(1,4) rec Inr show ?thesis
      by (auto simp: advance_def phase_ok_def signalled_def all_signalled_def split: if_splits)
  qed (use assms(1) rec in \<open>auto simp: advance_def phase_ok_def\<close>)
  from section_quiet [OF quiet k(1) task phase, of Recording]
  have "section_ok cfg d Recording s1 ph' s'" by (simp add: newly_acknowledged_def)
  with grow k(3) show ?thesis unfolding section_ok_def grows_def by (meson order_trans)
qed

lemma section_keeps:
  assumes "advance cfg d ph s = (ph', s')" and "coherent s" and "task_ok s" and "phase_ok cfg s (d, ph)"
  shows "section_ok cfg d ph s ph' s'"
proof (cases ph)
  case Recording
  with assms show ?thesis using section_recording by (auto simp: phase_ok_def)
next
  case (Starting v)
  with assms have s': "s' = start_post_import_maintenance (Some v) s" and ph': "ph' = Settled (Inr True)"
    and all: "all_signalled v s" by (simp_all add: advance_def phase_ok_def)
  with start_ok [OF assms(2,3), of "Some v"] Starting show ?thesis
    by (simp add: section_ok_def newly_acknowledged_def phase_ok_def start_outcome)
next
  case (Acking w)
  obtain r s1 where a: "acknowledge d s = (r, s1)" by fastforce
  have "quiet s s'" using assms(1) a Acking quiet_acknowledge [OF a] by (auto simp: advance_def split: sum.splits)
  with Acking assms a show ?thesis
    by (intro section_quiet)
      (auto simp: advance_def phase_ok_def newly_acknowledged_def signalled_def split: sum.splits option.splits if_splits)
next
  case Checking
  obtain r s1 where m: "is_extraction_maintained (marker_version cfg d) s = (r, s1)" by fastforce
  have "quiet s s'" using assms(1) m Checking quiet_maintained [OF m] by (auto simp: advance_def split: sum.splits)
  with Checking assms m show ?thesis
    by (intro section_quiet) (auto simp: advance_def phase_ok_def newly_acknowledged_def split: sum.splits if_splits)
next
  case Requeueing
  with assms show ?thesis
    by (intro section_quiet) (auto simp: advance_def phase_ok_def newly_acknowledged_def split: prod.splits dest: quiet_requeue)
next
  case Arrived
  with assms show ?thesis
    by (intro section_quiet) (auto simp: advance_def phase_ok_def newly_acknowledged_def split: if_splits)
next
  case Flushing
  with assms show ?thesis
    by (intro section_quiet) (auto simp: advance_def phase_ok_def newly_acknowledged_def split: if_splits)
next
  case (Settled r)
  with assms show ?thesis
    by (intro section_quiet) (auto simp: advance_def phase_ok_def newly_acknowledged_def)
qed

section \<open>Every step keeps the invariant\<close>

lemma quiet_load:
  assumes "load_extraction_signals v s = (r, s')"
  shows "quiet s s'" and "r = Inr S \<Longrightarrow> graph_ready s \<Longrightarrow> S = durable_signals v (completions s')"
  using load_outcome [OF assms] rest_fields(8) [of s' s] by (simp_all add: quiet_def)

lemma quiet_latest: "latest_extraction_version s = (r, s') \<Longrightarrow> quiet s s' \<and> graph_ready s' = graph_ready s"
  by (auto simp: latest_extraction_version_def statement_def quiet_def split: if_splits prod.splits fault.splits)

lemma quiet_resume:
  assumes "resume_pending_maintenance s = (b, s')"
  shows "quiet s s' \<or> (\<exists>v s1. quiet s s1 \<and> all_signalled v s1 \<and> s' = start_post_import_maintenance (Some v) s1)"
proof (cases "graph_ready s")
  case False
  with assms show ?thesis by (simp add: resume_pending_maintenance_def)
next
  case ready: True
  obtain lv s1 where l: "latest_extraction_version s = (lv, s1)" by fastforce
  with quiet_latest have q1: "quiet s s1" and ready1: "graph_ready s1" using ready by auto
  show ?thesis
  proof (cases "\<exists>v. lv = Inr (Some v)")
    case False
    with assms l ready q1 show ?thesis
      by (auto simp: resume_pending_maintenance_def bindA_def split: sum.splits option.splits)
  next
    case True
    then obtain v where v: "lv = Inr (Some v)" by blast
    obtain S s2 where ld: "load_extraction_signals v s1 = (S, s2)" by fastforce
    obtain m s3 where mt: "is_extraction_maintained v s2 = (m, s3)" by fastforce
    note q = quiet_trans [OF q1 quiet_load(1) [OF ld]]
    note q' = quiet_trans [OF q quiet_maintained [OF mt]]
    show ?thesis
    proof (cases "\<exists>T. S = Inr T \<and> set DATA_TYPES \<subseteq> T \<and> m = Inr False")
      case False
      with assms l ready v ld mt q q' show ?thesis
        by (auto simp: resume_pending_maintenance_def bindA_def split: sum.splits if_splits)
    next
      case True
      then have "all_signalled v s3"
        using quiet_load(2) [OF ld _ ready1] quietD(5) [OF quiet_maintained [OF mt]] by (auto simp: all_signalled_def)
      moreover from True assms l ready v ld mt have "s' = start_post_import_maintenance (Some v) s3"
        by (auto simp: resume_pending_maintenance_def bindA_def)
      ultimately show ?thesis using q' by blast
    qed
  qed
qed

text \<open>Actions that only read.\<close>

definition quiet_action :: "'a action \<Rightarrow> bool" where
  "quiet_action m \<longleftrightarrow> (\<forall>s r s'. m s = (r, s') \<longrightarrow> quiet s s')"

lemma quiet_actions [simp]:
  "quiet_action (\<lambda>s. (x, s))" "quiet_action latest_extraction_version" "quiet_action (load_extraction_signals v)"
  "quiet_action (is_extraction_maintained v)"
  using quiet_latest quiet_load(1) quiet_maintained by (auto simp: quiet_action_def)

lemma quiet_bindA:
  assumes "quiet_action m" and "\<And>x. quiet_action (f x)"
  shows "quiet_action (bindA m f)"
  unfolding quiet_action_def
proof (intro allI impI)
  fix s r s'
  assume run: "bindA m f s = (r, s')"
  obtain q s1 where m: "m s = (q, s1)" by fastforce
  with assms(1) have "quiet s s1" by (simp add: quiet_action_def)
  moreover have "quiet s1 s'" if "q = Inr x" for x
    using run m that assms(2) [of x] by (auto simp: bindA_def quiet_action_def)
  ultimately show "quiet s s'" using run m quiet_trans by (cases q) (auto simp: bindA_def)
qed

lemma quiet_if: "quiet_action f \<Longrightarrow> quiet_action g \<Longrightarrow> quiet_action (if b then f else g)"
  by simp

lemma quiet_stored: "quiet_action (stored_stats_version v)"
  by (auto simp: stored_stats_version_def quiet_action_def quiet_def statement_def split: prod.splits fault.splits)

lemma quiet_stats_version: "quiet_action stats_refresh_version"
proof -
  let ?m = "bindA latest_extraction_version (\<lambda>lv.
        case lv of
          None \<Rightarrow> (\<lambda>s. (Inr None, s))
        | Some v \<Rightarrow> bindA (load_extraction_signals v) (\<lambda>signals.
            if \<not> set DATA_TYPES \<subseteq> signals then (\<lambda>s. (Inr None, s))
            else bindA (is_extraction_maintained v) (\<lambda>m.
              if \<not> m then (\<lambda>s. (Inr None, s))
              else bindA (stored_stats_version v) (\<lambda>stats s.
                (Inr (if stats = Some STATS_VERSION then None else Some v), s)))))"
  have "quiet_action ?m"
    by (intro quiet_bindA quiet_if quiet_actions quiet_stored)
      (auto split: option.split intro!: quiet_bindA quiet_if quiet_stored)
  then show ?thesis
    by (auto simp: quiet_action_def stats_refresh_version_def)
qed

lemma quiet_refresh:
  assumes "resume_stats_refresh s = (b, s')"
  shows "quiet s s'"
proof -
  obtain r s1 where r: "stats_refresh_version s = (r, s1)" by fastforce
  with quiet_stats_version have "quiet s s1" by (simp add: quiet_action_def)
  moreover have "quiet s1 s'"
    using assms r by (auto simp: resume_stats_refresh_def start_stats_refresh_def quiet_def split: sum.splits option.splits if_splits)
  ultimately show ?thesis by (rule quiet_trans)
qed

lemma refresh_run_outcome:
  assumes "run_stats_refresh w v s = (b, s')"
  shows "latch_signals s' = latch_signals s \<and> latch_version s' = latch_version s \<and>
    maintenance_task s' = maintenance_task s \<and>
    (completions s' = completions s \<or> completions s' = map (stamp_stats v) (completions s))"
proof -
  have "refresh_attempts w v n k s = (b, s') \<Longrightarrow> ?thesis" for n k
  proof (induction n arbitrary: k)
    case (Suc n)
    then show ?case
      by (auto simp: stamp_stats_version_def statement_def
          split: sum.splits list.splits if_splits prod.splits fault.splits)
  qed simp
  with assms show ?thesis by (simp add: run_stats_refresh_def)
qed

text \<open>A step of the server alone.\<close>

lemma sys_ok_server:
  assumes "sys_ok cfg ms c" and "grows (server c) s'" and "coherent s'" and "task_ok s'"
    and "\<And>v. maintained v (completions s') \<Longrightarrow> maintained v (completions (server c)) \<or> v \<in> P"
    and "\<forall>v \<in> P. all_signalled v s'"
  shows "sys_ok cfg ms (c\<lparr>server := s', passed := passed c \<union> P\<rparr>)"
proof -
  have "\<forall>p \<in> set (in_flight c). phase_ok cfg s' p"
    using assms(1) grows_phase [OF assms(2)] by (auto simp: sys_ok_def)
  moreover have "c\<lparr>server := s', in_flight := in_flight c, acknowledged := acknowledged c \<union> {}, passed := passed c \<union> P\<rparr>
      = c\<lparr>server := s', passed := passed c \<union> P\<rparr>" by (cases c) simp
  ultimately show ?thesis using sys_ok_frame [OF assms(1-6), of "in_flight c" "{}"] by simp
qed

lemma sys_ok_quiet: "sys_ok cfg ms c \<Longrightarrow> quiet (server c) s' \<Longrightarrow> sys_ok cfg ms (c\<lparr>server := s'\<rparr>)"
  using sys_ok_server [of cfg ms c s' "{}"] quietD [of "server c" s'] by (auto simp: sys_ok_def)

lemma sys_ok_start:
  assumes "sys_ok cfg ms (c\<lparr>server := s1\<rparr>)" and "all_signalled v s1"
  shows "sys_ok cfg ms (c\<lparr>server := start_post_import_maintenance (Some v) s1\<rparr>)"
proof -
  have "coherent s1" "task_ok s1" using assms(1) by (simp_all add: sys_ok_def)
  from start_ok [OF this, of "Some v"] assms(2)
    sys_ok_server [OF assms(1), of "start_post_import_maintenance (Some v) s1" "{}"]
  show ?thesis by (simp add: start_outcome)
qed

lemma sys_ok_kept:
  assumes "sys_ok cfg ms c" and "list_all2 kept (completions (server c)) (completions s')"
    and "latch_signals s' = latch_signals (server c)" "latch_version s' = latch_version (server c)"
    and "maintenance_task s' = maintenance_task (server c)"
    and "\<And>v. maintained v (completions s') \<Longrightarrow> maintained v (completions (server c)) \<or> v \<in> P"
    and "\<forall>v \<in> P. all_signalled v (server c)"
  shows "sys_ok cfg ms (c\<lparr>server := s', passed := passed c \<union> P\<rparr>)"
proof (rule sys_ok_server [OF assms(1) grows_kept [OF assms(2)] _ _ assms(6)])
  note d = kept_durable [OF assms(2)]
  show "coherent s'" "task_ok s'" "\<forall>v \<in> P. all_signalled v s'"
    using assms(1,3-5,7) d by (auto simp: sys_ok_def coherent_def task_ok_def all_signalled_def)
qed

lemma sys_step_ok: "sys_step cfg c c' \<Longrightarrow> sys_ok cfg ms c \<Longrightarrow> sys_ok cfg ms c'"
proof (induction rule: sys_step.induct)
  case (deliver c d)
  then show ?case by (auto simp: sys_ok_def phase_ok_def)
next
  case (proceed i c d ph ph' s')
  then have "phase_ok cfg (server c) (d, ph)" by (auto simp: sys_ok_def dest: nth_mem)
  with proceed have sec: "section_ok cfg d ph (server c) ph' s'"
    by (intro section_keeps) (auto simp: sys_ok_def)
  then have grow: "grows (server c) s'" by (simp add: section_ok_def)
  have "\<forall>p \<in> set ((in_flight c)[i := (d, ph')]). phase_ok cfg s' p"
    using sec grows_phase [OF grow] proceed.prems set_update_subset_insert [of "in_flight c" i "(d, ph')"]
    by (auto simp: sys_ok_def section_ok_def)
  with sys_ok_frame [OF proceed.prems grow, of "{}"] sec show ?case by (simp add: section_ok_def)
next
  case (attempt c t w k failure r s')
  obtain ok f where "r = (ok, f)" by fastforce
  note o = attempt_outcome [OF attempt(3) [unfolded this]]
  let ?P = "{v. task_version t = Some v \<and> clean_attempt w k (server c)}"
  have "\<forall>v \<in> ?P. all_signalled v (server c)"
    using attempt by (auto simp: sys_ok_def task_ok_def)
  moreover have "maintained v (completions s') \<Longrightarrow> maintained v (completions (server c)) \<or> v \<in> ?P" for v
    using o(6) [of v] by auto
  ultimately show ?case
    using o(2-4) rest_fields(8) [OF o(1)] by (intro sys_ok_kept [OF attempt.prems]) auto
next
  case (giving_up c t failure)
  note g = give_up_outcome [where v = "task_version t" and e = failure and s = "server c"]
  have "sys_ok cfg ms (c\<lparr>server := give_up (task_version t) failure (server c), passed := passed c \<union> {}\<rparr>)"
    using g rest_fields(8) [OF g(1)] by (intro sys_ok_kept [OF giving_up.prems]) auto
  then show ?case by simp
next
  case (task_end c t)
  have "sys_ok cfg ms (c\<lparr>server := (server c)\<lparr>maintenance_task := Some (t\<lparr>task_state := Finished\<rparr>)\<rparr>, passed := passed c \<union> {}\<rparr>)"
    using task_end
    by (intro sys_ok_server) (auto simp: sys_ok_def coherent_def task_ok_def all_signalled_def intro: grows_same)
  then show ?case by simp
next
  case (resume c b s')
  from quiet_resume [OF resume(1)] show ?case
  proof
    assume "\<exists>v s1. quiet (server c) s1 \<and> all_signalled v s1 \<and> s' = start_post_import_maintenance (Some v) s1"
    then show ?thesis using sys_ok_start sys_ok_quiet [OF resume.prems] by metis
  qed (rule sys_ok_quiet [OF resume.prems])
next
  case (refresh c b s')
  then show ?case using sys_ok_quiet quiet_refresh by blast
next
  case (refresh_run w v c b s')
  from refresh_run_outcome [OF refresh_run(1)]
  have "sys_ok cfg ms (c\<lparr>server := s', passed := passed c \<union> {}\<rparr>)"
    by (intro sys_ok_kept [OF refresh_run.prems]) (auto simp: kept_map latch_simps)
  then show ?case by simp
next
  case (outside c s')
  then show ?case by (intro sys_ok_quiet) (auto simp: surroundings_def quiet_def)
next
  case (restart c s')
  then have "sys_ok cfg ms (c\<lparr>in_flight := []\<rparr>)" by (auto simp: sys_ok_def)
  moreover have "coherent s'" "task_ok s'" "completions s' = completions (server c)"
    using restart(1) by (auto simp: fresh_process_def coherent_def task_ok_def)
  ultimately show ?case by (auto simp: sys_ok_def all_signalled_def)
qed

lemma reachable_ok: "reachable_from cfg ms c \<Longrightarrow> sys_ok cfg ms c"
proof (induction rule: reachable_from.induct)
  case (start c)
  then show ?case by (auto simp: sys_ok_def fresh_process_def coherent_def task_ok_def)
next
  case (step c c')
  then show ?case using sys_step_ok by blast
qed

end
