(* ===== verification/MarkerTheorems.thy ===== *)
theory MarkerTheorems
  imports MarkerSystem Samples
begin

text \<open>
  What the end-of-type markers and the maintenance after an import guarantee, for every
  interleaving, failure and restart, with a sample run.
\<close>

section \<open>A sample run\<close>

lemma fresh_service: "fresh_process ms (fresh_service ms)"
  by (simp add: fresh_process_def fresh_service_def)

definition demo_config :: marker_config where
  "demo_config = \<lparr>cancel_delay = 300, text_runtime = demo_rt\<rparr>"

definition final_marker :: "pystr \<Rightarrow> string \<Rightarrow> marker" where
  "final_marker dt v = \<lparr>mk_type = dt, mk_data = [(lit ''type'', PStr (lit ''extraction_complete'')), (lit ''version'', PStr (lit v))],
     mk_handouts = 0, mk_flushed = Some True, mk_channel_up = True\<rparr>"

definition demo_start :: system where
  "demo_start = \<lparr>server = fresh_service [], in_flight = [], acknowledged = {}, passed = {}\<rparr>"

definition receive :: "marker \<Rightarrow> system \<Rightarrow> system" where
  "receive d c = c\<lparr>in_flight := in_flight c @ [(d, Arrived)]\<rparr>"

definition run_section :: "marker_config \<Rightarrow> nat \<Rightarrow> system \<Rightarrow> system" where
  "run_section cfg i c =
     (case in_flight c ! i of (d, ph) \<Rightarrow>
      case advance cfg d ph (server c) of (ph', s') \<Rightarrow>
        c\<lparr>server := s', in_flight := (in_flight c)[i := (d, ph')],
          acknowledged := acknowledged c \<union> newly_acknowledged cfg d ph\<rparr>)"

definition run_sections :: "marker_config \<Rightarrow> nat list \<Rightarrow> system \<Rightarrow> system" where
  "run_sections cfg = fold (run_section cfg)"

lemma in_flight_run_section: "length (in_flight (run_section cfg i c)) = length (in_flight c)"
  by (simp add: run_section_def split: prod.split)

lemma reachable_receive: "reachable_from cfg ms c \<Longrightarrow> reachable_from cfg ms (receive d c)"
  unfolding receive_def by (erule reachable_from.step) (rule sys_step.deliver)

lemma reachable_sections:
  "reachable_from cfg ms c \<Longrightarrow> \<forall>i \<in> set is. i < length (in_flight c) \<Longrightarrow> reachable_from cfg ms (run_sections cfg is c)"
proof (induction "is" arbitrary: c)
  case (Cons i "is")
  obtain d ph where d: "in_flight c ! i = (d, ph)" by fastforce
  obtain ph' s' where a: "advance cfg d ph (server c) = (ph', s')" by fastforce
  have "sys_step cfg c (run_section cfg i c)"
    using sys_step.proceed [OF _ d a] Cons.prems(2) d a by (simp add: run_section_def)
  then have "reachable_from cfg ms (run_section cfg i c)" using Cons.prems(1) by (rule reachable_from.step [rotated])
  with Cons show ?case by (simp add: run_sections_def in_flight_run_section)
qed (simp add: run_sections_def)

text \<open>
  The four final markers of one dump arrive together and interleave; the last one is
  acknowledged, and the process dies before it starts the maintenance.
\<close>

definition demo_run :: system where
  "demo_run = run_sections demo_config [0, 1, 2, 3, 3, 2, 1, 0, 0, 2, 2, 1, 3, 0, 3, 1, 1, 3]
     (receive (final_marker (lit ''releases'') ''v1'') (receive (final_marker (lit ''masters'') ''v1'')
       (receive (final_marker (lit ''labels'') ''v1'') (receive (final_marker (lit ''artists'') ''v1'') demo_start))))"

lemma reachable_demo_run: "reachable_from demo_config [] demo_run"
  unfolding demo_run_def
proof (rule reachable_sections)
  have "reachable_from demo_config [] demo_start"
    by (rule reachable_from.start) (simp_all add: demo_start_def fresh_service)
  then show "reachable_from demo_config [] (receive (final_marker (lit ''releases'') ''v1'') (receive (final_marker (lit ''masters'') ''v1'')
       (receive (final_marker (lit ''labels'') ''v1'') (receive (final_marker (lit ''artists'') ''v1'') demo_start))))"
    by (intro reachable_receive)
qed (simp add: receive_def demo_start_def)

text \<open>Evaluated: all four are acknowledged, nothing has been started.\<close>

lemma demo_run_state:
  "acknowledged demo_run = (\<lambda>dt. (lit ''v1'', dt)) ` set DATA_TYPES \<and> maintenance_task (server demo_run) = None \<and>
   map snd (in_flight demo_run) = [Settled (Inr True), Settled (Inr True), Settled (Inr True), Starting (lit ''v1'')]"
  by code_simp

section \<open>What the database keeps\<close>

text \<open>
  C19. An acknowledged end-of-extraction marker is never lost: however handlers interleave,
  whatever statements fail or lose their answer, and after any restart, the type of every
  acknowledged marker is recorded in the database under its version; and the in-memory cache
  never claims a signal the database does not have.
\<close>

theorem acknowledged_markers_durable:
  assumes "reachable_from cfg ms c"
  shows "(\<forall>(v, dt) \<in> acknowledged c. dt \<in> durable_signals v (completions (server c))) \<and>
    (\<forall>v. latch_version (server c) = Some v \<longrightarrow> latch_signals (server c) \<subseteq> durable_signals v (completions (server c)))"
  using reachable_ok [OF assms] by (simp add: sys_ok_def coherent_def)

lemma acknowledged_markers_durable_witness:
  "set DATA_TYPES \<subseteq> durable_signals (lit ''v1'') (completions (server demo_run))"
  using acknowledged_markers_durable [OF reachable_demo_run] demo_run_state by auto

text \<open>
  C20. Maintenance is justified: it only ever runs for a version whose four types have all
  signalled, and a version carries a maintenance stamp only if it had one from the start or
  an attempt of its own pass, after all four signals, drained the queues and completed every
  step.
\<close>

theorem maintenance_justified:
  assumes "reachable_from cfg ms c"
  shows "(\<forall>t v. maintenance_task (server c) = Some t \<and> task_version t = Some v \<longrightarrow>
      set DATA_TYPES \<subseteq> durable_signals v (completions (server c))) \<and>
    (\<forall>v. maintained v (completions (server c)) \<longrightarrow> maintained v ms \<or>
      v \<in> passed c \<and> set DATA_TYPES \<subseteq> durable_signals v (completions (server c)))"
  using reachable_ok [OF assms] unfolding sys_ok_def task_ok_def all_signalled_def by blast

definition demo_maintained :: system where
  "demo_maintained = (let c = run_section demo_config 3 demo_run in
     c\<lparr>server := snd (maintenance_attempt smooth_world (Some (lit ''v1'')) 1 [] (server c)), passed := {lit ''v1''}\<rparr>)"

lemma reachable_demo_maintained: "reachable_from demo_config [] demo_maintained"
proof -
  let ?c = "run_section demo_config 3 demo_run"
  have "length (in_flight demo_run) = 4" by code_simp
  with reachable_sections [OF reachable_demo_run, of "[3]"] have "reachable_from demo_config [] ?c"
    by (simp add: run_sections_def)
  moreover have task: "maintenance_task (server ?c) = Some \<lparr>task_version = Some (lit ''v1''), task_state = Running\<rparr>"
    and none: "passed ?c = {}"
    by code_simp+
  have clean: "clean_attempt smooth_world 1 s" for s by (simp add: clean_attempt_def smooth_world_def)
  have "sys_step demo_config ?c demo_maintained"
    using sys_step.attempt [OF task, of smooth_world 1 "[]"] clean none
    by (cases "maintenance_attempt smooth_world (Some (lit ''v1'')) 1 [] (server ?c)")
      (auto simp: demo_maintained_def Let_def)
  ultimately show ?thesis by (rule reachable_from.step)
qed

lemma maintenance_justified_witness:
  "maintained (lit ''v1'') (completions (server demo_maintained)) \<and>
   set DATA_TYPES \<subseteq> durable_signals (lit ''v1'') (completions (server demo_maintained))"
proof -
  have "maintained (lit ''v1'') (completions (server demo_maintained))" by code_simp
  with maintenance_justified [OF reachable_demo_maintained] show ?thesis by auto
qed

section \<open>Resuming after a restart\<close>

text \<open>
  C21. The maintenance an acknowledged final marker owes is not lost with the process: if all
  four types of the newest version were acknowledged and the version carries no stamp, then
  a process in which no maintenance runs, in particular one that has just started, starts it
  when it looks for pending maintenance and the database answers.
\<close>

theorem pending_maintenance_resumes:
  assumes "reachable_from cfg ms c" and "\<forall>dt \<in> set DATA_TYPES. (v, dt) \<in> acknowledged c"
    and "Option.bind (newest (completions (server c))) cn_version = Some v"
    and "\<not> maintained v (completions (server c))"
    and "graph_ready (server c)" and "faults (server c) = []" and "task_done (maintenance_task (server c))"
  shows "\<exists>s'. resume_pending_maintenance (server c) = (True, s') \<and>
    maintenance_task s' = Some \<lparr>task_version = Some v, task_state = Running\<rparr>"
proof -
  let ?s = "server c"
  have same: "?s\<lparr>completions := completions ?s\<rparr> = ?s" by simp
  have read: "statement id ?s = (True, ?s)" using statement_quiet [OF assms(6), of id] same by simp
  from assms(1,2) have "set DATA_TYPES \<subseteq> durable_signals v (completions ?s)"
    using reachable_ok by (fastforce simp: sys_ok_def)
  with assms(3-5) read have "resume_pending_maintenance ?s = (True, start_post_import_maintenance (Some v) ?s)"
    by (simp add: resume_pending_maintenance_def bindA_def latest_extraction_version_def load_extraction_signals_def
        is_extraction_maintained_def)
  with assms(7) show ?thesis by (simp add: start_outcome)
qed

definition demo_restarted :: system where
  "demo_restarted = demo_run\<lparr>server := fresh_service (completions (server demo_run)), in_flight := []\<rparr>"

lemma pending_maintenance_resumes_witness:
  "\<exists>s'. resume_pending_maintenance (server demo_restarted) = (True, s') \<and>
    maintenance_task s' = Some \<lparr>task_version = Some (lit ''v1''), task_state = Running\<rparr>"
proof (rule pending_maintenance_resumes)
  show "reachable_from demo_config [] demo_restarted"
    unfolding demo_restarted_def
    by (rule reachable_from.step [OF reachable_demo_run]) (rule sys_step.restart, rule fresh_service)
  show "\<forall>dt \<in> set DATA_TYPES. (lit ''v1'', dt) \<in> acknowledged demo_restarted"
    using demo_run_state by (auto simp: demo_restarted_def)
  show "Option.bind (newest (completions (server demo_restarted))) cn_version = Some (lit ''v1'')"
    "\<not> maintained (lit ''v1'') (completions (server demo_restarted))" by code_simp+
qed (simp_all add: demo_restarted_def fresh_service_def task_done_def)

section \<open>Settlements\<close>

fun is_settlement :: "event \<Rightarrow> bool" where
  "is_settlement Ack = True"
| "is_settlement (RequeueOrDeadLetter n) = True"
| "is_settlement DeadLettered = True"
| "is_settlement Queued = True"
| "is_settlement e = False"

text \<open>A delivery handed to the batch engine is the engine's to settle.\<close>

definition settlements :: "service \<Rightarrow> event list" where
  "settlements s = filter is_settlement (trace s)"

lemma settlements_emit: "settlements (emit e s) = settlements s @ (if is_settlement e then [e] else [])"
  by (simp add: settlements_def)

lemma settlements_parts [simp]:
  "settlements (drop_timer dt s) = settlements s" "settlements (complete_file cfg dt s) = settlements s"
  "settlements (complete_type cfg dt s) = settlements s"
  "settlements (start_post_import_maintenance v s) = settlements s"
  by (auto simp: settlements_def drop_timer_def complete_file_def complete_type_def arm_cancellation_def
      schedule_consumer_cancellation_def start_post_import_maintenance_def Let_def split: option.splits)

lemma settlements_rest: "rest s' = rest s \<Longrightarrow> settlements s' = settlements s"
  using rest_fields(10) [of s' s] by (simp add: settlements_def)

text \<open>How a marker is settled, once.\<close>

definition settled_by :: "marker \<Rightarrow> event \<Rightarrow> service \<Rightarrow> (service_error + bool) \<times> service \<Rightarrow> bool" where
  "settled_by d e s r \<longleftrightarrow> (if mk_channel_up d then fst r = Inr True \<and> settlements (snd r) = settlements s @ [e]
     else fst r = Inl ChannelError \<and> settlements (snd r) = settlements s)"

lemma settled_requeue: "settlements s1 = settlements s \<Longrightarrow> settled_by d (RequeueOrDeadLetter MARKER_MAX_REQUEUES) s (requeue_marker d s1)"
  by (auto simp: settled_by_def requeue_marker_def settle_with_def bindA_def settlements_emit)

lemma settled_ack:
  "settlements s1 = settlements s \<Longrightarrow> (\<And>u. settlements (f u) = settlements u) \<Longrightarrow>
     settled_by d Ack s (bindA (acknowledge d) (\<lambda>_ s'. (Inr True, f s')) s1)"
  by (auto simp: settled_by_def acknowledge_def settle_with_def bindA_def settlements_emit)

lemma quiet_ack:
  assumes "\<And>u. completions (f u) = completions u"
  shows "completions (snd (bindA (acknowledge d) (\<lambda>_ s'. (Inr True, f s')) s)) = completions s"
  using quietD(5) assms by (auto simp: bindA_def acknowledge_def settle_with_def)

lemma marker_settled:
  assumes "coherent s"
  shows "if is_file_complete d \<or> is_extraction_complete d
    then settled_by d (RequeueOrDeadLetter 500) s (check_file_completion cfg d s) \<or>
      settled_by d Ack s (check_file_completion cfg d s) \<and> mk_flushed d \<noteq> Some False \<and>
      (is_file_complete d \<or>
       mk_type d \<in> durable_signals (marker_version cfg d) (completions (snd (check_file_completion cfg d s))))
    else check_file_completion cfg d s = (Inr False, s)"
proof (cases "\<not> is_file_complete d \<and> is_extraction_complete d \<and> mk_flushed d \<noteq> Some False")
  case False
  then show ?thesis
    using settled_requeue [of s s d] settled_requeue [of "drop_timer (mk_type d) s" s d]
      settled_ack [of "complete_file cfg (mk_type d) s" s "\<lambda>u. u" d]
    by (auto simp: check_file_completion_def MARKER_MAX_REQUEUES_def)
next
  case True
  let ?v = "marker_version cfg d" and ?s1 = "drop_timer (mk_type d) s"
  have coh: "coherent ?s1" using assms quietD(2) [OF quiet_small(3)] by blast
  obtain q s2 where rec: "record_extraction_signal ?v (mk_type d) ?s1 = (q, s2)" by fastforce
  have set2: "settlements s2 = settlements s" using settlements_rest [OF record_keeps(4) [OF rec coh]] by simp
  let ?s3 = "complete_type cfg (mk_type d) s2"
  obtain m s4 where mt: "is_extraction_maintained ?v ?s3 = (m, s4)" by fastforce
  have set4: "settlements s4 = settlements s" using settlements_rest [OF maintained_outcome(1) [OF mt]] set2 by simp
  show ?thesis
  proof (cases q)
    case (Inl e)
    with True rec settled_requeue [OF set2] show ?thesis by (simp add: check_file_completion_def Let_def MARKER_MAX_REQUEUES_def)
  next
    case (Inr S)
    have dur: "mk_type d \<in> durable_signals ?v (completions ?s3)" "mk_type d \<in> durable_signals ?v (completions s4)"
      using record_durable [OF rec [unfolded Inr] coh] quietD(5) [OF quiet_small(5)]
        quietD(5) [OF quiet_maintained [OF mt]] by auto
    note ack = settled_ack [of ?s3 s "\<lambda>u. u" d] settled_ack [OF set4, of "\<lambda>u. u" d]
      settled_ack [OF set4, of "start_post_import_maintenance (Some ?v)" d]
    show ?thesis
    proof (cases "set DATA_TYPES \<subseteq> S")
      case False
      with True rec Inr ack(1) set2 dur(1) quiet_ack [of "\<lambda>u. u" d ?s3] show ?thesis
        by (simp add: check_file_completion_def Let_def)
    next
      case all: True
      with True rec Inr mt settled_requeue [OF set4] ack(2,3) dur(2) quiet_ack [of "\<lambda>u. u" d s4]
        quiet_ack [of "start_post_import_maintenance (Some ?v)" d s4]
      show ?thesis
        by (cases m; cases "m = Inr True") (auto simp: check_file_completion_def Let_def MARKER_MAX_REQUEUES_def start_outcome)
    qed
  qed
qed

text \<open>
  Every marker is settled exactly once, or, when its channel is gone, not at all and with
  an error; it is acknowledged only after its type's batch queue has drained, and an
  end-of-extraction marker only after its signal is in the database. Anything else is left
  alone and reported as no marker.
\<close>

theorem marker_settlement:
  assumes "coherent s"
  shows "if is_file_complete d \<or> is_extraction_complete d
    then settled_by d (RequeueOrDeadLetter 500) s (check_file_completion cfg d s) \<or>
      settled_by d Ack s (check_file_completion cfg d s) \<and> mk_flushed d \<noteq> Some False \<and>
      (is_file_complete d \<or>
       mk_type d \<in> durable_signals (marker_version cfg d) (completions (snd (check_file_completion cfg d s))))
    else check_file_completion cfg d s = (Inr False, s)"
  by (rule marker_settled [OF assms])

lemma marker_settlement_witness:
  "settlements (snd (check_file_completion demo_config (final_marker (lit ''labels'') ''v1'') (fresh_service []))) = [Ack]"
proof -
  let ?d = "final_marker (lit ''labels'') ''v1''" and ?s = "fresh_service []"
  have coh: "coherent ?s" by (simp add: coherent_def fresh_service_def)
  have "is_extraction_complete ?d" "mk_channel_up ?d" "settlements ?s = []"
    "fst (check_file_completion demo_config ?d ?s) = Inr True"
    "settlements (snd (check_file_completion demo_config ?d ?s)) \<noteq> [RequeueOrDeadLetter 500]"
    by code_simp+
  with marker_settlement [OF coh, of ?d demo_config] show ?thesis by (auto simp: settled_by_def)
qed

section \<open>A trigger that is lost\<close>

definition busy_service :: service where
  "busy_service = (fresh_service [(blank_completion (lit ''v2'') 3)
       \<lparr>cn_signals := Some [lit ''artists'', lit ''labels'', lit ''masters'']\<rparr>])
     \<lparr>maintenance_task := Some \<lparr>task_version = Some (lit ''v1''), task_state = Running\<rparr>\<rparr>"


end
