(* ===== verification/ConsumerLifecycle.thy ===== *)
theory ConsumerLifecycle
  imports ServiceState
begin

text \<open>
  The consumers of \<^verbatim>\<open>graphinator/graphinator.py\<close>: their tags, the delayed cancellation of a
  type whose file is done, the connection they share, the recovery from an uncertain or stuck
  state, the periodic checker and the health report. The broker is a set of subscriptions and
  a schedule of how its calls end; a call may take effect although the caller sees it fail.
\<close>

section \<open>State\<close>

text \<open>
  How a call to the broker ends: answered; an exception; a timeout; the caller's task is
  cancelled while it waits. The flag says whether the broker carried it out all the same.
\<close>

datatype rpc = Answered | Failed bool | TimedOut bool | Interrupted bool

text \<open>
  \<open>subscribed\<close> is the broker's side, \<open>gauge\<close> the telemetry counter of running consumers; the
  tags, timers, queue handles and completed types are the service's.
\<close>

record lifecycle =
  sv :: service
  connection :: bool
  channel :: bool
  recovery_requested :: bool
  shutdown_requested :: bool
  idle_mode :: bool
  message_counts :: "pystr \<Rightarrow> nat"
  last_message_time :: "pystr \<Rightarrow> rat"
  gauge :: int
  subscribed :: "(pystr \<times> pystr) set"
  rpcs :: "rpc list"

abbreviation tags :: "lifecycle \<Rightarrow> (pystr \<times> pystr) list" where
  "tags s \<equiv> consumer_tags (sv s)"

definition on_service :: "(service \<Rightarrow> service) \<Rightarrow> lifecycle \<Rightarrow> lifecycle" where
  "on_service f s = s\<lparr>sv := f (sv s)\<rparr>"

definition set_tags :: "(pystr \<times> pystr) list \<Rightarrow> lifecycle \<Rightarrow> lifecycle" where
  "set_tags ts s = on_service (\<lambda>v. v\<lparr>consumer_tags := ts\<rparr>) s"

definition has_tag :: "lifecycle \<Rightarrow> pystr \<Rightarrow> bool" where
  "has_tag s dt \<longleftrightarrow> dt \<in> fst ` set (tags s)"

definition consumer_tag :: "pystr \<Rightarrow> pystr" where
  "consumer_tag dt = lit ''discogs-graph-enricher-'' @ dt"

definition next_rpc :: "lifecycle \<Rightarrow> rpc \<times> lifecycle" where
  "next_rpc s = (case rpcs s of [] \<Rightarrow> (Answered, s) | r # rs \<Rightarrow> (r, s\<lparr>rpcs := rs\<rparr>))"

fun carried_out :: "rpc \<Rightarrow> bool" where
  "carried_out Answered = True"
| "carried_out (Failed d) = d"
| "carried_out (TimedOut d) = d"
| "carried_out (Interrupted d) = d"

section \<open>Cancelling a consumer\<close>

text \<open>
  \<open>has_queue\<close>: the caller has a handle on the queue. The result \<open>None\<close> stands for the
  cancellation of the waiting task, which propagates.
\<close>

definition cancel_consumer :: "pystr \<Rightarrow> pystr \<Rightarrow> bool \<Rightarrow> lifecycle \<Rightarrow> bool option \<times> lifecycle" where
  "cancel_consumer dt tag has_queue s =
     (if \<not> has_queue then (Some False, s\<lparr>recovery_requested := True\<rparr>)
      else case next_rpc s of (r, s1) \<Rightarrow>
        let s2 = (if carried_out r then s1\<lparr>subscribed := subscribed s1 - {(dt, tag)}\<rparr> else s1) in
        (case r of
           Answered \<Rightarrow>
             (Some True,
              if map_of (tags s2) dt = Some tag
              then (set_tags (filter (\<lambda>x. fst x \<noteq> dt) (tags s2)) s2)\<lparr>gauge := gauge s2 - 1\<rparr>
              else s2)
         | Interrupted _ \<Rightarrow> (None, s2\<lparr>recovery_requested := True\<rparr>)
         | _ \<Rightarrow> (Some False, s2\<lparr>recovery_requested := True\<rparr>)))"

definition check_all_consumers_idle :: "lifecycle \<Rightarrow> bool" where
  "check_all_consumers_idle s \<longleftrightarrow> tags s = [] \<and> card (completed_files (sv s)) = length DATA_TYPES"

section \<open>Closing the connection\<close>

text \<open>
  The channel first; a timeout leaves the whole block. Closing either ends the channel's
  subscriptions. The cancellation of the calling task propagates.
\<close>

datatype close_end = Proceeds | TimesOut | Aborts

definition close_channel :: "lifecycle \<Rightarrow> close_end \<times> lifecycle" where
  "close_channel s =
     (if \<not> channel s then (Proceeds, s)
      else case next_rpc s of (r, s1) \<Rightarrow>
        let s2 = (if carried_out r then s1\<lparr>subscribed := {}\<rparr> else s1) in
        (case r of
           Answered \<Rightarrow> (Proceeds, s2\<lparr>channel := False\<rparr>)
         | Failed _ \<Rightarrow> (Proceeds, s2)
         | TimedOut _ \<Rightarrow> (TimesOut, s2)
         | Interrupted _ \<Rightarrow> (Aborts, s2)))"

definition close_transport :: "lifecycle \<Rightarrow> close_end \<times> lifecycle" where
  "close_transport s =
     (if \<not> connection s then (Proceeds, s)
      else case next_rpc s of (r, s1) \<Rightarrow>
        let s2 = (if carried_out r then s1\<lparr>subscribed := {}\<rparr> else s1) in
        (case r of
           Answered \<Rightarrow> (Proceeds, s2\<lparr>connection := False, channel := False\<rparr>)
         | Interrupted _ \<Rightarrow> (Aborts, s2)
         | _ \<Rightarrow> (TimesOut, s2)))"

text \<open>Whether the call was aborted, and the state.\<close>

definition close_rabbitmq_connection :: "lifecycle \<Rightarrow> bool \<times> lifecycle" where
  "close_rabbitmq_connection s =
     (let had_transport = channel s \<or> connection s in
      case close_channel s of
        (Aborts, s1) \<Rightarrow> (True, s1)
      | (TimesOut, s1) \<Rightarrow> (False, s1\<lparr>recovery_requested := True\<rparr>)
      | (Proceeds, s1) \<Rightarrow>
          (case close_transport s1 of
             (Aborts, s2) \<Rightarrow> (True, s2)
           | (TimesOut, s2) \<Rightarrow> (False, s2\<lparr>recovery_requested := True\<rparr>)
           | (Proceeds, s2) \<Rightarrow>
               (False,
                if channel s2 then s2\<lparr>recovery_requested := True\<rparr>
                else if \<not> had_transport then s2
                else (set_tags [] s2)\<lparr>gauge := gauge s2 - int (length (tags s2))\<rparr>)))"

section \<open>Timers\<close>

text \<open>
  The body of a cancellation timer; it is given its queue when it is scheduled. A timer that is cancelled while its call is in flight has
  already been replaced or dropped, so it leaves the timers alone.
\<close>

definition drop_timers :: "pystr set \<Rightarrow> lifecycle \<Rightarrow> lifecycle" where
  "drop_timers D s = on_service (\<lambda>v. v\<lparr>cancel_timers := cancel_timers v - D\<rparr>) s"

definition cancel_after_delay :: "pystr \<Rightarrow> lifecycle \<Rightarrow> lifecycle" where
  "cancel_after_delay dt s =
     (case map_of (tags s) dt of
        None \<Rightarrow> drop_timers {dt} s
      | Some tag \<Rightarrow>
          (case cancel_consumer dt tag True s of
             (None, s1) \<Rightarrow> s1
           | (Some False, s1) \<Rightarrow> drop_timers {dt} s1
           | (Some True, s1) \<Rightarrow>
               if check_all_consumers_idle s1 then
                 (case close_rabbitmq_connection s1 of
                    (True, s2) \<Rightarrow> s2
                  | (False, s2) \<Rightarrow> drop_timers {dt} s2)
               else drop_timers {dt} s1))"

text \<open>Shutdown: no timer is left and every consumer is cancelled, best effort.\<close>

fun cancel_each :: "(pystr \<times> pystr) list \<Rightarrow> lifecycle \<Rightarrow> lifecycle" where
  "cancel_each [] s = s"
| "cancel_each ((dt, tag) # ts) s = cancel_each ts (snd (cancel_consumer dt tag (dt \<in> queue_handles (sv s)) s))"

definition cancel_all_consumers :: "lifecycle \<Rightarrow> lifecycle" where
  "cancel_all_consumers s = cancel_each (tags s) (drop_timers (cancel_timers (sv s)) s)"

section \<open>Detection\<close>

definition check_consumers_unexpectedly_dead :: "lifecycle \<Rightarrow> bool" where
  "check_consumers_unexpectedly_dead s \<longleftrightarrow>
     tags s = [] \<and> card (completed_files (sv s)) < length DATA_TYPES \<and> (\<exists>dt \<in> set DATA_TYPES. 0 < message_counts s dt)"

definition types_awaiting_marker :: "lifecycle \<Rightarrow> pystr list" where
  "types_awaiting_marker s =
     filter (\<lambda>dt. dt \<in> completed_files (sv s) \<and> \<not> has_tag s dt \<and> dt \<notin> extraction_signalled (sv s)) DATA_TYPES"

section \<open>Recovery\<close>

text \<open>Calls that only have to succeed.\<close>

fun calls :: "nat \<Rightarrow> lifecycle \<Rightarrow> bool \<times> lifecycle" where
  "calls 0 s = (True, s)"
| "calls (Suc n) s = (case next_rpc s of (r, s1) \<Rightarrow> if r = Answered then calls n s1 else (False, s1))"

text \<open>
  Subscribing. A consume that raises has not subscribed: its answer is lost only with the
  channel, which ends the subscription.
\<close>

definition subscribe :: "pystr \<Rightarrow> rat \<Rightarrow> lifecycle \<Rightarrow> bool \<times> lifecycle" where
  "subscribe dt now s =
     (case next_rpc s of (r, s1) \<Rightarrow>
        if r \<noteq> Answered then (False, s1)
        else (True, (set_tags (tags s1 @ [(dt, consumer_tag dt)]) s1)
               \<lparr>gauge := gauge s1 + 1, subscribed := insert (dt, consumer_tag dt) (subscribed s1),
                last_message_time := (last_message_time s1)(dt := now)\<rparr>))"

text \<open>Consumers for every type lacking one; a type with a backlog is no longer complete.\<close>

fun start_consumers :: "(pystr \<Rightarrow> nat) \<Rightarrow> rat \<Rightarrow> pystr list \<Rightarrow> lifecycle \<Rightarrow> bool \<times> lifecycle" where
  "start_consumers depth now [] s = (True, s)"
| "start_consumers depth now (dt # dts) s =
     (if has_tag s dt then start_consumers depth now dts s
      else case subscribe dt now s of
             (False, s1) \<Rightarrow> (False, s1)
           | (True, s1) \<Rightarrow>
               start_consumers depth now dts
                 (if 0 < depth dt then on_service (\<lambda>v. v\<lparr>completed_files := completed_files v - {dt}\<rparr>) s1 else s1))"

text \<open>Exchange, dead-letter exchange and queue, their binding, the main queue and its binding.\<close>

definition DECLARATIONS :: nat where "DECLARATIONS = 6"

text \<open>
  The attempt on a fresh connection: passive declares, then, when any queue holds a message,
  the topology and the consumers; else the temporary connection goes again.
\<close>

definition restart_consumption :: "(pystr \<Rightarrow> nat) \<Rightarrow> rat \<Rightarrow> lifecycle \<Rightarrow> bool \<times> lifecycle" where
  "restart_consumption depth now s =
     (case calls (length DATA_TYPES) s of
        (False, s1) \<Rightarrow> (False, s1)
      | (True, s1) \<Rightarrow>
          if \<exists>dt \<in> set DATA_TYPES. 0 < depth dt then
            (case calls (1 + DECLARATIONS * length DATA_TYPES) (s1\<lparr>connection := True, channel := True\<rparr>) of
               (False, s2) \<Rightarrow> (False, s2)
             | (True, s2) \<Rightarrow>
                 (case start_consumers depth now DATA_TYPES (on_service (\<lambda>v. v\<lparr>queue_handles := set DATA_TYPES\<rparr>) s2) of
                    (False, s3) \<Rightarrow> (False, s3)
                  | (True, s3) \<Rightarrow> (True, s3\<lparr>idle_mode := False\<rparr>)))
          else calls 2 s1)"

definition recover_consumers :: "(pystr \<Rightarrow> nat) \<Rightarrow> rat \<Rightarrow> lifecycle \<Rightarrow> lifecycle" where
  "recover_consumers depth now s =
     (case (if connection s \<or> channel s then close_rabbitmq_connection s else (False, s)) of
        (True, s0) \<Rightarrow> s0
      | (False, s0) \<Rightarrow>
          if connection s0 \<or> channel s0 then s0
          else
            (case calls 2 ((drop_timers (cancel_timers (sv s0)) s0)\<lparr>recovery_requested := False\<rparr>) of
               (False, s2) \<Rightarrow> s2\<lparr>recovery_requested := True\<rparr>
             | (True, s2) \<Rightarrow>
                 (case restart_consumption depth now s2 of
                    (True, s3) \<Rightarrow> s3
                  | (False, s3) \<Rightarrow>
                      snd (close_rabbitmq_connection (on_service (\<lambda>v. v\<lparr>queue_handles := {}\<rparr>)
                        (s3\<lparr>recovery_requested := True, connection := True, channel := True\<rparr>))))))"

text \<open>The types whose marker is parked, one at a time. \<open>None\<close>: the broker could not say.\<close>

fun resubscribe :: "(pystr \<Rightarrow> nat option) \<Rightarrow> rat \<Rightarrow> pystr list \<Rightarrow> lifecycle \<Rightarrow> bool \<times> lifecycle" where
  "resubscribe depth now [] s = (False, s)"
| "resubscribe depth now (dt # dts) s =
     (if depth dt \<in> {None, Some 0} \<or> dt \<notin> queue_handles (sv s) \<or> has_tag s dt \<or> \<not> connection s
      then resubscribe depth now dts s
      else case subscribe dt now s of
             (False, s1) \<Rightarrow> resubscribe depth now dts s1
           | (True, s1) \<Rightarrow> (True, snd (resubscribe depth now dts s1)))"

text \<open>
  \<open>probe\<close> is what \<^verbatim>\<open>queue_depth\<close> reads on the live connection, \<open>depth\<close> what a recovery reads on
  its own.
\<close>

definition recover_parked_markers ::
  "(pystr \<Rightarrow> nat option) \<Rightarrow> (pystr \<Rightarrow> nat) \<Rightarrow> rat \<Rightarrow> lifecycle \<Rightarrow> bool \<times> lifecycle" where
  "recover_parked_markers probe depth now s =
     (let pending = types_awaiting_marker s in
      if pending = [] \<or> shutdown_requested s \<or> recovery_requested s then (False, s)
      else if \<not> connection s then (True, recover_consumers depth now s)
      else resubscribe probe now pending s)"

section \<open>The periodic checker\<close>

text \<open>One round; the flags say whether the slower checks are due.\<close>

definition checker_round ::
  "(pystr \<Rightarrow> nat option) \<Rightarrow> (pystr \<Rightarrow> nat) \<Rightarrow> rat \<Rightarrow> bool \<Rightarrow> bool \<Rightarrow> lifecycle \<Rightarrow> lifecycle" where
  "checker_round probe depth now stuck_due full_due s =
     (if recovery_requested s then recover_consumers depth now s
      else
        let s1 = snd (recover_parked_markers probe depth now s) in
        if \<not> stuck_due then s1
        else if check_consumers_unexpectedly_dead s1 then recover_consumers depth now s1
        else if \<not> full_due then s1
        else if connection s1 \<or> tags s1 \<noteq> [] then s1
        else recover_consumers depth now s1)"

section \<open>Health\<close>

datatype health_status = Starting | Unhealthy | Healthy

datatype current_task = Processing pystr | IdleWaiting | Stuck | Initializing

record health =
  h_status :: health_status
  h_task :: "current_task option"
  h_active :: "pystr list"
  h_awaiting :: "pystr list"

definition recent_task :: "rat \<Rightarrow> lifecycle \<Rightarrow> current_task option" where
  "recent_task now s =
     (case filter (\<lambda>dt. 0 < last_message_time s dt \<and> now - last_message_time s dt < 10) DATA_TYPES of
        dt # _ \<Rightarrow> Some (Processing dt)
      | [] \<Rightarrow> if tags s \<noteq> [] then Some IdleWaiting else None)"

definition get_health_data :: "rat \<Rightarrow> lifecycle \<Rightarrow> health" where
  "get_health_data now s =
     (let is_stuck = check_consumers_unexpectedly_dead s;
          task = (if is_stuck then Some Stuck else recent_task now s);
          starting = tags s = [] \<and> (\<forall>dt \<in> set DATA_TYPES. message_counts s dt = 0)
      in \<lparr>h_status = (if \<not> graph_ready (sv s) then if starting then Starting else Unhealthy
                      else if is_stuck \<or> recovery_requested s then Unhealthy else Healthy),
          h_task = (if \<not> graph_ready (sv s) \<and> starting then Some Initializing else task),
          h_active = map fst (tags s),
          h_awaiting = types_awaiting_marker s\<rparr>)"

section \<open>Reachable states\<close>

text \<open>
  A signal only sets its flag, and the progress reporter only switches the idle mode. A handler
  in between leaves the tags and the queue handles alone. The checker's own task is
  cancelled only when the process stops, so its rounds are not interrupted.
\<close>

inductive life_step :: "lifecycle \<Rightarrow> lifecycle \<Rightarrow> bool" where
  timer: "dt \<in> cancel_timers (sv s) \<Longrightarrow> life_step s (cancel_after_delay dt s)"
| check: "\<forall>b. Interrupted b \<notin> set (rpcs s) \<Longrightarrow> life_step s (checker_round probe depth now stuck_due full_due s)"
| signal: "life_step s (s\<lparr>shutdown_requested := True\<rparr>)"
| reporter: "life_step s (s\<lparr>idle_mode := b\<rparr>)"
| stop: "life_step s (cancel_all_consumers (s\<lparr>shutdown_requested := True\<rparr>))"
| close: "shutdown_requested s \<Longrightarrow> close_rabbitmq_connection s = (False, s') \<Longrightarrow> life_step s s'"
| handle: "consumer_tags v = tags s \<Longrightarrow> queue_handles v = queue_handles (sv s) \<Longrightarrow>
    life_step s (s\<lparr>sv := v, message_counts := counts, last_message_time := seen\<rparr>)"
| broker: "life_step s (s\<lparr>rpcs := rs\<rparr>)"

definition started :: "service \<Rightarrow> lifecycle" where
  "started v =
     \<lparr>sv = v\<lparr>consumer_tags := map (\<lambda>dt. (dt, consumer_tag dt)) DATA_TYPES, queue_handles := set DATA_TYPES\<rparr>,
      connection = True, channel = True, recovery_requested = False, shutdown_requested = False, idle_mode = False,
      message_counts = (\<lambda>_. 0), last_message_time = (\<lambda>_. 0), gauge = int (length DATA_TYPES),
      subscribed = set (map (\<lambda>dt. (dt, consumer_tag dt)) DATA_TYPES), rpcs = []\<rparr>"

inductive reachable :: "lifecycle \<Rightarrow> bool" where
  start: "reachable (started v)"
| step: "reachable s \<Longrightarrow> life_step s s' \<Longrightarrow> reachable s'"

text \<open>
  The tags are true: unless a recovery has been requested, the broker's subscriptions are the
  tags; the gauge counts them; no tag without a connection.
\<close>

definition tracked :: "lifecycle \<Rightarrow> bool" where
  "tracked s \<longleftrightarrow> distinct (map fst (tags s)) \<and> gauge s = int (length (tags s)) \<and>
     (\<not> recovery_requested s \<longrightarrow> subscribed s = set (tags s)) \<and>
     (tags s \<noteq> [] \<longrightarrow> connection s) \<and> (channel s \<longrightarrow> connection s) \<and> (\<not> connection s \<longrightarrow> subscribed s = {}) \<and>
     (connection s \<and> \<not> recovery_requested s \<longrightarrow> queue_handles (sv s) = set DATA_TYPES)"

lemma on_service_simps [simp]:
  "sv (on_service f s) = f (sv s)" "connection (on_service f s) = connection s" "channel (on_service f s) = channel s"
  "recovery_requested (on_service f s) = recovery_requested s" "gauge (on_service f s) = gauge s"
  "subscribed (on_service f s) = subscribed s" "rpcs (on_service f s) = rpcs s"
  "shutdown_requested (on_service f s) = shutdown_requested s" "message_counts (on_service f s) = message_counts s"
  by (simp_all add: on_service_def)

lemma next_rpc_same:
  "next_rpc s = (r, s1) \<Longrightarrow> \<exists>rs. s1 = s\<lparr>rpcs := rs\<rparr>"
  by (cases s) (auto simp: next_rpc_def split: list.splits)

lemma calls_same: "calls n s = (ok, s1) \<Longrightarrow> \<exists>rs. s1 = s\<lparr>rpcs := rs\<rparr>"
proof (induction n arbitrary: s)
  case 0
  then have "s1 = s\<lparr>rpcs := rpcs s\<rparr>" by simp
  then show ?case ..
next
  case (Suc n)
  obtain r s2 where n: "next_rpc s = (r, s2)" by fastforce
  from next_rpc_same [OF n] obtain rs where s2: "s2 = s\<lparr>rpcs := rs\<rparr>" by blast
  show ?case
  proof (cases "r = Answered")
    case True
    with Suc n obtain rs' where "s1 = s2\<lparr>rpcs := rs'\<rparr>" by fastforce
    then have "s1 = s\<lparr>rpcs := rs'\<rparr>" by (simp add: s2)
    then show ?thesis ..
  next
    case False
    with Suc.prems n s2 show ?thesis by auto
  qed
qed

lemma calls_answered: "rpcs s = [] \<Longrightarrow> calls n s = (True, s)"
  by (induction n) (simp_all add: next_rpc_def)

lemma tracked_rpcs [simp]: "tracked (s\<lparr>rpcs := rs\<rparr>) = tracked s"
  by (simp add: tracked_def)

lemma set_tags_simps [simp]:
  "tags (set_tags ts s) = ts" "connection (set_tags ts s) = connection s" "channel (set_tags ts s) = channel s"
  "recovery_requested (set_tags ts s) = recovery_requested s" "gauge (set_tags ts s) = gauge s"
  "subscribed (set_tags ts s) = subscribed s" "queue_handles (sv (set_tags ts s)) = queue_handles (sv s)"
  "completed_files (sv (set_tags ts s)) = completed_files (sv s)"
  by (simp_all add: set_tags_def)

lemma drop_timers_simps [simp]:
  "tags (drop_timers D s) = tags s" "connection (drop_timers D s) = connection s" "channel (drop_timers D s) = channel s"
  "recovery_requested (drop_timers D s) = recovery_requested s" "gauge (drop_timers D s) = gauge s"
  "subscribed (drop_timers D s) = subscribed s" "queue_handles (sv (drop_timers D s)) = queue_handles (sv s)"
  "rpcs (drop_timers D s) = rpcs s" "completed_files (sv (drop_timers D s)) = completed_files (sv s)"
  by (simp_all add: drop_timers_def)

lemma tracked_drop_timers [simp]: "tracked (drop_timers D s) = tracked s"
  by (simp add: tracked_def)

lemma remove_tag:
  assumes "distinct (map fst ts)" and "map_of ts k = Some v"
  shows "set (filter (\<lambda>x. fst x \<noteq> k) ts) = set ts - {(k, v)}" and "length (filter (\<lambda>x. fst x \<noteq> k) ts) + 1 = length ts"
proof -
  from assms(2) have kv: "(k, v) \<in> set ts" by (rule map_of_SomeD)
  then obtain xs ys where ts: "ts = xs @ (k, v) # ys" by (meson split_list)
  with assms(1) have "filter (\<lambda>x. fst x \<noteq> k) xs = xs" "filter (\<lambda>x. fst x \<noteq> k) ys = ys"
    by (auto simp: filter_id_conv rev_image_eqI)
  then have f: "filter (\<lambda>x. fst x \<noteq> k) ts = xs @ ys" using ts by simp
  have "(k, v) \<notin> set xs" "(k, v) \<notin> set ys" using assms(1) ts by force+
  then show "set (filter (\<lambda>x. fst x \<noteq> k) ts) = set ts - {(k, v)}" unfolding f using ts by auto
  show "length (filter (\<lambda>x. fst x \<noteq> k) ts) + 1 = length ts" unfolding f using ts by simp
qed

text \<open>How the operations change the fields that matter.\<close>

lemma cancel_unconfirmed:
  "cancel_consumer dt tag q s = (r, s') \<Longrightarrow> r \<noteq> Some True \<Longrightarrow>
     recovery_requested s' \<and> sv s' = sv s \<and> gauge s' = gauge s \<and> connection s' = connection s \<and> channel s' = channel s \<and>
     (subscribed s = {} \<longrightarrow> subscribed s' = {})"
  by (auto simp: cancel_consumer_def next_rpc_def Let_def split: list.splits rpc.splits if_splits)

lemma cancel_confirmed:
  assumes "cancel_consumer dt tag q s = (Some True, s')"
  shows "connection s' = connection s \<and> channel s' = channel s \<and> recovery_requested s' = recovery_requested s \<and>
    queue_handles (sv s') = queue_handles (sv s) \<and> subscribed s' = subscribed s - {(dt, tag)} \<and>
    completed_files (sv s') = completed_files (sv s) \<and>
    (if map_of (tags s) dt = Some tag then tags s' = filter (\<lambda>x. fst x \<noteq> dt) (tags s) \<and> gauge s' = gauge s - 1
     else tags s' = tags s \<and> gauge s' = gauge s)"
  using assms by (auto simp: cancel_consumer_def next_rpc_def Let_def split: list.splits rpc.splits if_splits)

lemma close_channel_fields:
  "close_channel s = (e, s1) \<Longrightarrow> sv s1 = sv s \<and> connection s1 = connection s \<and> recovery_requested s1 = recovery_requested s \<and>
     gauge s1 = gauge s \<and> (channel s1 \<longrightarrow> channel s) \<and> (subscribed s1 = subscribed s \<or> subscribed s1 = {}) \<and>
     shutdown_requested s1 = shutdown_requested s \<and> message_counts s1 = message_counts s \<and> (rpcs s = [] \<longrightarrow> rpcs s1 = [] \<and> e = Proceeds \<and> \<not> channel s1)"
  by (auto simp: close_channel_def next_rpc_def Let_def split: list.splits rpc.splits if_splits)

lemma close_transport_fields:
  "close_transport s = (e, s1) \<Longrightarrow> sv s1 = sv s \<and> recovery_requested s1 = recovery_requested s \<and> gauge s1 = gauge s \<and>
     (e = Proceeds \<longrightarrow> \<not> connection s1 \<and> (if connection s then \<not> channel s1 \<and> subscribed s1 = {} else s1 = s)) \<and>
     (e \<noteq> Proceeds \<longrightarrow> connection s1 \<and> connection s \<and> channel s1 = channel s \<and> (subscribed s1 = subscribed s \<or> subscribed s1 = {})) \<and>
     shutdown_requested s1 = shutdown_requested s \<and> message_counts s1 = message_counts s \<and> (rpcs s = [] \<longrightarrow> rpcs s1 = [] \<and> e = Proceeds)"
  by (auto simp: close_transport_def next_rpc_def Let_def split: list.splits rpc.splits if_splits)

lemma subscribe_fields:
  "subscribe dt now s = (ok, s1) \<Longrightarrow> connection s1 = connection s \<and> channel s1 = channel s \<and> recovery_requested s1 = recovery_requested s \<and>
     queue_handles (sv s1) = queue_handles (sv s) \<and> completed_files (sv s1) = completed_files (sv s) \<and>
     extraction_signalled (sv s1) = extraction_signalled (sv s) \<and>
     shutdown_requested s1 = shutdown_requested s \<and> (rpcs s = [] \<longrightarrow> rpcs s1 = [] \<and> ok) \<and>
     (if ok then tags s1 = tags s @ [(dt, consumer_tag dt)] \<and> gauge s1 = gauge s + 1 \<and> subscribed s1 = insert (dt, consumer_tag dt) (subscribed s)
      else tags s1 = tags s \<and> gauge s1 = gauge s \<and> subscribed s1 = subscribed s)"
  by (auto simp: subscribe_def next_rpc_def set_tags_def split: list.splits if_splits)

lemma trackedI:
  assumes "distinct (map fst (tags s))" and "gauge s = int (length (tags s))"
    and "\<not> recovery_requested s \<Longrightarrow> subscribed s = set (tags s)" and "tags s \<noteq> [] \<Longrightarrow> connection s"
    and "channel s \<Longrightarrow> connection s" and "\<not> connection s \<Longrightarrow> subscribed s = {}"
    and "connection s \<Longrightarrow> \<not> recovery_requested s \<Longrightarrow> queue_handles (sv s) = set DATA_TYPES"
  shows "tracked s"
  using assms by (simp add: tracked_def)

lemma tracked_cancel:
  assumes t: "tracked s" and c: "cancel_consumer dt tag q s = (r, s')"
  shows "tracked s'"
proof (cases "r = Some True")
  case False
  note f = cancel_unconfirmed [OF c False]
  with t show ?thesis by (intro trackedI) (simp_all add: tracked_def)
next
  case True
  note f = cancel_confirmed [OF c [unfolded True]]
  have d: "distinct (map fst (tags s))" using t by (simp add: tracked_def)
  show ?thesis
  proof (cases "map_of (tags s) dt = Some tag")
    case True
    note rm = remove_tag [OF d True]
    have "filter (\<lambda>x. fst x \<noteq> dt) (tags s) \<noteq> [] \<Longrightarrow> tags s \<noteq> []" by auto
    moreover have "gauge s = int (length (filter (\<lambda>x. fst x \<noteq> dt) (tags s))) + 1" using t rm(2) by (simp add: tracked_def)
    moreover have "distinct (map fst (filter (\<lambda>x. fst x \<noteq> dt) (tags s)))" using d by (rule distinct_map_filter)
    ultimately show ?thesis using f True t rm(1) by (intro trackedI) (simp_all add: tracked_def)
  next
    case False
    then have "(dt, tag) \<notin> set (tags s)" using d by simp
    with f False t show ?thesis by (intro trackedI) (auto simp: tracked_def)
  qed
qed

lemma tracked_cancel_each: "tracked s \<Longrightarrow> tracked (cancel_each ts s)"
proof (induction ts arbitrary: s)
  case (Cons t ts)
  obtain dt tag where t: "t = (dt, tag)" by (cases t)
  obtain r s1 where c: "cancel_consumer dt tag (dt \<in> queue_handles (sv s)) s = (r, s1)" by fastforce
  from Cons.IH [OF tracked_cancel [OF Cons.prems c]] show ?case by (simp add: t c)
qed simp

text \<open>
  A close keeps the tags true, and when it is aborted it does so if a recovery is pending or
  there are no tags; otherwise the connection is gone or a recovery is requested.
\<close>

lemma tracked_close:
  assumes t: "tracked s" and c: "close_rabbitmq_connection s = (a, s')" and "a \<Longrightarrow> recovery_requested s \<or> tags s = []"
  shows "tracked s'" and "\<not> connection s' \<Longrightarrow> tags s' = []" and "\<not> a \<Longrightarrow> connection s' \<Longrightarrow> recovery_requested s'"
    and "rpcs s = [] \<Longrightarrow> \<not> a \<and> \<not> connection s' \<and> rpcs s' = []"
    and "completed_files (sv s') = completed_files (sv s)"
proof -
  obtain e s1 where c1: "close_channel s = (e, s1)" by fastforce
  note f1 = close_channel_fields [OF c1]
  obtain e2 s2 where c2: "close_transport s1 = (e2, s2)" by fastforce
  note f2 = close_transport_fields [OF c2]
  have tags: "tags s \<noteq> [] \<Longrightarrow> connection s" "channel s \<Longrightarrow> connection s" "\<not> connection s \<Longrightarrow> subscribed s = {}"
    "gauge s = int (length (tags s))" "distinct (map fst (tags s))"
    "\<not> recovery_requested s \<Longrightarrow> subscribed s = set (tags s)" "connection s \<Longrightarrow> \<not> recovery_requested s \<Longrightarrow> queue_handles (sv s) = set DATA_TYPES"
    using t by (simp_all add: tracked_def)
  consider (ab1) "e = Aborts" | (to1) "e = TimesOut" | (ab2) "e = Proceeds" "e2 = Aborts" | (to2) "e = Proceeds" "e2 = TimesOut"
    | (fin) "e = Proceeds" "e2 = Proceeds" by (cases e; cases e2) auto
  then have "tracked s' \<and> (\<not> connection s' \<longrightarrow> tags s' = []) \<and> (\<not> a \<longrightarrow> connection s' \<longrightarrow> recovery_requested s') \<and>
    (rpcs s = [] \<longrightarrow> \<not> a \<and> \<not> connection s' \<and> rpcs s' = []) \<and> completed_files (sv s') = completed_files (sv s)"
  proof cases
    case ab1
    with c c1 have r: "a" "s' = s1" by (auto simp: close_rabbitmq_connection_def)
    then have "tracked s1" using f1 tags assms(3) by (intro trackedI) auto
    with r f1 ab1 tags(1) show ?thesis by auto
  next
    case to1
    with c c1 have r: "\<not> a" "s' = s1\<lparr>recovery_requested := True\<rparr>" by (auto simp: close_rabbitmq_connection_def)
    then have "tracked s'" using f1 tags by (intro trackedI) auto
    with r f1 to1 tags(1) show ?thesis by auto
  next
    case ab2
    with c c1 c2 have r: "a" "s' = s2" by (auto simp: close_rabbitmq_connection_def)
    then have "tracked s2" using f1 f2 ab2 tags assms(3) by (intro trackedI) auto
    with r f1 f2 ab2 tags(1) show ?thesis by auto
  next
    case to2
    with c c1 c2 have r: "\<not> a" "s' = s2\<lparr>recovery_requested := True\<rparr>" by (auto simp: close_rabbitmq_connection_def)
    then have "tracked s'" using f1 f2 to2 tags by (intro trackedI) auto
    with r f1 f2 to2 tags(1) show ?thesis by auto
  next
    case fin
    show ?thesis
    proof (cases "connection s")
      case True
      with fin c c1 c2 f1 f2 have r: "\<not> a" "s' = (set_tags [] s2)\<lparr>gauge := gauge s2 - int (length (tags s2))\<rparr>"
        by (auto simp: close_rabbitmq_connection_def)
      have f: "\<not> connection s2" "\<not> channel s2" "subscribed s2 = {}" "gauge s2 = int (length (tags s2))" "rpcs s = [] \<Longrightarrow> rpcs s2 = []"
        "completed_files (sv s2) = completed_files (sv s)"
        using f1 f2 fin True tags(4) by auto
      have "tracked s'" unfolding r using f by (intro trackedI) simp_all
      with r f show ?thesis by (simp add: set_tags_def)
    next
      case False
      with tags have ch: "\<not> channel s" "tags s = []" by auto
      with False have "close_channel s = (Proceeds, s)" "close_transport s = (Proceeds, s)"
        by (simp_all add: close_channel_def close_transport_def)
      with c False ch have r: "\<not> a" "s' = s" by (simp_all add: close_rabbitmq_connection_def)
      with t False ch show ?thesis by simp
    qed
  qed
  then show "tracked s'" "\<not> connection s' \<Longrightarrow> tags s' = []" "\<not> a \<Longrightarrow> connection s' \<Longrightarrow> recovery_requested s'"
    "rpcs s = [] \<Longrightarrow> \<not> a \<and> \<not> connection s' \<and> rpcs s' = []" "completed_files (sv s') = completed_files (sv s)" by simp_all
qed

lemma tracked_subscribe:
  assumes "tracked s" and "subscribe dt now s = (ok, s1)" and "connection s" and "\<not> has_tag s dt"
  shows "tracked s1"
  using subscribe_fields [OF assms(2)] assms(1,3,4)
  by (cases ok) (intro trackedI; auto simp: tracked_def has_tag_def)+

lemma has_tag_tags: "tags s' = tags s \<Longrightarrow> has_tag s' = has_tag s"
  by (simp add: has_tag_def fun_eq_iff)

text \<open>The start of consumers: it keeps the tags true and covers every type when it succeeds.\<close>

lemma tracked_start:
  assumes "tracked s" and "start_consumers depth now dts s = (ok, s1)" and "connection s"
  shows "tracked s1 \<and> connection s1 \<and> recovery_requested s1 = recovery_requested s \<and>
    (rpcs s = [] \<longrightarrow> ok \<and> rpcs s1 = []) \<and>
    set (tags s) \<subseteq> set (tags s1) \<and> (ok \<longrightarrow> (\<forall>dt \<in> set dts. has_tag s1 dt))"
  using assms
proof (induction dts arbitrary: s)
  case (Cons dt dts)
  show ?case
  proof (cases "has_tag s dt")
    case True
    then have "start_consumers depth now dts s = (ok, s1)" using Cons.prems(2) by simp
    from Cons.IH [OF Cons.prems(1) this Cons.prems(3)] True show ?thesis by (auto simp: has_tag_def)
  next
    case False
    obtain a s2 where sub: "subscribe dt now s = (a, s2)" by fastforce
    note f = subscribe_fields [OF sub] and t2 = tracked_subscribe [OF Cons.prems(1) sub Cons.prems(3) False]
    show ?thesis
    proof (cases a)
      case False
      with Cons.prems \<open>\<not> has_tag s dt\<close> sub f t2 show ?thesis by auto
    next
      case True
      obtain s3 where s3: "s3 = (if 0 < depth dt then on_service (\<lambda>v. v\<lparr>completed_files := completed_files v - {dt}\<rparr>) s2 else s2)"
        by simp
      have run: "start_consumers depth now dts s3 = (ok, s1)" using Cons.prems(2) False sub True s3 by simp
      have g: "tags s3 = tags s2" "connection s3" "recovery_requested s3 = recovery_requested s" "rpcs s3 = rpcs s2" "tracked s3"
        using f t2 Cons.prems(3) by (auto simp: s3 tracked_def)
      note IH = Cons.IH [OF g(5) run g(2)]
      have t: "tags s2 = tags s @ [(dt, consumer_tag dt)]" "rpcs s = [] \<longrightarrow> rpcs s2 = []" using f True by auto
      then have "(dt, consumer_tag dt) \<in> set (tags s1)" "set (tags s) \<subseteq> set (tags s1)" using IH g(1) by auto
      then have "has_tag s1 dt" "set (tags s) \<subseteq> set (tags s1)" unfolding has_tag_def by force+
      with IH g(3,4) t(2) show ?thesis by simp
    qed
  qed
qed simp

lemma tracked_resubscribe:
  assumes "tracked s"
  shows "tracked (snd (resubscribe depth now dts s))"
  using assms
proof (induction dts arbitrary: s)
  case (Cons dt dts)
  show ?case
  proof (cases "depth dt \<in> {None, Some 0} \<or> dt \<notin> queue_handles (sv s) \<or> has_tag s dt \<or> \<not> connection s")
    case True
    with Cons show ?thesis by simp
  next
    case False
    obtain a s2 where sub: "subscribe dt now s = (a, s2)" by fastforce
    from False have "connection s" "\<not> has_tag s dt" by auto
    note t2 = tracked_subscribe [OF Cons.prems sub this]
    have "resubscribe depth now (dt # dts) s =
        (case subscribe dt now s of
           (False, s1) \<Rightarrow> resubscribe depth now dts s1
         | (True, s1) \<Rightarrow> (True, snd (resubscribe depth now dts s1)))"
      using False by (simp only: resubscribe.simps if_False)
    with Cons.IH [OF t2] sub show ?thesis by (cases a) simp_all
  qed
qed simp

lemma tracked_recovery [simp]: "tracked (s\<lparr>message_counts := c, last_message_time := l\<rparr>) = tracked s" "tracked (s\<lparr>idle_mode := b\<rparr>) = tracked s"
  "tracked (s\<lparr>shutdown_requested := b\<rparr>) = tracked s"
  by (simp_all add: tracked_def)

text \<open>
  A fresh attempt on no connection, with nothing subscribed: if it fails a recovery is to be
  requested; if it succeeds the tags are true, and with a backlog every type has a consumer.
\<close>

definition cut_off :: "lifecycle \<Rightarrow> bool" where
  "cut_off s \<longleftrightarrow> tags s = [] \<and> gauge s = 0 \<and> \<not> connection s \<and> \<not> channel s \<and> subscribed s = {}"

lemma restart_effect:
  assumes "cut_off s" and "\<not> recovery_requested s" and "restart_consumption depth now s = (ok, s1)"
  shows "(if ok then tracked s1 else tracked (s1\<lparr>recovery_requested := True, connection := True, channel := b\<rparr>)) \<and>
    (rpcs s = [] \<longrightarrow> ok \<and> \<not> recovery_requested s1 \<and> rpcs s1 = []) \<and>
    (ok \<and> (\<exists>dt \<in> set DATA_TYPES. 0 < depth dt) \<longrightarrow> connection s1 \<and> (\<forall>dt \<in> set DATA_TYPES. has_tag s1 dt))"
proof -
  obtain c s2 where c2: "calls (length DATA_TYPES) s = (c, s2)" by fastforce
  from calls_same [OF c2] obtain rs where s2: "s2 = s\<lparr>rpcs := rs\<rparr>" by blast
  show ?thesis
  proof (cases c)
    case False
    with assms(3) c2 have r: "\<not> ok" "s1 = s2" by (simp_all add: restart_consumption_def)
    have "tracked (s1\<lparr>recovery_requested := True, connection := True, channel := b\<rparr>)"
      using assms(1) unfolding r s2 by (intro trackedI) (simp_all add: cut_off_def)
    with r False calls_answered [of s] c2 show ?thesis by auto
  next
    case True
    show ?thesis
    proof (cases "\<exists>dt \<in> set DATA_TYPES. 0 < depth dt")
      case False
      with assms(3) c2 True have run: "calls 2 s2 = (ok, s1)" by (simp add: restart_consumption_def)
      from calls_same [OF run] obtain rs' where s1: "s1 = s\<lparr>rpcs := rs'\<rparr>" using s2 by auto
      have "tracked (s1\<lparr>recovery_requested := True, connection := True, channel := b\<rparr>)"
        using assms(1) unfolding s1 by (intro trackedI) (simp_all add: cut_off_def)
      moreover have "tracked s1" using assms(1) unfolding s1 by (intro trackedI) (simp_all add: cut_off_def)
      moreover have "rpcs s = [] \<Longrightarrow> ok \<and> rpcs s1 = []"
        using calls_answered [of s] calls_answered [of s2] c2 run by auto
      ultimately show ?thesis using False assms(2) s1 by auto
    next
      case backlog: True
      let ?s3 = "s2\<lparr>connection := True, channel := True\<rparr>"
      obtain d s3 where c3: "calls (1 + DECLARATIONS * length DATA_TYPES) ?s3 = (d, s3)" by fastforce
      from calls_same [OF c3] obtain rs' where s3: "s3 = s\<lparr>connection := True, channel := True, rpcs := rs'\<rparr>" using s2 by auto
      show ?thesis
      proof (cases d)
        case False
        with assms(3) c2 True backlog c3 have r: "\<not> ok" "s1 = s3" by (simp_all add: restart_consumption_def)
        have "tracked (s1\<lparr>recovery_requested := True, connection := True, channel := b\<rparr>)"
          using assms(1) unfolding r s3 by (intro trackedI) (simp_all add: cut_off_def)
        moreover have "rpcs s \<noteq> []"
        proof
          assume "rpcs s = []"
          then have "rpcs ?s3 = []" using calls_answered [of s] c2 by simp
          from calls_answered [OF this] c3 False show False by (metis prod.inject)
        qed
        ultimately show ?thesis using r by simp
      next
        case d: True
        let ?s4 = "on_service (\<lambda>v. v\<lparr>queue_handles := set DATA_TYPES\<rparr>) s3"
        obtain e s5 where st: "start_consumers depth now DATA_TYPES ?s4 = (e, s5)" by fastforce
        have t4: "tracked ?s4" using assms(1) unfolding s3 by (intro trackedI) (simp_all add: cut_off_def)
        have c4: "connection ?s4" "recovery_requested ?s4 = recovery_requested s" by (simp_all add: s3)
        note f = tracked_start [OF t4 st c4(1)]
        have r: "ok = e" "s1 = (if e then s5\<lparr>idle_mode := False\<rparr> else s5)"
          using assms(3) c2 True backlog c3 d st by (cases e; auto simp: restart_consumption_def split: if_splits prod.splits)+
        have fail: "tracked (s5\<lparr>recovery_requested := True, connection := True, channel := b\<rparr>)"
          using f by (intro trackedI) (simp_all add: tracked_def)
        have quiet: "rpcs s = [] \<Longrightarrow> rpcs ?s4 = []"
        proof -
          assume q: "rpcs s = []"
          then have "rpcs ?s3 = []" using calls_answered [of s] c2 by simp
          from calls_answered [OF this] c3 have "s3 = ?s3" by (metis prod.inject)
          then have "rpcs s3 = rpcs s2" by simp
          then show "rpcs ?s4 = []" using q calls_answered [of s] c2 by simp
        qed
        show ?thesis
        proof (cases e)
          case True
          with f r c4 quiet assms(2) show ?thesis by (auto simp: has_tag_def)
        next
          case False
          with f r fail quiet show ?thesis by auto
        qed
      qed
    qed
  qed
qed

text \<open>
  A recovery keeps the tags true whatever the broker does; when every call is answered it
  leaves no recovery pending, and with a backlog every type has a consumer.
\<close>

lemma recover_effect:
  assumes t: "tracked s" and pre: "recovery_requested s \<or> tags s = []"
  shows "tracked (recover_consumers depth now s)"
    and "rpcs s = [] \<Longrightarrow> \<not> recovery_requested (recover_consumers depth now s)"
    and "rpcs s = [] \<Longrightarrow> \<exists>dt \<in> set DATA_TYPES. 0 < depth dt \<Longrightarrow>
      connection (recover_consumers depth now s) \<and> (\<forall>dt \<in> set DATA_TYPES. has_tag (recover_consumers depth now s) dt)"
proof -
  let ?r = "recover_consumers depth now s"
  obtain a s0 where cl: "(if connection s \<or> channel s then close_rabbitmq_connection s else (False, s)) = (a, s0)" by fastforce
  have c0: "tracked s0" "rpcs s = [] \<Longrightarrow> \<not> a \<and> \<not> connection s0 \<and> rpcs s0 = []" "\<not> connection s0 \<Longrightarrow> tags s0 = []"
  proof (atomize (full), cases "connection s \<or> channel s")
    case True
    with cl have c: "close_rabbitmq_connection s = (a, s0)" by simp
    from tracked_close(1,2,4) [OF t c] pre
    show "tracked s0 \<and> (rpcs s = [] \<longrightarrow> \<not> a \<and> \<not> connection s0 \<and> rpcs s0 = []) \<and> (\<not> connection s0 \<longrightarrow> tags s0 = [])" by blast
  next
    case False
    with cl t show "tracked s0 \<and> (rpcs s = [] \<longrightarrow> \<not> a \<and> \<not> connection s0 \<and> rpcs s0 = []) \<and> (\<not> connection s0 \<longrightarrow> tags s0 = [])"
      by (auto simp: tracked_def)
  qed
  have "tracked ?r \<and> (rpcs s = [] \<longrightarrow> \<not> recovery_requested ?r \<and>
    ((\<exists>dt \<in> set DATA_TYPES. 0 < depth dt) \<longrightarrow> connection ?r \<and> (\<forall>dt \<in> set DATA_TYPES. has_tag ?r dt)))"
  proof (cases "a \<or> connection s0 \<or> channel s0")
    case True
    then have "?r = s0" using cl by (cases a) (simp_all add: recover_consumers_def)
    moreover have "rpcs s \<noteq> []" using True c0 by (auto simp: tracked_def)
    ultimately show ?thesis using c0(1) by simp
  next
    case False
    let ?s1 = "(drop_timers (cancel_timers (sv s0)) s0)\<lparr>recovery_requested := False\<rparr>"
    have cut: "cut_off s0" using c0(1,3) False by (simp add: cut_off_def tracked_def)
    obtain b s2 where c2: "calls 2 ?s1 = (b, s2)" by fastforce
    from calls_same [OF c2] obtain rs where s2: "s2 = ?s1\<lparr>rpcs := rs\<rparr>" by blast
    have cut2: "cut_off s2" "\<not> recovery_requested s2" using cut by (simp_all add: cut_off_def s2)
    have q2: "b \<and> rpcs s2 = []" if "rpcs s = []"
    proof -
      from c0(2) [OF that] have "rpcs ?s1 = []" by simp
      from calls_answered [OF this, of 2] c2 this show ?thesis by (metis prod.inject)
    qed
    have run: "?r = (if b then (case restart_consumption depth now s2 of
          (True, s3) \<Rightarrow> s3
        | (False, s3) \<Rightarrow> snd (close_rabbitmq_connection (on_service (\<lambda>v. v\<lparr>queue_handles := {}\<rparr>)
            (s3\<lparr>recovery_requested := True, connection := True, channel := True\<rparr>))))
      else s2\<lparr>recovery_requested := True\<rparr>)"
      using False cl c2 by (cases b) (simp_all add: recover_consumers_def)
    show ?thesis
    proof (cases b)
      case False
      then have r: "?r = s2\<lparr>recovery_requested := True\<rparr>" using run by simp
      have "tracked ?r" unfolding r using cut2 by (intro trackedI) (simp_all add: cut_off_def)
      with q2 False show ?thesis by blast
    next
      case True
      obtain ok s3 where rs: "restart_consumption depth now s2 = (ok, s3)" by fastforce
      note e = restart_effect [OF cut2 rs, of True]
      show ?thesis
      proof (cases ok)
        case True
        then have "?r = s3" using run \<open>b\<close> rs by simp
        with e True q2 show ?thesis by simp
      next
        case False
        let ?s4 = "on_service (\<lambda>v. v\<lparr>queue_handles := {}\<rparr>) (s3\<lparr>recovery_requested := True, connection := True, channel := True\<rparr>)"
        have t4: "tracked ?s4" using e False by (simp add: tracked_def)
        obtain d s5 where c5: "close_rabbitmq_connection ?s4 = (d, s5)" by fastforce
        from tracked_close(1) [OF t4 c5] have "tracked s5" by simp
        moreover have "?r = s5" using run \<open>b\<close> rs False c5 by simp
        moreover have "rpcs s \<noteq> []" using e False q2 by auto
        ultimately show ?thesis by simp
      qed
    qed
  qed
  then show "tracked ?r" "rpcs s = [] \<Longrightarrow> \<not> recovery_requested ?r"
    "rpcs s = [] \<Longrightarrow> \<exists>dt \<in> set DATA_TYPES. 0 < depth dt \<Longrightarrow> connection ?r \<and> (\<forall>dt \<in> set DATA_TYPES. has_tag ?r dt)"
    by blast+
qed

lemma tracked_parked:
  assumes t: "tracked s"
  shows "tracked (snd (recover_parked_markers probe depth now s))"
proof (cases "types_awaiting_marker s = [] \<or> shutdown_requested s \<or> recovery_requested s")
  case False
  have "\<not> connection s \<Longrightarrow> tags s = []" using t by (auto simp: tracked_def)
  with False t recover_effect(1) [OF t] tracked_resubscribe [OF t] show ?thesis
    by (auto simp: recover_parked_markers_def Let_def)
qed (auto simp: recover_parked_markers_def assms)

lemma tracked_round:
  assumes t: "tracked s"
  shows "tracked (checker_round probe depth now stuck_due full_due s)"
proof (cases "recovery_requested s")
  case True
  with recover_effect(1) [OF t] show ?thesis by (simp add: checker_round_def)
next
  case False
  let ?s1 = "snd (recover_parked_markers probe depth now s)"
  note t1 = tracked_parked [OF t, of probe depth now]
  have "check_consumers_unexpectedly_dead ?s1 \<Longrightarrow> tags ?s1 = []" by (simp add: check_consumers_unexpectedly_dead_def)
  with False t1 recover_effect(1) [OF t1] show ?thesis by (simp add: checker_round_def Let_def)
qed

lemma tracked_timer:
  assumes t: "tracked s"
  shows "tracked (cancel_after_delay dt s)"
proof (cases "map_of (tags s) dt")
  case None
  with t show ?thesis by (simp add: cancel_after_delay_def)
next
  case (Some tag)
  obtain r s1 where c: "cancel_consumer dt tag True s = (r, s1)" by fastforce
  note t1 = tracked_cancel [OF t c]
  show ?thesis
  proof (cases "r = Some True \<and> check_all_consumers_idle s1")
    case True
    obtain a s2 where cl: "close_rabbitmq_connection s1 = (a, s2)" by fastforce
    from True have "tags s1 = []" by (simp add: check_all_consumers_idle_def)
    with tracked_close(1) [OF t1 cl] have "tracked s2" by simp
    with True Some c cl show ?thesis by (cases a) (simp_all add: cancel_after_delay_def)
  next
    case False
    with t1 Some c show ?thesis by (cases r) (auto simp: cancel_after_delay_def split: bool.splits)
  qed
qed

lemma tracked_started: "tracked (started v)"
proof -
  have "distinct DATA_TYPES" by code_simp
  then show ?thesis by (simp add: tracked_def started_def comp_def)
qed

lemma tracked_step:
  assumes "life_step s s'" and t: "tracked s"
  shows "tracked s'"
  using assms(1)
proof cases
  case stop
  with t show ?thesis by (simp add: cancel_all_consumers_def tracked_cancel_each)
next
  case close
  with tracked_close(1) [OF t close(2)] show ?thesis by simp
next
  case handle
  with t show ?thesis by (simp add: tracked_def)
next
  case signal
  with t show ?thesis by (simp add: tracked_def)
next
  case reporter
  with t show ?thesis by (simp add: tracked_def)
qed (use t in \<open>simp_all add: tracked_timer tracked_round\<close>)

lemma reachable_tracked: "reachable s \<Longrightarrow> tracked s"
  by (induction rule: reachable.induct) (simp_all add: tracked_started tracked_step)

lemma resubscribe_starts:
  assumes "rpcs s = []" and "connection s" and "queue_handles (sv s) = set DATA_TYPES" and "set dts \<subseteq> set DATA_TYPES"
  shows "set (tags s) \<subseteq> set (tags (snd (resubscribe probe now dts s))) \<and>
    (\<forall>dt \<in> set dts. probe dt \<notin> {None, Some 0} \<longrightarrow> has_tag (snd (resubscribe probe now dts s)) dt)"
  using assms
proof (induction dts arbitrary: s)
  case (Cons dt dts)
  have in_types: "set dts \<subseteq> set DATA_TYPES" "dt \<in> set DATA_TYPES" using Cons.prems(4) by auto
  show ?case
  proof (cases "probe dt \<in> {None, Some 0} \<or> dt \<notin> queue_handles (sv s) \<or> has_tag s dt \<or> \<not> connection s")
    case True
    then have r: "resubscribe probe now (dt # dts) s = resubscribe probe now dts s" by (simp only: resubscribe.simps if_True)
    note IH = Cons.IH [OF Cons.prems(1-3) in_types(1)]
    from True in_types Cons.prems have "probe dt \<notin> {None, Some 0} \<Longrightarrow> has_tag s dt" by auto
    with IH have "probe dt \<notin> {None, Some 0} \<Longrightarrow> has_tag (snd (resubscribe probe now dts s)) dt" unfolding has_tag_def by blast
    with IH show ?thesis unfolding r by auto
  next
    case False
    obtain a s2 where sub: "subscribe dt now s = (a, s2)" by fastforce
    from subscribe_fields [OF sub] Cons.prems
    have f: "a" "rpcs s2 = []" "connection s2" "queue_handles (sv s2) = set DATA_TYPES" "tags s2 = tags s @ [(dt, consumer_tag dt)]" by auto
    have "resubscribe probe now (dt # dts) s =
        (case subscribe dt now s of
           (False, s1) \<Rightarrow> resubscribe probe now dts s1
         | (True, s1) \<Rightarrow> (True, snd (resubscribe probe now dts s1)))"
      using False by (simp only: resubscribe.simps if_False)
    then have r: "snd (resubscribe probe now (dt # dts) s) = snd (resubscribe probe now dts s2)" using sub f(1) by simp
    note IH = Cons.IH [OF f(2-4) in_types(1)]
    then have m: "set (tags s) \<subseteq> set (tags (snd (resubscribe probe now dts s2)))"
      and "(dt, consumer_tag dt) \<in> set (tags (snd (resubscribe probe now dts s2)))" using f(5) by auto
    then have "has_tag (snd (resubscribe probe now dts s2)) dt" unfolding has_tag_def by force
    with IH m show ?thesis unfolding r by auto
  qed
qed simp

text \<open>
  Two reachable states: the artists' file is done and its timer fires, once with a broker that
  answers, once with one that carries the call out and loses the answer.
\<close>

definition artists_timer :: "rpc list \<Rightarrow> lifecycle" where
  "artists_timer rs = cancel_after_delay (lit ''artists'')
     ((started ((fresh_service [])\<lparr>cancel_timers := {lit ''artists''}, completed_files := {lit ''artists''}\<rparr>))\<lparr>rpcs := rs\<rparr>)"

lemma artists_timer_reachable: "reachable (artists_timer rs)"
  unfolding artists_timer_def
  by (rule reachable.step [OF reachable.step [OF reachable.start life_step.broker] life_step.timer])
    (simp add: started_def fresh_service_def)

lemmas lifecycle_steps = cancel_after_delay_def cancel_consumer_def next_rpc_def Let_def drop_timers_def set_tags_def on_service_def
  check_all_consumers_idle_def started_def fresh_service_def DATA_TYPES_def ENTITY_TYPES_def has_tag_def types_awaiting_marker_def

lemma artists_timer_answered:
  "recovery_requested (artists_timer []) = False" "shutdown_requested (artists_timer []) = False" "rpcs (artists_timer []) = []"
  "tags (artists_timer []) = map (\<lambda>dt. (dt, consumer_tag dt)) [lit ''labels'', lit ''masters'', lit ''releases'']"
  "types_awaiting_marker (artists_timer []) = [lit ''artists'']" "graph_ready (sv (artists_timer []))"
  "message_counts (artists_timer []) dt = 0"
  by (simp_all add: artists_timer_def lifecycle_steps)

lemma artists_timer_lost:
  "recovery_requested (artists_timer [TimedOut True])" "rpcs (artists_timer [TimedOut True]) = []"
  by (simp_all add: artists_timer_def lifecycle_steps)

section \<open>What the service relies on\<close>

text \<open>
  C12. Whenever no recovery is pending, the broker delivers for exactly the consumers the
  service has tags for, one per type, and the gauge counts them - whatever timers, checks,
  handlers, shutdown and a failing broker did before.
\<close>

theorem consumers_accounted:
  assumes "reachable s" and "\<not> recovery_requested s"
  shows "subscribed s = set (tags s) \<and> distinct (map fst (tags s)) \<and> gauge s = int (length (tags s)) \<and>
    (tags s \<noteq> [] \<longrightarrow> connection s \<and> queue_handles (sv s) = set DATA_TYPES)"
  using reachable_tracked [OF assms(1)] assms(2) by (simp add: tracked_def)

lemma consumers_accounted_witness:
  "subscribed (artists_timer []) = set (map (\<lambda>dt. (dt, consumer_tag dt)) [lit ''labels'', lit ''masters'', lit ''releases'']) \<and>
   gauge (artists_timer []) = 3"
  using consumers_accounted [OF artists_timer_reachable [of "[]"]] by (simp add: artists_timer_answered)

text \<open>
  A service that reports itself healthy can hear the broker: its subscriptions are those
  it reports, and there is one unless every file is done or nothing was processed yet.
\<close>

theorem healthy_is_listening:
  assumes "reachable s" and "h_status (get_health_data now s) = Healthy"
  shows "fst ` subscribed s = set (h_active (get_health_data now s)) \<and>
    (subscribed s = {} \<longrightarrow> card (completed_files (sv s)) \<ge> length DATA_TYPES \<or> (\<forall>dt \<in> set DATA_TYPES. message_counts s dt = 0))"
proof -
  have h: "\<not> check_consumers_unexpectedly_dead s" "\<not> recovery_requested s"
    using assms(2) by (auto simp: get_health_data_def Let_def split: if_splits)
  then have sub: "subscribed s = set (tags s)" using reachable_tracked [OF assms(1)] by (simp add: tracked_def)
  with h(1) show ?thesis by (auto simp: get_health_data_def Let_def check_consumers_unexpectedly_dead_def)
qed

lemma healthy_is_listening_witness:
  "fst ` subscribed (artists_timer []) = {lit ''labels'', lit ''masters'', lit ''releases''}"
proof -
  have "h_status (get_health_data 0 (artists_timer [])) = Healthy"
    by (simp add: get_health_data_def Let_def check_consumers_unexpectedly_dead_def artists_timer_answered)
  from healthy_is_listening [OF artists_timer_reachable this] show ?thesis
    by (simp add: get_health_data_def Let_def artists_timer_answered)
qed

text \<open>
  C13. After an uncertain cancellation or teardown, one round of the checker with a broker that
  answers settles it: no recovery is pending, and if any queue holds a message every type has
  a consumer the broker knows.
\<close>

theorem recovery_restores_consumers:
  assumes "reachable s" and "recovery_requested s" and "rpcs s = []" and "\<exists>dt \<in> set DATA_TYPES. 0 < depth dt"
  shows "\<not> recovery_requested (checker_round probe depth now stuck_due full_due s) \<and>
    (\<forall>dt \<in> set DATA_TYPES. dt \<in> fst ` subscribed (checker_round probe depth now stuck_due full_due s))"
proof -
  let ?s = "recover_consumers depth now s"
  note e = recover_effect [OF reachable_tracked [OF assms(1)] disjI1 [OF assms(2)]]
  have "\<not> recovery_requested ?s" "\<forall>dt \<in> set DATA_TYPES. has_tag ?s dt" using e(2,3) assms(3,4) by blast+
  moreover from this e(1) have "subscribed ?s = set (tags ?s)" by (simp add: tracked_def)
  ultimately show ?thesis using assms(2) by (simp add: checker_round_def has_tag_def)
qed

lemma recovery_restores_consumers_witness:
  "\<not> recovery_requested (checker_round (\<lambda>_. None) (\<lambda>_. 1) 0 False False (artists_timer [TimedOut True])) \<and>
   lit ''artists'' \<in> fst ` subscribed (checker_round (\<lambda>_. None) (\<lambda>_. 1) 0 False False (artists_timer [TimedOut True]))"
proof -
  have types: "lit ''artists'' \<in> set DATA_TYPES" by (simp add: DATA_TYPES_def ENTITY_TYPES_def)
  then have "\<exists>dt \<in> set DATA_TYPES. (0::nat) < 1" by auto
  from recovery_restores_consumers [OF artists_timer_reachable artists_timer_lost this] types show ?thesis by blast
qed

text \<open>
  C14. A parked \<^verbatim>\<open>extraction_complete\<close> is heard: if a type's file is done, its consumer gone, its
  marker unsettled and its queue holds a message, one round of the checker with a broker that
  answers subscribes to it again, over the open connection or a new one.
\<close>

theorem parked_marker_heard:
  assumes "reachable s" and "\<not> recovery_requested s" and "\<not> shutdown_requested s" and "rpcs s = []"
    and "dt \<in> set (types_awaiting_marker s)" and "probe dt = Some (Suc n)" and "0 < depth dt"
  shows "has_tag (checker_round probe depth now stuck_due full_due s) dt"
proof -
  let ?s1 = "snd (recover_parked_markers probe depth now s)"
  note t = reachable_tracked [OF assms(1)]
  have types: "dt \<in> set DATA_TYPES" "set (types_awaiting_marker s) \<subseteq> set DATA_TYPES" "types_awaiting_marker s \<noteq> []"
    using assms(5) by (auto simp: types_awaiting_marker_def filter_empty_conv)
  have "has_tag ?s1 dt"
  proof (cases "connection s")
    case True
    with t assms(2) have "queue_handles (sv s) = set DATA_TYPES" by (simp add: tracked_def)
    from resubscribe_starts [OF assms(4) True this types(2)] assms(5,6)
    have "has_tag (snd (resubscribe probe now (types_awaiting_marker s) s)) dt" by auto
    with True types(3) assms(2,3) show ?thesis by (simp add: recover_parked_markers_def Let_def)
  next
    case False
    with t have "tags s = []" by (auto simp: tracked_def)
    from recover_effect(3) [OF t disjI2 [OF this] assms(4)] assms(7) types(1)
    have "has_tag (recover_consumers depth now s) dt" by blast
    with False types(3) assms(2,3) show ?thesis by (simp add: recover_parked_markers_def Let_def)
  qed
  moreover from this have "tags ?s1 \<noteq> []" by (auto simp: has_tag_def)
  ultimately show ?thesis using assms(2) by (simp add: checker_round_def Let_def check_consumers_unexpectedly_dead_def)
qed

lemma parked_marker_heard_witness:
  "has_tag (checker_round (\<lambda>_. Some 1) (\<lambda>_. 1) 0 True True (artists_timer [])) (lit ''artists'')"
  by (rule parked_marker_heard [where n = 0]) (simp_all add: artists_timer_reachable artists_timer_answered)

end
