(* ===== verification/MessageHandler.thy ===== *)
theory MessageHandler
  imports MarkerTheorems ConsumerLifecycle Projectors
begin

text \<open>
  The handler of a delivery, \<^verbatim>\<open>make_message_handler\<close> of \<^verbatim>\<open>graphinator/graphinator.py\<close>, with
  \<^verbatim>\<open>Neo4jBatchProcessor.add_message\<close> of \<^verbatim>\<open>graphinator/batch_processor.py\<close>: what is
  dead-lettered, what goes to the marker handler, what is written and acknowledged, what goes
  back to the broker. It acts on the service's state and on the graph.
\<close>

section \<open>Deliveries\<close>

text \<open>
  The decoded body (\<open>None\<close>: not JSON); how often the broker has handed the message out; what
  a flush before a marker reports (\<open>None\<close>: there is no batch processor); whether the channel
  takes settlements, the batch engine takes the record and how the write transaction ends; and
  the engine's snapshot: what is pending for the type, its batch size, the time since its last
  flush.
\<close>

record delivery =
  dl_body :: "pyval option"
  dl_handouts :: int
  dl_flushed :: "bool option"
  dl_channel_up :: bool
  dl_engine_up :: bool
  dl_write :: fault
  dl_pending :: int
  dl_batch_size :: int
  dl_since_flush :: rat

text \<open>\<^verbatim>\<open>normalize_record\<close> and the default requeue budget are the shared package's.\<close>

record handler_config =
  hc_markers :: marker_config
  hc_batch_mode :: bool
  hc_record_requeues :: nat
  hc_flush_interval :: rat
  hc_normalize :: "pystr \<Rightarrow> pydict \<Rightarrow> py_error + pydict"

definition process_fn :: "runtime \<Rightarrow> pystr \<Rightarrow> pydict \<Rightarrow> graph \<Rightarrow> py_error + (bool \<times> graph)" where
  "process_fn rt dt =
     (if dt = lit ''artists'' then process_artist rt
      else if dt = lit ''labels'' then process_label
      else if dt = lit ''masters'' then process_master
      else process_release rt)"

definition marker_of :: "pystr \<Rightarrow> pydict \<Rightarrow> delivery \<Rightarrow> marker" where
  "marker_of dt record d =
     \<lparr>mk_type = dt, mk_data = record, mk_handouts = dl_handouts d, mk_flushed = dl_flushed d, mk_channel_up = dl_channel_up d\<rparr>"

section \<open>Settling\<close>

definition settle :: "event \<Rightarrow> delivery \<Rightarrow> lifecycle \<Rightarrow> bool \<times> lifecycle" where
  "settle e d s = (if dl_channel_up d then (True, on_service (emit e) s) else (False, s))"

text \<open>The pause and the return to the broker; a settlement that fails is only logged.\<close>

definition requeue_record :: "handler_config \<Rightarrow> delivery \<Rightarrow> lifecycle \<Rightarrow> lifecycle" where
  "requeue_record cfg d s =
     snd (settle (RequeueOrDeadLetter (hc_record_requeues cfg)) d
       (if dl_handouts d < int (hc_record_requeues cfg) then on_service (emit OutageWait) s else s))"

definition or_requeue :: "handler_config \<Rightarrow> delivery \<Rightarrow> bool \<times> lifecycle \<Rightarrow> lifecycle" where
  "or_requeue cfg d r = (case r of (ok, s) \<Rightarrow> if ok then s else requeue_record cfg d s)"

definition dead_letter :: "handler_config \<Rightarrow> delivery \<Rightarrow> lifecycle \<Rightarrow> lifecycle" where
  "dead_letter cfg d s = or_requeue cfg d (settle DeadLettered d s)"

definition count_message :: "pystr \<Rightarrow> rat \<Rightarrow> lifecycle \<Rightarrow> lifecycle" where
  "count_message dt now s =
     s\<lparr>message_counts := (message_counts s)(dt := Suc (message_counts s dt)),
       last_message_time := (last_message_time s)(dt := now)\<rparr>"

section \<open>Records\<close>

text \<open>A record after a terminal marker starts fresh work for its type.\<close>

definition rearm :: "pystr \<Rightarrow> service \<Rightarrow> service" where
  "rearm dt v =
     drop_timer dt (v\<lparr>completed_files := completed_files v - {dt}, extraction_signalled := extraction_signalled v - {dt}\<rparr>)"

text \<open>
  Submission to the batch engine. \<open>None\<close>: an exception. Once the engine has the delivery it is
  the engine's to settle; a full or overdue queue is flushed at once.
\<close>

definition flush_due :: "handler_config \<Rightarrow> delivery \<Rightarrow> bool" where
  "flush_due cfg d \<longleftrightarrow> dl_pending d \<ge> dl_batch_size d \<or> dl_since_flush d \<ge> hc_flush_interval cfg"


definition add_message :: "handler_config \<Rightarrow> pystr \<Rightarrow> pydict \<Rightarrow> delivery \<Rightarrow> lifecycle \<Rightarrow> bool option \<times> lifecycle" where
  "add_message cfg dt record d s =
     (if dt \<notin> set DATA_TYPES \<or> \<not> truthy (dget record ''id'') \<or> \<not> succeeds (hc_normalize cfg dt record)
      then (case settle DeadLettered d s of (ok, s1) \<Rightarrow> (if ok then Some False else None, s1))
      else if dl_engine_up d then
        let s1 = on_service (emit Queued) s in
        (Some True, if flush_due cfg d then on_service (emit (FlushRequested dt)) s1 else s1)
      else (None, s))"

definition submit_record :: "handler_config \<Rightarrow> rat \<Rightarrow> pystr \<Rightarrow> pydict \<Rightarrow> delivery \<Rightarrow> lifecycle \<Rightarrow> lifecycle" where
  "submit_record cfg now dt record d s =
     (case add_message cfg dt record d s of
        (None, s1) \<Rightarrow> requeue_record cfg d s1
      | (Some accepted, s1) \<Rightarrow> if accepted then count_message dt now s1 else s1)"

text \<open>
  The write of one record: its transaction commits, is rejected, or commits without an answer.
\<close>

definition write_record ::
  "handler_config \<Rightarrow> rat \<Rightarrow> pystr \<Rightarrow> pydict \<Rightarrow> delivery \<Rightarrow> lifecycle \<times> graph \<Rightarrow> lifecycle \<times> graph" where
  "write_record cfg now dt record d sg =
     (case sg of (s, g) \<Rightarrow>
        case hc_normalize cfg dt record of
          Inl _ \<Rightarrow> (dead_letter cfg d s, g)
        | Inr rec \<Rightarrow>
            if \<not> truthy (dget rec ''id'') then (dead_letter cfg d s, g)
            else if \<not> graph_ready (sv s) then (requeue_record cfg d s, g)
            else
              (case process_fn (text_runtime (hc_markers cfg)) dt rec g of
                 Inl _ \<Rightarrow> (requeue_record cfg d s, g)
               | Inr (updated, g') \<Rightarrow>
                   (case dl_write d of
                      Rejected \<Rightarrow> (requeue_record cfg d s, g)
                    | AnswerLost \<Rightarrow> (requeue_record cfg d s, g')
                    | Fine \<Rightarrow>
                        (case settle Ack d s of
                           (False, s1) \<Rightarrow> (requeue_record cfg d s1, g')
                         | (True, s1) \<Rightarrow> (count_message dt now (on_service (emit OutageReset) s1), g')))))"

section \<open>The handler\<close>

definition batched :: "handler_config \<Rightarrow> delivery \<Rightarrow> bool" where
  "batched cfg d \<longleftrightarrow> hc_batch_mode cfg \<and> dl_flushed d \<noteq> None"

definition handler ::
  "handler_config \<Rightarrow> rat \<Rightarrow> pystr \<Rightarrow> delivery \<Rightarrow> lifecycle \<times> graph \<Rightarrow> lifecycle \<times> graph" where
  "handler cfg now dt d sg =
     (case sg of (s, g) \<Rightarrow>
        if shutdown_requested s then (s, g)
        else
          case dl_body d of
            Some (PDict record) \<Rightarrow>
              (case check_file_completion (hc_markers cfg) (marker_of dt record d) (sv s) of
                 (Inl _, v) \<Rightarrow> (requeue_record cfg d (s\<lparr>sv := v\<rparr>), g)
               | (Inr True, v) \<Rightarrow> (s\<lparr>sv := v\<rparr>, g)
               | (Inr False, v) \<Rightarrow>
                   let s1 = s\<lparr>sv := rearm dt v\<rparr> in
                   if batched cfg d then (submit_record cfg now dt record d s1, g)
                   else write_record cfg now dt record d (s1, g))
          | _ \<Rightarrow> (dead_letter cfg d s, g))"

section \<open>Settlements\<close>

text \<open>Which deliveries are end-of-type markers.\<close>

definition is_marker :: "pydict \<Rightarrow> bool" where
  "is_marker record \<longleftrightarrow> dget record ''type'' \<in> {PStr (lit ''file_complete''), PStr (lit ''extraction_complete'')}"

lemma marker_of_fields [simp]:
  "mk_channel_up (marker_of dt record d) = dl_channel_up d" "mk_type (marker_of dt record d) = dt"
  "mk_flushed (marker_of dt record d) = dl_flushed d"
  by (simp_all add: marker_of_def)

lemma marker_of_marker:
  "(is_file_complete (marker_of dt record d) \<or> is_extraction_complete (marker_of dt record d)) = is_marker record"
  by (simp add: marker_of_def is_marker_def is_file_complete_def is_extraction_complete_def)

lemma record_passes:
  assumes "\<not> is_marker record"
  shows "check_file_completion cfg (marker_of dt record d) v = (Inr False, v)"
  using assms marker_of_marker [of dt "record" d] by (simp add: check_file_completion_def)

lemma settle_up: "dl_channel_up d \<Longrightarrow> settle e d s = (True, on_service (emit e) s)"
  by (simp add: settle_def)

lemma settlements_requeue:
  "dl_channel_up d \<Longrightarrow> settlements (sv (requeue_record cfg d s)) = settlements (sv s) @ [RequeueOrDeadLetter (hc_record_requeues cfg)]"
  by (simp add: requeue_record_def settle_up settlements_emit)

lemma settlements_dead_letter:
  "dl_channel_up d \<Longrightarrow> settlements (sv (dead_letter cfg d s)) = settlements (sv s) @ [DeadLettered]"
  by (simp add: dead_letter_def or_requeue_def settle_up settlements_emit)

lemma settlements_rearm [simp]: "settlements (rearm dt v) = settlements v"
  by (simp add: rearm_def) (simp add: settlements_def)

lemma count_message_sv [simp]: "sv (count_message dt now s) = sv s"
  by (simp add: count_message_def)

lemma settlements_submit:
  assumes "dl_channel_up d"
  shows "settlements (sv (submit_record cfg now dt record d s)) = settlements (sv s) @
    [if dt \<notin> set DATA_TYPES \<or> \<not> truthy (dget record ''id'') \<or> \<not> succeeds (hc_normalize cfg dt record) then DeadLettered
     else if dl_engine_up d then Queued else RequeueOrDeadLetter (hc_record_requeues cfg)]"
  using assms by (simp add: submit_record_def add_message_def Let_def settle_up settlements_emit settlements_requeue)

text \<open>How the write of a record ends: its settlement and the graph it leaves.\<close>

definition usable_record :: "handler_config \<Rightarrow> pystr \<Rightarrow> pydict \<Rightarrow> pydict option" where
  "usable_record cfg dt record =
     (case hc_normalize cfg dt record of Inl _ \<Rightarrow> None | Inr rec \<Rightarrow> if truthy (dget rec ''id'') then Some rec else None)"

lemma write_outcome:
  assumes "dl_channel_up d" and "write_record cfg now dt record d (s, g) = (s', g')"
  obtains (invalid) "usable_record cfg dt record = None" and "g' = g" and "settlements (sv s') = settlements (sv s) @ [DeadLettered]"
      and "message_counts s' = message_counts s"
  | (failed) rec where "usable_record cfg dt record = Some rec"
      and "settlements (sv s') = settlements (sv s) @ [RequeueOrDeadLetter (hc_record_requeues cfg)]"
      and "g' = g \<or> (\<exists>b. process_fn (text_runtime (hc_markers cfg)) dt rec g = Inr (b, g'))"
  | (written) rec b where "usable_record cfg dt record = Some rec" and "settlements (sv s') = settlements (sv s) @ [Ack]"
      and "process_fn (text_runtime (hc_markers cfg)) dt rec g = Inr (b, g')"
proof (cases "usable_record cfg dt record")
  case None
  then have "write_record cfg now dt record d (s, g) = (dead_letter cfg d s, g)"
    by (auto simp: write_record_def usable_record_def split: sum.splits if_splits)
  with assms settlements_dead_letter [OF assms(1), of cfg s] None show thesis
    by (intro invalid) (auto simp: dead_letter_def or_requeue_def settle_up on_service_def)
next
  case (Some rec)
  then have n: "hc_normalize cfg dt record = Inr rec" "truthy (dget rec ''id'')"
    by (auto simp: usable_record_def split: sum.splits if_splits)
  have q: "settlements (sv (requeue_record cfg d s)) = settlements (sv s) @ [RequeueOrDeadLetter (hc_record_requeues cfg)]"
    using settlements_requeue [OF assms(1)] .
  let ?p = "process_fn (text_runtime (hc_markers cfg)) dt rec g"
  show thesis
  proof (cases "graph_ready (sv s)")
    case False
    with assms(2) n have "s' = requeue_record cfg d s" "g' = g" by (simp_all add: write_record_def)
    with q Some show thesis by (intro failed) auto
  next
    case ready: True
    show thesis
    proof (cases ?p)
      case (Inl e)
      with assms(2) n ready have "s' = requeue_record cfg d s" "g' = g" by (simp_all add: write_record_def)
      with q Some show thesis by (intro failed) auto
    next
      case (Inr bg)
      obtain b g1 where bg: "bg = (b, g1)" by (cases bg)
      show thesis
      proof (cases "dl_write d")
        case Fine
        with assms n ready Inr bg have "settlements (sv s') = settlements (sv s) @ [Ack]" "g' = g1"
          by (auto simp: write_record_def settle_up settlements_emit)
        with Some Inr bg show thesis by (intro written) auto
      next
        case Rejected
        with assms n ready Inr bg have "s' = requeue_record cfg d s" "g' = g" by (simp_all add: write_record_def)
        with q Some show thesis by (intro failed) auto
      next
        case AnswerLost
        with assms n ready Inr bg have "s' = requeue_record cfg d s" "g' = g1" by (simp_all add: write_record_def)
        with q Some Inr bg show thesis by (intro failed) auto
      qed
    qed
  qed
qed

lemma marker_result:
  assumes "coherent v" and "is_marker record" and "dl_channel_up d"
  shows "\<exists>w e. check_file_completion cfg (marker_of dt record d) v = (Inr True, w) \<and> settlements w = settlements v @ [e] \<and> is_settlement e"
  using marker_settled [OF assms(1), of "marker_of dt record d" cfg] assms(2,3) marker_of_marker [of dt "record" d]
  by (cases "check_file_completion cfg (marker_of dt record d) v") (auto simp: settled_by_def)

lemma handler_record:
  assumes "\<not> shutdown_requested s" and "dl_body d = Some (PDict record)" and "\<not> is_marker record"
  shows "handler cfg now dt d (s, g) =
    (let s1 = s\<lparr>sv := rearm dt (sv s)\<rparr> in
     if batched cfg d then (submit_record cfg now dt record d s1, g)
     else write_record cfg now dt record d (s1, g))"
  using assms by (simp add: handler_def record_passes [OF assms(3)])

text \<open>A configuration without batching and deliveries of one release, for the witnesses.\<close>

definition demo_handler :: handler_config where
  "demo_handler = \<lparr>hc_markers = demo_config, hc_batch_mode = False, hc_record_requeues = 20, hc_flush_interval = 5,
     hc_normalize = (\<lambda>_. Inr)\<rparr>"

definition demo_delivery :: "pyval option \<Rightarrow> fault \<Rightarrow> delivery" where
  "demo_delivery body w =
     \<lparr>dl_body = body, dl_handouts = 0, dl_flushed = None, dl_channel_up = True, dl_engine_up = True, dl_write = w,
      dl_pending = 1, dl_batch_size = 100, dl_since_flush = 0\<rparr>"

definition release_delivery :: "fault \<Rightarrow> delivery" where
  "release_delivery = demo_delivery (Some (PDict (demo_release 1 ''a'')))"

definition demo_service :: lifecycle where "demo_service = started (fresh_service [])"

lemma demo_service_facts:
  "coherent (sv demo_service)" "\<not> shutdown_requested demo_service" "settlements (sv demo_service) = []"
  by (simp_all add: demo_service_def started_def fresh_service_def coherent_def settlements_def)

lemma demo_handler_facts:
  "\<not> hc_batch_mode demo_handler" "\<not> is_marker (demo_release 1 ''a'')" "text_runtime (hc_markers demo_handler) = demo_rt"
  "usable_record demo_handler (lit ''releases'') (demo_release 1 ''a'') = Some (demo_release 1 ''a'')"
proof -
  show "\<not> is_marker (demo_release 1 ''a'')" by code_simp
  have "truthy (dget (demo_release 1 ''a'') ''id'')" by code_simp
  then show "usable_record demo_handler (lit ''releases'') (demo_release 1 ''a'') = Some (demo_release 1 ''a'')"
    by (simp add: usable_record_def demo_handler_def)
qed (simp_all add: demo_handler_def demo_config_def)



section \<open>Redelivery\<close>

lemma process_recognised: "process_fn rt dt d g = Inr (b, g') \<Longrightarrow> process_fn rt dt d g' = Inr (False, g')"
  unfolding process_fn_def
  by (auto split: if_splits dest: artist.redelivered label.redelivered master.redelivered release.redelivered)

lemma wf_process_fn: "graph_wf g \<Longrightarrow> process_fn rt dt d g = Inr (b, g') \<Longrightarrow> graph_wf g'"
  using reports_wf_processors(1,4) [of g rt d] reports_wf_processors(2,3) [of g d] by (auto simp: process_fn_def reports_wf_def split: if_splits)

text \<open>One more delivery of a record, on the graph before its write or on the one after it.\<close>

lemma redelivery_step:
  assumes "\<not> hc_batch_mode cfg" and "\<not> is_marker record" and "usable_record cfg dt record = Some rec"
    and p: "process_fn (text_runtime (hc_markers cfg)) dt rec g = Inr (b, g1)"
    and "dl_body d = Some (PDict record)" and "dl_channel_up d" and "h \<in> {g, g1}"
    and "handler cfg now dt d (s, h) = (s', h')"
  shows "h' \<in> {h, g1} \<and> (\<exists>new. settlements (sv s') = settlements (sv s) @ new \<and> (Ack \<in> set new \<longrightarrow> h' = g1))"
proof (cases "shutdown_requested s")
  case True
  with assms(8) show ?thesis by (simp add: handler_def)
next
  case False
  let ?s1 = "s\<lparr>sv := rearm dt (sv s)\<rparr>"
  have w: "write_record cfg now dt record d (?s1, h) = (s', h')"
    using handler_record [OF False assms(5,2), of cfg now dt h] assms(1,8) by (simp add: Let_def batched_def)
  have p1: "process_fn (text_runtime (hc_markers cfg)) dt rec h = Inr (c, k) \<Longrightarrow> k = g1" for c k
    using p process_recognised [OF p] assms(7) by auto
  from write_outcome [OF assms(6) w] show ?thesis by cases (use assms(3) p1 in auto)
qed



section \<open>Input that no retry can mend\<close>

text \<open>
  C8. A body that is no JSON object, and a record that does not normalize or has no id, is
  dead-lettered on its first delivery, in batch mode and in single mode; the graph and the
  message counts stay as they were.
\<close>

theorem bad_input_dead_lettered:
  assumes "\<not> shutdown_requested s" and "dl_channel_up d" and "handler cfg now dt d (s, g) = (s', g')"
    and "case dl_body d of
           Some (PDict record) \<Rightarrow> \<not> is_marker record \<and>
             (\<not> succeeds (hc_normalize cfg dt record) \<or>
              \<not> truthy (dget record ''id'') \<and> usable_record cfg dt record = None)
         | _ \<Rightarrow> True"
  shows "settlements (sv s') = settlements (sv s) @ [DeadLettered] \<and> g' = g \<and> message_counts s' = message_counts s"
proof (cases "\<exists>record. dl_body d = Some (PDict record)")
  case False
  with assms(1,3) have "s' = dead_letter cfg d s" "g' = g"
    by (auto simp: handler_def split: option.splits pyval.splits)
  with settlements_dead_letter [OF assms(2)] assms(2) show ?thesis
    by (simp add: dead_letter_def or_requeue_def settle_up on_service_def)
next
  case True
  then obtain "record" where body: "dl_body d = Some (PDict record)" by blast
  with assms(4) have bad: "\<not> is_marker record"
    "\<not> succeeds (hc_normalize cfg dt record) \<or> \<not> truthy (dget record ''id'') \<and> usable_record cfg dt record = None" by simp_all
  let ?s1 = "s\<lparr>sv := rearm dt (sv s)\<rparr>"
  note run = handler_record [OF assms(1) body bad(1), of cfg now dt g]
  show ?thesis
  proof (cases "batched cfg d")
    case True
    with run assms(3) have r: "s' = submit_record cfg now dt record d ?s1" "g' = g" by (simp_all add: Let_def)
    from bad(2) have "message_counts s' = message_counts s" unfolding r(1)
      using assms(2) by (auto simp: submit_record_def add_message_def settle_up on_service_def)
    with r settlements_submit [OF assms(2), of cfg now dt "record" ?s1] bad(2) show ?thesis by auto
  next
    case False
    with run assms(3) have w: "write_record cfg now dt record d (?s1, g) = (s', g')" by (simp add: Let_def)
    have "usable_record cfg dt record = None"
      using bad(2) by (auto simp: usable_record_def succeeds_def split: sum.splits)
    with write_outcome [OF assms(2) w] show ?thesis by cases auto
  qed
qed

lemma bad_input_dead_lettered_witness:
  "settlements (sv (fst (handler demo_handler 0 (lit ''releases'') (demo_delivery None Fine) (demo_service, empty_graph)))) = [DeadLettered]"
proof -
  obtain s' g' where h: "handler demo_handler 0 (lit ''releases'') (demo_delivery None Fine) (demo_service, empty_graph) = (s', g')"
    by fastforce
  from bad_input_dead_lettered [OF demo_service_facts(2) _ h] show ?thesis
    by (simp add: h demo_service_facts) (simp add: demo_delivery_def)
qed

section \<open>The handler among the other steps of the service\<close>

text \<open>The marker handler leaves the consumers and the queues alone.\<close>

definition keeps_consumers :: "service \<Rightarrow> service \<Rightarrow> bool" where
  "keeps_consumers v w \<longleftrightarrow> consumer_tags w = consumer_tags v \<and> queue_handles w = queue_handles v"

lemma keeps_consumers_trans: "keeps_consumers u v \<Longrightarrow> keeps_consumers v w \<Longrightarrow> keeps_consumers u w"
  by (simp add: keeps_consumers_def)

lemma keeps_consumers_simps [simp]:
  "keeps_consumers v v" "keeps_consumers v (emit e w) = keeps_consumers v w" "keeps_consumers v (drop_timer dt w) = keeps_consumers v w"
  "keeps_consumers v (complete_file cfg dt w) = keeps_consumers v w" "keeps_consumers v (complete_type cfg dt w) = keeps_consumers v w"
  "keeps_consumers v (start_post_import_maintenance x w) = keeps_consumers v w" "keeps_consumers v (rearm dt w) = keeps_consumers v w"
  "keeps_consumers v (snd (settle_with e m w)) = keeps_consumers v w"
  by (auto simp: keeps_consumers_def drop_timer_def complete_file_def complete_type_def arm_cancellation_def rearm_def settle_with_def
      schedule_consumer_cancellation_def start_post_import_maintenance_def Let_def split: option.splits)

lemma keeps_consumers_settling [simp]:
  "keeps_consumers v (snd (requeue_marker m w)) = keeps_consumers v w"
  "(\<And>u. keeps_consumers v (f u) = keeps_consumers v u) \<Longrightarrow>
     keeps_consumers v (snd (bindA (acknowledge m) (\<lambda>_ u. (Inr True, f u)) w)) = keeps_consumers v w"
  by (auto simp: requeue_marker_def acknowledge_def bindA_def settle_with_def)

lemma keeps_consumers_check: "keeps_consumers v (snd (check_file_completion cfg m v))"
proof (cases "\<not> is_file_complete m \<and> is_extraction_complete m \<and> mk_flushed m \<noteq> Some False")
  case False
  then show ?thesis by (auto simp: check_file_completion_def Let_def)
next
  case True
  let ?v = "marker_version cfg m" and ?s1 = "drop_timer (mk_type m) v"
  obtain q s2 where rec: "record_extraction_signal ?v (mk_type m) ?s1 = (q, s2)" by fastforce
  from rec have "rest s2 = rest ?s1" by (rule record_outcome)
  from rest_fields [OF this] have k2: "keeps_consumers ?s1 s2" by (simp add: keeps_consumers_def)
  then have k2': "keeps_consumers v s2" using keeps_consumers_trans [of v ?s1 s2] by simp
  let ?s3 = "complete_type cfg (mk_type m) s2"
  obtain r s4 where mt: "is_extraction_maintained ?v ?s3 = (r, s4)" by fastforce
  from rest_fields [OF maintained_outcome(1) [OF mt]] have "keeps_consumers ?s3 s4" by (simp add: keeps_consumers_def)
  then have k4: "keeps_consumers v s4" using keeps_consumers_trans [of v ?s3 s4] k2' by simp
  show ?thesis
  proof (cases q)
    case (Inl e)
    with True rec k2' show ?thesis by (simp add: check_file_completion_def Let_def)
  next
    case (Inr S)
    with True rec mt k2' k4 show ?thesis
      by (cases r; cases "r = Inr True") (auto simp: check_file_completion_def Let_def)
  qed
qed

definition handled :: "lifecycle \<Rightarrow> lifecycle \<Rightarrow> bool" where
  "handled s s' \<longleftrightarrow> keeps_consumers (sv s) (sv s') \<and>
     s' = s\<lparr>sv := sv s', message_counts := message_counts s', last_message_time := last_message_time s'\<rparr>"

lemma handled_service: "keeps_consumers (sv s) v \<Longrightarrow> handled s (s\<lparr>sv := v\<rparr>)"
  by (cases s) (simp add: handled_def)

lemma handled_trans:
  assumes "handled s t" and "handled t u"
  shows "handled s u"
proof -
  have t: "t = s\<lparr>sv := sv t, message_counts := message_counts t, last_message_time := last_message_time t\<rparr>"
    and u: "u = t\<lparr>sv := sv u, message_counts := message_counts u, last_message_time := last_message_time u\<rparr>"
    using assms by (auto simp: handled_def)
  have "u = s\<lparr>sv := sv u, message_counts := message_counts u, last_message_time := last_message_time u\<rparr>"
    by (subst u, subst t) simp
  with assms show ?thesis unfolding handled_def by (blast intro: keeps_consumers_trans)
qed

lemma handled_small [simp]: "handled s (on_service (emit e) s)" "handled s (count_message dt now s)" "handled s (snd (settle e d s))" "handled s s"
  by (cases s; simp add: handled_def on_service_def count_message_def settle_def)+

lemmas handled_then =
  handled_trans [OF _ handled_small(1)] handled_trans [OF _ handled_small(2)] handled_trans [OF _ handled_small(3)]

lemma handled_requeue: "handled s t \<Longrightarrow> handled s (requeue_record cfg d t)"
  by (simp add: requeue_record_def handled_then)

lemma settle_state: "settle e d s = (ok, t) \<Longrightarrow> t = snd (settle e d s)"
  by simp

lemma handled_dead_letter: "handled s t \<Longrightarrow> handled s (dead_letter cfg d t)"
  by (auto simp: dead_letter_def or_requeue_def handled_then handled_requeue dest: settle_state split: prod.splits)

lemma handled_submit: "handled s t \<Longrightarrow> handled s (submit_record cfg now dt record d t)"
  by (auto simp: submit_record_def add_message_def Let_def handled_then handled_requeue split: prod.splits if_splits option.splits
      dest!: settle_state)

lemma handled_write: "handled s t \<Longrightarrow> handled s (fst (write_record cfg now dt record d (t, g)))"
  by (auto simp: write_record_def handled_then handled_requeue handled_dead_letter dest!: settle_state
      split: prod.splits sum.splits fault.splits bool.splits)

text \<open>
  The handler of a delivery is the step a handler may take among timers, checks, recovery and
  shutdown: it moves neither a consumer's tag nor a queue handle nor the connection.
\<close>

lemma handler_is_step: "life_step s (fst (handler cfg now dt d (s, g)))"
proof -
  have "handled s (fst (handler cfg now dt d (s, g)))"
  proof (cases "shutdown_requested s \<or> (\<nexists>record. dl_body d = Some (PDict record))")
    case True
    then show ?thesis by (auto simp: handler_def handled_dead_letter split: option.splits pyval.splits)
  next
    case False
    then obtain "record" where body: "\<not> shutdown_requested s" "dl_body d = Some (PDict record)" by blast
    obtain r v where c: "check_file_completion (hc_markers cfg) (marker_of dt record d) (sv s) = (r, v)" by fastforce
    then have k: "keeps_consumers (sv s) v" using keeps_consumers_check [of "sv s" "hc_markers cfg" "marker_of dt record d"] by simp
    then have "handled s (s\<lparr>sv := v\<rparr>)" "handled s (s\<lparr>sv := rearm dt v\<rparr>)" by (simp_all add: handled_service)
    with body c show ?thesis
      by (auto simp: handler_def Let_def handled_requeue handled_submit handled_write split: sum.splits bool.splits)
  qed
  then have k: "keeps_consumers (sv s) (sv (fst (handler cfg now dt d (s, g))))"
    and eq: "fst (handler cfg now dt d (s, g)) = s\<lparr>sv := sv (fst (handler cfg now dt d (s, g))),
      message_counts := message_counts (fst (handler cfg now dt d (s, g))),
      last_message_time := last_message_time (fst (handler cfg now dt d (s, g)))\<rparr>"
    unfolding handled_def by blast+
  show ?thesis by (subst eq, rule life_step.handle) (use k in \<open>simp_all add: keeps_consumers_def\<close>)
qed

lemma handler_graph_wf:
  assumes "graph_wf g"
  shows "graph_wf (snd (handler cfg now dt d (s, g)))"
  using assms wf_process_fn
  by (auto simp: handler_def write_record_def Let_def split: option.splits pyval.splits sum.splits bool.splits prod.splits fault.splits)

end
