(* ===== verification/BatchSettings.thy ===== *)
theory BatchSettings
  imports PyValue
begin

text \<open>
  \<^verbatim>\<open>graphinator/batch_processor.py\<close>: the configuration of the batch engine and its bounds, the
  policy the engine gets, the override from the environment, the drain of one queue before a
  marker, the settlement callbacks and the classification of failures. The engine is the shared
  package's. Durations are rational seconds.
\<close>

section \<open>Configuration\<close>

record batch_config =
  batch_size :: int
  flush_interval :: rat
  max_pending :: int
  max_concurrent_flushes :: int
  min_batch_size :: int
  backoff_initial :: rat
  backoff_max :: rat
  backoff_multiplier :: rat
  max_flush_retries :: int
  max_poison_retries :: int
  max_hold_s :: "rat option"
  max_requeues :: "int option"
  max_write_s :: "rat option"
  prefetch_count :: "int option"

definition BROKER_CONSUMER_TIMEOUT_S :: rat where "BROKER_CONSUMER_TIMEOUT_S = 1800"
definition DEFAULT_MAX_HOLD_S :: rat where "DEFAULT_MAX_HOLD_S = 1500"
definition DEFAULT_MAX_PENDING :: int where "DEFAULT_MAX_PENDING = 1000"
definition PENDING_PER_PREFETCH :: int where "PENDING_PER_PREFETCH = 4"

text \<open>The defaults; the shared package supplies the last two.\<close>

definition default_config :: "int \<Rightarrow> rat \<Rightarrow> batch_config" where
  "default_config default_requeues default_write =
     \<lparr>batch_size = 100, flush_interval = 5, max_pending = DEFAULT_MAX_PENDING, max_concurrent_flushes = 2,
      min_batch_size = 10, backoff_initial = 1, backoff_max = 30, backoff_multiplier = 2, max_flush_retries = 5,
      max_poison_retries = 5, max_hold_s = Some DEFAULT_MAX_HOLD_S, max_requeues = Some default_requeues,
      max_write_s = Some default_write, prefetch_count = None\<rparr>"

text \<open>\<open>grace\<close> is the shared package's time for a cancelled write to stop.\<close>

definition worst_case_s :: "rat \<Rightarrow> rat \<Rightarrow> batch_config \<Rightarrow> rat" where
  "worst_case_s grace hold c =
     hold + flush_interval c + backoff_max c +
     (case max_write_s c of None \<Rightarrow> 0 | Some w \<Rightarrow> 2 * (w + grace))"

definition post_init :: "rat \<Rightarrow> batch_config \<Rightarrow> py_error + unit" where
  "post_init grace c =
     (if (case prefetch_count c of None \<Rightarrow> False | Some p \<Rightarrow> max_pending c < p * PENDING_PER_PREFETCH) then Inl ValueError
      else case max_hold_s c of
        None \<Rightarrow> Inr ()
      | Some hold \<Rightarrow> if BROKER_CONSUMER_TIMEOUT_S \<le> worst_case_s grace hold c then Inl ValueError else Inr ())"

record batch_policy =
  p_batch_size :: int
  p_flush_interval_s :: rat
  p_max_pending :: int
  p_max_concurrent_flushes :: int
  p_min_batch_size :: int
  p_backoff_initial_s :: rat
  p_backoff_max_s :: rat
  p_backoff_multiplier :: rat
  p_max_drain_retries :: int
  p_max_poison_retries :: int
  p_max_hold_s :: "rat option"
  p_max_requeues :: "int option"
  p_max_write_s :: "rat option"

definition runtime_policy :: "batch_config \<Rightarrow> batch_policy" where
  "runtime_policy c =
     \<lparr>p_batch_size = batch_size c, p_flush_interval_s = flush_interval c, p_max_pending = max_pending c,
      p_max_concurrent_flushes = max_concurrent_flushes c, p_min_batch_size = min (min_batch_size c) (batch_size c),
      p_backoff_initial_s = backoff_initial c, p_backoff_max_s = backoff_max c, p_backoff_multiplier = backoff_multiplier c,
      p_max_drain_retries = max_flush_retries c, p_max_poison_retries = max_poison_retries c,
      p_max_hold_s = max_hold_s c, p_max_requeues = max_requeues c, p_max_write_s = max_write_s c\<rparr>"

text \<open>\<^verbatim>\<open>NEO4J_BATCH_SIZE\<close>, read again by the processor; what does not parse or is not positive is ignored.\<close>

definition apply_batch_size_override :: "pystr option \<Rightarrow> batch_config \<Rightarrow> batch_config" where
  "apply_batch_size_override env c =
     (case env of
        None \<Rightarrow> c
      | Some value \<Rightarrow>
          (case py_int value of
             Inl _ \<Rightarrow> c
           | Inr n \<Rightarrow> if n \<le> 0 then c else c\<lparr>batch_size := n, min_batch_size := min (min_batch_size c) n\<rparr>))"

section \<open>The service's choice\<close>

definition channel_prefetch :: "bool \<Rightarrow> int \<Rightarrow> int" where
  "channel_prefetch batch_mode sz = (if batch_mode then max 200 (sz * 2) else 200)"

text \<open>What \<^verbatim>\<open>main\<close> passes in batch mode, from the variables it read.\<close>

definition service_config :: "int \<Rightarrow> rat \<Rightarrow> rat \<Rightarrow> int \<Rightarrow> rat \<Rightarrow> batch_config" where
  "service_config sz interval hold requeues write_s =
     (default_config requeues write_s)
       \<lparr>batch_size := sz, flush_interval := interval, max_hold_s := Some hold,
        max_pending := max DEFAULT_MAX_PENDING (PENDING_PER_PREFETCH * channel_prefetch True sz),
        prefetch_count := Some (channel_prefetch True sz)\<rparr>"

section \<open>Draining one queue\<close>

text \<open>
  \<open>engine n\<close> is what the engine's \<open>n\<close>-th flush reports. The result: whether the queue
  drained, and the pauses in order.
\<close>

fun drain_attempts :: "batch_config \<Rightarrow> (nat \<Rightarrow> bool) \<Rightarrow> nat \<Rightarrow> nat \<Rightarrow> bool \<times> rat list" where
  "drain_attempts c engine attempt 0 = (False, [])"
| "drain_attempts c engine attempt (Suc left) =
     (if engine attempt then (True, [])
      else case drain_attempts c engine (Suc attempt) left of
        (ok, pauses) \<Rightarrow>
          (ok, (if left = 0 then [] else [min (backoff_max c) (backoff_initial c * backoff_multiplier c ^ (attempt - 1))]) @ pauses))"

definition flush_queue :: "batch_config \<Rightarrow> (nat \<Rightarrow> bool) \<Rightarrow> bool \<times> rat list" where
  "flush_queue c engine = drain_attempts c engine 1 (nat (max_flush_retries c))"

section \<open>Settlement callbacks and failures\<close>

text \<open>A held delivery: whether it may go back to the broker. The result is the callback called.\<close>

datatype callback = AckCallback | NackCallback | RequeueCallback

definition pending_nack :: "bool \<Rightarrow> bool \<Rightarrow> py_error + callback" where
  "pending_nack has_requeue requeue =
     (if requeue then if has_requeue then Inr RequeueCallback else Inl ValueError else Inr NackCallback)"

text \<open>The classes of the driver and of the connection wrapper, and everything else.\<close>

datatype write_failure = ServiceUnavailable | SessionExpired | TransientError | DatabaseUnavailableError | OtherFailure

datatype failure_kind = TRANSIENT | DETERMINISTIC

definition classify :: "write_failure \<Rightarrow> failure_kind" where
  "classify e =
     (if e \<in> {ServiceUnavailable, SessionExpired, TransientError, DatabaseUnavailableError} then TRANSIENT else DETERMINISTIC)"

section \<open>Bounds\<close>

lemma drain_pauses:
  "length (snd (drain_attempts c engine a left)) \<le> left - 1 \<and>
   (\<forall>p \<in> set (snd (drain_attempts c engine a left)). p \<le> backoff_max c)"
proof (induction left arbitrary: a)
  case (Suc left)
  obtain ok ps where r: "drain_attempts c engine (Suc a) left = (ok, ps)" by fastforce
  from Suc [of "Suc a"] r have "length ps \<le> left - 1" "\<forall>p \<in> set ps. p \<le> backoff_max c" by simp_all
  with r show ?case by (cases left) auto
qed simp

lemma drain_result: "fst (drain_attempts c engine a left) = (\<exists>i < left. engine (a + i))"
proof (induction left arbitrary: a)
  case (Suc left)
  have "(\<exists>i < Suc left. engine (a + i)) = (engine a \<or> (\<exists>i < left. engine (Suc a + i)))"
    by (auto simp: less_Suc_eq_0_disj)
  with Suc [of "Suc a"] show ?case by (auto split: prod.splits)
qed simp

lemma sum_list_le_bound: "(\<forall>p \<in> set ps. p \<le> (b::rat)) \<Longrightarrow> sum_list ps \<le> of_nat (length ps) * b"
  by (induction ps) (auto simp: algebra_simps)

text \<open>
  C32. A configuration that is accepted lets the hold act before the broker gives up: the time a
  delivery can be held, with the gap between flushes, the longest backoff and two writes that
  are cancelled, is below the broker's consumer timeout; and the engine can hold four
  prefetches. The policy the engine gets carries these very values, also after the override.
\<close>

theorem accepted_config_bounded:
  assumes "post_init grace c = Inr ()" and "c' = apply_batch_size_override env c"
    and "p_max_hold_s (runtime_policy c') = Some hold"
  shows "hold + p_flush_interval_s (runtime_policy c') + p_backoff_max_s (runtime_policy c') +
      (case p_max_write_s (runtime_policy c') of None \<Rightarrow> 0 | Some w \<Rightarrow> 2 * (w + grace)) < 1800 \<and>
    (\<forall>p. prefetch_count c = Some p \<longrightarrow> 4 * p \<le> p_max_pending (runtime_policy c')) \<and>
    p_min_batch_size (runtime_policy c') \<le> p_batch_size (runtime_policy c')"
  using assms
  by (auto simp: post_init_def runtime_policy_def apply_batch_size_override_def worst_case_s_def
      BROKER_CONSUMER_TIMEOUT_S_def PENDING_PER_PREFETCH_def split: if_splits option.splits sum.splits)

lemma accepted_config_bounded_witness:
  "post_init 10 (service_config 400 5 1500 20 60) = Inr () \<and>
   (1500::rat) + 5 + 30 + 2 * (60 + 10) < 1800 \<and>
   4 * 800 \<le> p_max_pending (runtime_policy (apply_batch_size_override (Some (lit ''400'')) (service_config 400 5 1500 20 60)))"
proof -
  have ok: "post_init 10 (service_config 400 5 1500 20 60) = Inr ()"
    by (simp add: post_init_def service_config_def default_config_def worst_case_s_def channel_prefetch_def
        BROKER_CONSUMER_TIMEOUT_S_def PENDING_PER_PREFETCH_def DEFAULT_MAX_PENDING_def)
  have hold: "p_max_hold_s (runtime_policy (apply_batch_size_override (Some (lit ''400'')) (service_config 400 5 1500 20 60))) = Some 1500"
    by (simp add: runtime_policy_def apply_batch_size_override_def service_config_def split: sum.splits)
  from accepted_config_bounded [OF ok refl hold] ok show ?thesis
    by (simp add: service_config_def channel_prefetch_def)
qed

text \<open>
  The capacity the service chooses is always accepted: whatever the batch size, the only
  ground on which its configuration is refused is the broker's timeout.
\<close>

theorem service_config_accepted:
  "post_init grace (service_config sz interval hold requeues write_s) =
     (if hold + interval + 30 + 2 * (write_s + grace) < 1800 then Inr () else Inl ValueError)"
  by (simp add: post_init_def service_config_def default_config_def worst_case_s_def
      BROKER_CONSUMER_TIMEOUT_S_def PENDING_PER_PREFETCH_def add.assoc max_def)

text \<open>
  Draining a queue before a marker takes at most the configured number of flushes, reports
  success exactly when one of them drained it, and pauses for at most \<open>n - 1\<close> times the longest
  backoff.
\<close>

theorem drain_bounded:
  assumes "0 \<le> backoff_max c" and "max_flush_retries c = int (Suc n)"
  shows "fst (flush_queue c engine) = (\<exists>i < Suc n. engine (Suc i)) \<and>
    length (snd (flush_queue c engine)) \<le> n \<and> sum_list (snd (flush_queue c engine)) \<le> of_nat n * backoff_max c"
proof -
  have n: "nat (max_flush_retries c) = Suc n" using assms(2) by simp
  have p: "length (snd (flush_queue c engine)) \<le> n" "\<forall>p \<in> set (snd (flush_queue c engine)). p \<le> backoff_max c"
    using drain_pauses [of c engine 1 "Suc n"] unfolding flush_queue_def n by simp_all
  have "sum_list (snd (flush_queue c engine)) \<le> of_nat (length (snd (flush_queue c engine))) * backoff_max c"
    using sum_list_le_bound [OF p(2)] .
  also have "\<dots> \<le> of_nat n * backoff_max c" using p(1) assms(1) by (simp add: mult_right_mono)
  finally show ?thesis using p(1) drain_result [of c engine 1 "Suc n"] unfolding flush_queue_def n by simp
qed

lemma drain_bounded_witness:
  "fst (flush_queue (service_config 100 5 1500 20 60) (\<lambda>n. n = 3)) \<and>
   sum_list (snd (flush_queue (service_config 100 5 1500 20 60) (\<lambda>n. n = 3))) \<le> 120"
proof -
  have c: "backoff_max (service_config 100 5 1500 20 60) = 30" "max_flush_retries (service_config 100 5 1500 20 60) = int (Suc 4)"
    by (simp_all add: service_config_def default_config_def)
  have "\<exists>i < Suc 4. Suc i = 3" by (rule exI [of _ 2]) simp
  with drain_bounded [of "service_config 100 5 1500 20 60" 4 "\<lambda>n. n = 3"] c show ?thesis by simp
qed

text \<open>
  A size of zero or below is announced to be replaced by a default, but the service has put the
  same variable into the configuration already, so it stays.
\<close>

lemma invalid_size_kept:
  assumes "py_int value = Inr n" and "n \<le> 0"
  shows "post_init grace (service_config n 5 1500 20 60) = post_init grace (service_config 100 5 1500 20 60) \<and>
    p_batch_size (runtime_policy (apply_batch_size_override (Some value) (service_config n 5 1500 20 60))) = n"
  using assms by (simp add: service_config_accepted apply_batch_size_override_def runtime_policy_def)
    (simp add: service_config_def)

end
