(* ===== verification/Configuration.thy ===== *)
theory Configuration
  imports PyText
begin

text \<open>
  \<^verbatim>\<open>graphinator/config.py\<close>: the configuration read from the environment. The URL builders and
  the lookup of a secret are the shared package's; what they return is part of the environment.
\<close>

section \<open>Environment\<close>

record environment =
  env_neo4j_host :: "pystr option"
  env_username :: "pystr option"
  env_password :: "pystr option"
  env_health_port :: "pystr option"
  env_amqp_url :: "py_error + pystr"
  env_neo4j_uri :: "py_error + pystr"

record graphinator_config =
  amqp_connection :: pystr
  neo4j_host :: pystr
  neo4j_username :: pystr
  neo4j_password :: pystr
  health_port :: int

datatype config_error = MissingVariables "string list" | BuilderError py_error | InvalidHealthPort

definition DEFAULT_HEALTH_PORT :: int where "DEFAULT_HEALTH_PORT = 8001"

definition health_port_from_env :: "pystr option \<Rightarrow> config_error + int" where
  "health_port_from_env raw =
     (case raw of
        None \<Rightarrow> Inr DEFAULT_HEALTH_PORT
      | Some text \<Rightarrow>
          (case py_int (py_strip text) of
             Inl _ \<Rightarrow> Inl InvalidHealthPort
           | Inr port \<Rightarrow> if \<not> (1 \<le> port \<and> port \<le> 65535) then Inl InvalidHealthPort else Inr port))"

definition missing :: "pystr option \<Rightarrow> bool" where
  "missing v \<longleftrightarrow> v = None \<or> v = Some []"

definition missing_vars :: "environment \<Rightarrow> string list" where
  "missing_vars env =
     map fst (filter (\<lambda>x. missing (snd x))
       [(''NEO4J_HOST'', env_neo4j_host env), (''NEO4J_USERNAME'', env_username env), (''NEO4J_PASSWORD'', env_password env)])"

definition from_env :: "environment \<Rightarrow> config_error + graphinator_config" where
  "from_env env =
     (if missing_vars env \<noteq> [] then Inl (MissingVariables (missing_vars env))
      else case env_amqp_url env of
        Inl e \<Rightarrow> Inl (BuilderError e)
      | Inr amqp \<Rightarrow>
          (case env_neo4j_uri env of
             Inl e \<Rightarrow> Inl (BuilderError e)
           | Inr uri \<Rightarrow>
               (case health_port_from_env (env_health_port env) of
                  Inl e \<Rightarrow> Inl e
                | Inr port \<Rightarrow>
                    Inr \<lparr>amqp_connection = amqp, neo4j_host = uri, neo4j_username = the (env_username env),
                         neo4j_password = the (env_password env), health_port = port\<rparr>)))"

section \<open>What is accepted\<close>

lemma missing_vars_Nil: "missing_vars env = [] \<longleftrightarrow> \<not> missing (env_neo4j_host env) \<and> \<not> missing (env_username env) \<and> \<not> missing (env_password env)"
  by (auto simp: missing_vars_def)

text \<open>
  An accepted configuration has credentials that are not empty and a port that can be
  bound; a rejected one names exactly the variables that are missing, or the port.
\<close>

theorem config_checked:
  "case from_env env of
     Inr c \<Rightarrow> neo4j_username c \<noteq> [] \<and> neo4j_password c \<noteq> [] \<and> 1 \<le> health_port c \<and> health_port c \<le> 65535 \<and>
       env_amqp_url env = Inr (amqp_connection c) \<and> env_neo4j_uri env = Inr (neo4j_host c)
   | Inl (MissingVariables vs) \<Rightarrow> vs \<noteq> [] \<and> set vs =
       {v. v = ''NEO4J_HOST'' \<and> missing (env_neo4j_host env) \<or> v = ''NEO4J_USERNAME'' \<and> missing (env_username env) \<or>
           v = ''NEO4J_PASSWORD'' \<and> missing (env_password env)}
   | Inl InvalidHealthPort \<Rightarrow> \<exists>t. env_health_port env = Some t \<and> (\<nexists>p. 1 \<le> p \<and> p \<le> 65535 \<and> py_int (py_strip t) = Inr p)
   | Inl (BuilderError e) \<Rightarrow> env_amqp_url env = Inl e \<or> env_neo4j_uri env = Inl e"
proof (cases "missing_vars env = []")
  case False
  have "set (missing_vars env) =
    {v. v = ''NEO4J_HOST'' \<and> missing (env_neo4j_host env) \<or> v = ''NEO4J_USERNAME'' \<and> missing (env_username env) \<or>
        v = ''NEO4J_PASSWORD'' \<and> missing (env_password env)}"
    by (auto simp: missing_vars_def)
  with False show ?thesis by (simp add: from_env_def)
next
  case True
  then have "\<not> missing (env_username env)" "\<not> missing (env_password env)" by (simp_all add: missing_vars_Nil)
  then obtain u p where "env_username env = Some u" "env_password env = Some p" "u \<noteq> []" "p \<noteq> []"
    by (auto simp: missing_def)
  with True show ?thesis
    by (auto simp: from_env_def health_port_from_env_def DEFAULT_HEALTH_PORT_def split: sum.splits option.splits)
qed

end
