(* ===== verification/ServiceRun.thy ===== *)
theory ServiceRun
  imports MessageHandler BatchSettings Configuration
begin

text \<open>
  The life of the process, \<^verbatim>\<open>main\<close> and \<^verbatim>\<open>cli\<close> of \<^verbatim>\<open>graphinator/graphinator.py\<close>: configuration,
  the connections, the topology on the broker, the consumers, the progress reports, the stop
  and the exit code. What waits, logs and binds sockets is left out.
\<close>

section \<open>The topology\<close>

text \<open>Exchanges, classic queues, quorum queues with dead-letter exchange and delivery limit, bindings of a queue to an exchange.\<close>

datatype broker_object =
    Exchange pystr
  | ClassicQueue pystr
  | QuorumQueue pystr pystr nat
  | Binding pystr pystr

definition DELIVERY_LIMIT :: nat where "DELIVERY_LIMIT = 20"
definition CONSUMER :: pystr where "CONSUMER = lit ''graphinator''"

definition declare_type :: "pystr \<Rightarrow> pystr \<Rightarrow> py_error + broker_object list" where
  "declare_type prefix dt =
     bindE (exchange_name prefix dt) (\<lambda>exchange.
       bindE (queue_name prefix CONSUMER dt) (\<lambda>queue.
         bindE (dead_letter_exchange_name prefix CONSUMER dt) (\<lambda>dlx.
           bindE (dead_letter_queue_name prefix CONSUMER dt) (\<lambda>dlq.
             Inr [Exchange exchange, Exchange dlx, ClassicQueue dlq, Binding dlq dlx,
                  QuorumQueue queue dlx DELIVERY_LIMIT, Binding queue exchange]))))"

fun topology :: "pystr \<Rightarrow> pystr list \<Rightarrow> py_error + broker_object list" where
  "topology prefix [] = Inr []"
| "topology prefix (dt # dts) =
     bindE (declare_type prefix dt) (\<lambda>ds. bindE (topology prefix dts) (\<lambda>rest. Inr (ds @ rest)))"

text \<open>
  C34. The start and every recovery declare one and the same sound topology: it is always
  defined, it has the declarations the recovery counts, each queue's rejected messages go to a
  declared exchange to which exactly one declared queue is bound, and no two types share one.
\<close>

theorem topology_sound:
  "case topology prefix DATA_TYPES of
     Inl _ \<Rightarrow> False
   | Inr ds \<Rightarrow>
       length ds = DECLARATIONS * length DATA_TYPES \<and> distinct ds \<and>
       list_all (\<lambda>d. case d of
           QuorumQueue q dlx n \<Rightarrow> n = 20 \<and> Exchange dlx \<in> set ds \<and>
             length (filter (\<lambda>b. case b of Binding x e \<Rightarrow> e = dlx | _ \<Rightarrow> False) ds) = 1 \<and>
             list_ex (\<lambda>b. case b of Binding x e \<Rightarrow> e = dlx \<and> ClassicQueue x \<in> set ds | _ \<Rightarrow> False) ds \<and>
             length (filter (\<lambda>b. case b of QuorumQueue _ e _ \<Rightarrow> e = dlx | _ \<Rightarrow> False) ds) = 1
         | _ \<Rightarrow> True) ds"
  by (simp add: DATA_TYPES_def ENTITY_TYPES_def declare_type_def exchange_name_def queue_name_def CONSUMER_def CONSUMERS_def
      dead_letter_exchange_name_def dead_letter_queue_name_def DECLARATIONS_def DELIVERY_LIMIT_def lit_append [symmetric])

section \<open>Connecting\<close>

text \<open>
  The attempts to reach the broker: \<open>stop n\<close> and \<open>answers n\<close> say whether a stop was requested
  and whether the broker answers at attempt \<open>n\<close>. With the pauses in seconds.
\<close>

datatype connecting = Connected | Exhausted | StopRequested

definition MAX_STARTUP_RETRIES :: nat where "MAX_STARTUP_RETRIES = 5"

function connect_from :: "(nat \<Rightarrow> bool) \<Rightarrow> (nat \<Rightarrow> bool) \<Rightarrow> nat \<Rightarrow> connecting \<times> nat list" where
  "connect_from stop answers n =
     (if MAX_STARTUP_RETRIES \<le> n then (Exhausted, [])
      else if stop n then (StopRequested, [])
      else if answers n then (Connected, [])
      else if Suc n < MAX_STARTUP_RETRIES
        then (case connect_from stop answers (Suc n) of (r, ws) \<Rightarrow> (r, min 30 (5 * Suc n) # ws))
      else (Exhausted, []))"
  by pat_completeness auto
termination by (relation "measure (\<lambda>(_, _, n). MAX_STARTUP_RETRIES - n)") auto

declare connect_from.simps [simp del]

section \<open>Starting\<close>

text \<open>
  The outside at start: the environment, whether the database answers, the batch mode and its
  variables, the package's grace for cancelled writes, the broker.
\<close>

record outside =
  ow_env :: environment
  ow_database_up :: bool
  ow_batch_mode :: bool
  ow_batch :: batch_config
  ow_grace :: rat
  ow_stop :: "nat \<Rightarrow> bool"
  ow_answers :: "nat \<Rightarrow> bool"
  ow_rpcs :: "rpc list"
  ow_prefix :: pystr

datatype start_result = GaveUp string | StoppedEarly | Crashed | Up lifecycle

text \<open>A consumer for every type; unlike a recovery this counts no message time.\<close>

fun consume_all :: "pystr list \<Rightarrow> lifecycle \<Rightarrow> bool \<times> lifecycle" where
  "consume_all [] s = (True, s)"
| "consume_all (dt # dts) s =
     (case next_rpc s of (r, s1) \<Rightarrow>
        if r \<noteq> Answered then (False, s1)
        else consume_all dts ((set_tags (tags s1 @ [(dt, consumer_tag dt)]) s1)
               \<lparr>gauge := gauge s1 + 1, subscribed := insert (dt, consumer_tag dt) (subscribed s1)\<rparr>))"

text \<open>The process before it has a connection: no consumer, no queue handle, nothing counted.\<close>

definition unconnected :: "service \<Rightarrow> lifecycle" where
  "unconnected v =
     \<lparr>sv = v\<lparr>consumer_tags := [], queue_handles := {}\<rparr>, connection = False, channel = False,
      recovery_requested = False, shutdown_requested = False, idle_mode = False, message_counts = (\<lambda>_. 0),
      last_message_time = (\<lambda>_. 0), gauge = 0, subscribed = {}, rpcs = []\<rparr>"

definition start_consuming :: "pystr \<Rightarrow> lifecycle \<Rightarrow> start_result" where
  "start_consuming prefix s =
     (case topology prefix DATA_TYPES of
        Inl _ \<Rightarrow> Crashed
      | Inr ds \<Rightarrow>
          (case calls (2 + length ds) s of
             (False, _) \<Rightarrow> Crashed
           | (True, s1) \<Rightarrow>
               (case consume_all DATA_TYPES (on_service (\<lambda>v. v\<lparr>queue_handles := set DATA_TYPES\<rparr>) (s1\<lparr>channel := True\<rparr>)) of
                  (False, _) \<Rightarrow> Crashed
                | (True, s2) \<Rightarrow> Up s2)))"

definition start_service :: "outside \<Rightarrow> service \<Rightarrow> start_result" where
  "start_service w v =
     (case from_env (ow_env w) of
        Inl (BuilderError e) \<Rightarrow> if e = ValueError then GaveUp ''configuration error'' else Crashed
      | Inl _ \<Rightarrow> GaveUp ''configuration error''
      | Inr _ \<Rightarrow>
          if \<not> ow_database_up w \<or> ow_batch_mode w \<and> post_init (ow_grace w) (ow_batch w) \<noteq> Inr ()
          then GaveUp ''Neo4j connection failed''
          else
            (case fst (connect_from (ow_stop w) (ow_answers w) 0) of
               Exhausted \<Rightarrow> GaveUp ''AMQP connection failed''
             | StopRequested \<Rightarrow> StoppedEarly
             | Connected \<Rightarrow> start_consuming (ow_prefix w) ((unconnected v)\<lparr>connection := True, rpcs := ow_rpcs w\<rparr>)))"

section \<open>Progress reports\<close>

record report =
  rp_total :: nat
  rp_stalled :: "pystr list"
  rp_slow :: "pystr list"
  rp_cancelled :: "pystr list"
  rp_active :: "pystr list"

datatype progress = Quiet | EnteredIdle | LeftIdle | IdleReminder | Reported report

definition total_messages :: "lifecycle \<Rightarrow> nat" where
  "total_messages s = sum_list (map (message_counts s) DATA_TYPES)"

definition make_report :: "rat \<Rightarrow> lifecycle \<Rightarrow> report" where
  "make_report now s =
     (let times = last_message_time s; live = filter (\<lambda>dt. 0 < times dt) DATA_TYPES in
      \<lparr>rp_total = total_messages s,
       rp_stalled = filter (\<lambda>dt. dt \<notin> completed_files (sv s) \<and> 0 < times dt \<and> 120 < now - times dt) DATA_TYPES,
       rp_slow = (if total_messages s = 0 \<or> list_all (\<lambda>dt. now - times dt < 5) live then []
                  else filter (\<lambda>dt. 5 < now - times dt \<and> now - times dt < 120) live),
       rp_cancelled = filter (\<lambda>dt. \<not> has_tag s dt \<and> dt \<in> completed_files (sv s)) DATA_TYPES,
       rp_active = map fst (tags s)\<rparr>)"

text \<open>One round after its sleep, with the times the reporter keeps itself.\<close>

definition progress_round ::
  "rat \<Rightarrow> rat \<Rightarrow> rat \<Rightarrow> rat \<Rightarrow> rat \<times> lifecycle \<Rightarrow> progress \<times> rat \<times> lifecycle" where
  "progress_round idle_timeout log_interval startup_time now ls =
     (case ls of (last_log, s) \<Rightarrow>
        if card (completed_files (sv s)) = length DATA_TYPES then (Quiet, last_log, s)
        else if \<not> idle_mode s \<and> total_messages s = 0 \<and> idle_timeout \<le> now - startup_time
          then (EnteredIdle, now, s\<lparr>idle_mode := True\<rparr>)
        else if idle_mode s then
          if 0 < total_messages s then (LeftIdle, last_log, s\<lparr>idle_mode := False\<rparr>)
          else if log_interval \<le> now - last_log then (IdleReminder, now, s)
          else (Quiet, last_log, s)
        else (Reported (make_report now s), last_log, s))"

section \<open>Stopping\<close>

definition signal_handler :: "lifecycle \<Rightarrow> lifecycle" where
  "signal_handler s = s\<lparr>shutdown_requested := True\<rparr>"

text \<open>
  The stop, in order: consumers, then the batch engine's last flush on the graph, the detached
  maintenance, the connection. A flush that fails leaves the graph to a redelivery.
\<close>

definition cancel_maintenance :: "service \<Rightarrow> service" where
  "cancel_maintenance v =
     (let stop = map_option (\<lambda>t. t\<lparr>task_state := Finished\<rparr>)
      in v\<lparr>maintenance_task := stop (maintenance_task v), refresh_task := stop (refresh_task v)\<rparr>)"

definition stop_service :: "(graph \<Rightarrow> py_error + graph) \<Rightarrow> lifecycle \<times> graph \<Rightarrow> lifecycle \<times> graph" where
  "stop_service last_flush sg =
     (case sg of (s, g) \<Rightarrow>
        let s1 = cancel_all_consumers s;
            g1 = (case last_flush g of Inl _ \<Rightarrow> g | Inr g' \<Rightarrow> g');
            s2 = on_service cancel_maintenance s1
        in (snd (close_rabbitmq_connection s2), g1))"

definition exit_code :: "start_result \<Rightarrow> nat" where
  "exit_code r = (case r of GaveUp _ \<Rightarrow> 1 | Crashed \<Rightarrow> 1 | StoppedEarly \<Rightarrow> 0 | Up _ \<Rightarrow> 0)"

section \<open>Start and stop\<close>

lemma connect_bounded:
  "length (snd (connect_from stop answers n)) \<le> 4 - n"
proof (induction n rule: measure_induct_rule [of "\<lambda>n. 5 - n"])
  case (less n)
  show ?case
  proof (cases "n < 4 \<and> \<not> stop n \<and> \<not> answers n")
    case True
    obtain r ws where c: "connect_from stop answers (Suc n) = (r, ws)" by fastforce
    have "5 - Suc n < 5 - n" using True by arith
    from less [OF this] c have "length ws \<le> 4 - Suc n" by simp
    with True c show ?thesis by (subst connect_from.simps) (auto simp: MAX_STARTUP_RETRIES_def)
  next
    case False
    then show ?thesis by (subst connect_from.simps) (auto simp: MAX_STARTUP_RETRIES_def)
  qed
qed

lemma connects:
  assumes "answers n" and "n < 5" and "\<forall>m \<le> n. \<not> stop m" and "k \<le> n"
  shows "fst (connect_from stop answers k) = Connected"
  using assms(4)
proof (induction k rule: measure_induct_rule [of "\<lambda>k. n - k"])
  case (less k)
  show ?case
  proof (cases "answers k")
    case True
    with less.prems assms(2,3) show ?thesis by (subst connect_from.simps) (simp add: MAX_STARTUP_RETRIES_def)
  next
    case False
    with less.prems assms(1) have "Suc k \<le> n" by (metis Suc_leI le_neq_implies_less)
    with less have "fst (connect_from stop answers (Suc k)) = Connected" by simp
    with False less.prems assms(2,3) \<open>Suc k \<le> n\<close> show ?thesis
      by (subst connect_from.simps, cases "connect_from stop answers (Suc k)") (simp add: MAX_STARTUP_RETRIES_def)
  qed
qed

lemma consume_all_effect:
  assumes "consume_all dts s = (ok, s')"
  shows "(ok \<longrightarrow> (\<exists>rs. s' = (set_tags (tags s @ map (\<lambda>dt. (dt, consumer_tag dt)) dts) s)
      \<lparr>gauge := gauge s + int (length dts), subscribed := subscribed s \<union> set (map (\<lambda>dt. (dt, consumer_tag dt)) dts), rpcs := rs\<rparr>)) \<and>
    (rpcs s = [] \<longrightarrow> ok)"
  using assms
proof (induction dts arbitrary: s)
  case Nil
  then have "s' = (set_tags (tags s) s)\<lparr>gauge := gauge s, subscribed := subscribed s, rpcs := rpcs s\<rparr>"
    by (cases s) (simp add: set_tags_def on_service_def)
  with Nil show ?case by auto
next
  case (Cons dt dts)
  obtain r s1 where n: "next_rpc s = (r, s1)" by fastforce
  from next_rpc_same [OF n] obtain rs1 where s1: "s1 = s\<lparr>rpcs := rs1\<rparr>" by blast
  have q: "rpcs s = [] \<Longrightarrow> r = Answered \<and> rs1 = []" using n s1 by (auto simp: next_rpc_def dest: arg_cong [of _ _ rpcs])
  show ?case
  proof (cases "r = Answered")
    case False
    with Cons.prems n q show ?thesis by auto
  next
    case True
    let ?s2 = "(set_tags (tags s1 @ [(dt, consumer_tag dt)]) s1)
       \<lparr>gauge := gauge s1 + 1, subscribed := insert (dt, consumer_tag dt) (subscribed s1)\<rparr>"
    have run: "consume_all dts ?s2 = (ok, s')" using Cons.prems n True by simp
    note IH = Cons.IH [OF run]
    have "rpcs ?s2 = rs1" by (simp add: s1 set_tags_def)
    with IH q have quiet: "rpcs s = [] \<longrightarrow> ok" by simp
    have "ok \<longrightarrow> (\<exists>rs. s' = (set_tags (tags s @ map (\<lambda>dt. (dt, consumer_tag dt)) (dt # dts)) s)
      \<lparr>gauge := gauge s + int (length (dt # dts)), subscribed := subscribed s \<union> set (map (\<lambda>dt. (dt, consumer_tag dt)) (dt # dts)), rpcs := rs\<rparr>)"
    proof
      assume "ok"
      with IH obtain rs where s': "s' = (set_tags (tags ?s2 @ map (\<lambda>dt. (dt, consumer_tag dt)) dts) ?s2)
        \<lparr>gauge := gauge ?s2 + int (length dts), subscribed := subscribed ?s2 \<union> set (map (\<lambda>dt. (dt, consumer_tag dt)) dts), rpcs := rs\<rparr>" by blast
      have "s' = (set_tags (tags s @ map (\<lambda>dt. (dt, consumer_tag dt)) (dt # dts)) s)
      \<lparr>gauge := gauge s + int (length (dt # dts)), subscribed := subscribed s \<union> set (map (\<lambda>dt. (dt, consumer_tag dt)) (dt # dts)), rpcs := rs\<rparr>"
        unfolding s' by (cases s) (simp add: s1 set_tags_def on_service_def)
      then show "\<exists>rs. s' = (set_tags (tags s @ map (\<lambda>dt. (dt, consumer_tag dt)) (dt # dts)) s)
      \<lparr>gauge := gauge s + int (length (dt # dts)), subscribed := subscribed s \<union> set (map (\<lambda>dt. (dt, consumer_tag dt)) (dt # dts)), rpcs := rs\<rparr>" ..
    qed
    with quiet show ?thesis by blast
  qed
qed

lemma topology_defined: "\<exists>ds. topology prefix DATA_TYPES = Inr ds"
  by (simp add: DATA_TYPES_def ENTITY_TYPES_def declare_type_def exchange_name_def queue_name_def CONSUMER_def CONSUMERS_def
      dead_letter_exchange_name_def dead_letter_queue_name_def)

text \<open>A start that comes up is in the state the invariants of the consumers start from.\<close>

lemma start_consuming_effect:
  assumes "s = (unconnected v)\<lparr>connection := True, rpcs := rs\<rparr>"
  shows "start_consuming prefix s = Up s' \<Longrightarrow> \<exists>rs. s' = (started v)\<lparr>rpcs := rs\<rparr>"
    and "rs = [] \<Longrightarrow> \<exists>s'. start_consuming prefix s = Up s'"
proof -
  obtain ds where t: "topology prefix DATA_TYPES = Inr ds" using topology_defined by blast
  obtain a s1 where c1: "calls (2 + length ds) s = (a, s1)" by fastforce
  from calls_same [OF c1] obtain rs1 where s1: "s1 = s\<lparr>rpcs := rs1\<rparr>" by blast
  let ?s2 = "on_service (\<lambda>v. v\<lparr>queue_handles := set DATA_TYPES\<rparr>) (s1\<lparr>channel := True\<rparr>)"
  obtain b s3 where c2: "consume_all DATA_TYPES ?s2 = (b, s3)" by fastforce
  note e = consume_all_effect [OF c2]
  show "start_consuming prefix s = Up s' \<Longrightarrow> \<exists>rs. s' = (started v)\<lparr>rpcs := rs\<rparr>"
  proof -
    assume "start_consuming prefix s = Up s'"
    then have "b" "s' = s3" using t c1 c2 by (auto simp: start_consuming_def simp del: calls.simps split: bool.splits)
    with e obtain rs2 where "s' = (set_tags (tags ?s2 @ map (\<lambda>dt. (dt, consumer_tag dt)) DATA_TYPES) ?s2)
      \<lparr>gauge := gauge ?s2 + int (length DATA_TYPES), subscribed := subscribed ?s2 \<union> set (map (\<lambda>dt. (dt, consumer_tag dt)) DATA_TYPES), rpcs := rs2\<rparr>"
      by blast
    then have "s' = (started v)\<lparr>rpcs := rs2\<rparr>"
      unfolding s1 assms by (simp add: unconnected_def started_def set_tags_def on_service_def)
    then show ?thesis ..
  qed
  assume "rs = []"
  then have "rpcs s = []" using assms by simp
  from calls_answered [OF this] c1 have "a" "s1 = s" by (metis prod.inject)+
  then have "rpcs ?s2 = []" using \<open>rpcs s = []\<close> by simp
  with e have "b" by blast
  with t c1 c2 \<open>a\<close> show "\<exists>s'. start_consuming prefix s = Up s'" by (simp add: start_consuming_def del: calls.simps)
qed

lemma start_reachable: "start_service w v = Up s \<Longrightarrow> \<exists>rs. s = (started v)\<lparr>rpcs := rs\<rparr>"
  using start_consuming_effect(1) [OF refl]
  by (auto simp: start_service_def split: sum.splits config_error.splits if_splits connecting.splits)

text \<open>
  C30. With a valid configuration, a database that answers and a broker that answers at one of
  the five attempts, before any stop was requested, the service comes up with a consumer for
  every type, in a state every invariant of the consumers holds from, after at most four pauses.
\<close>

theorem service_starts:
  assumes "from_env (ow_env w) = Inr c" and "ow_database_up w"
    and "\<not> (ow_batch_mode w \<and> post_init (ow_grace w) (ow_batch w) \<noteq> Inr ())"
    and "ow_answers w n" and "n < 5" and "\<forall>m \<le> n. \<not> ow_stop w m" and "ow_rpcs w = []"
  shows "\<exists>s. start_service w v = Up s \<and> reachable s \<and> map fst (tags s) = DATA_TYPES \<and> fst ` subscribed s = set DATA_TYPES \<and>
    length (snd (connect_from (ow_stop w) (ow_answers w) 0)) \<le> 4"
proof -
  have "fst (connect_from (ow_stop w) (ow_answers w) 0) = Connected" using connects [where answers = "ow_answers w", OF assms(4-6)] by simp
  then have run: "start_service w v = start_consuming (ow_prefix w) ((unconnected v)\<lparr>connection := True, rpcs := ow_rpcs w\<rparr>)"
    using assms(1-3) by (cases "ow_batch_mode w") (simp_all add: start_service_def)
  from start_consuming_effect(2) [OF refl assms(7)] obtain s where s: "start_service w v = Up s" using run by metis
  from start_reachable [OF this] obtain rs where st: "s = (started v)\<lparr>rpcs := rs\<rparr>" by blast
  have "reachable s" unfolding st by (rule reachable.step [OF reachable.start life_step.broker])
  with s st connect_bounded [of "ow_stop w" "ow_answers w" 0] show ?thesis by (force simp: started_def comp_def)
qed

definition demo_env :: environment where
  "demo_env = \<lparr>env_neo4j_host = Some (lit ''neo4j''), env_username = Some (lit ''u''), env_password = Some (lit ''p''),
     env_health_port = None, env_amqp_url = Inr (lit ''amqp://b''), env_neo4j_uri = Inr (lit ''bolt://d'')\<rparr>"

definition demo_outside :: outside where
  "demo_outside = \<lparr>ow_env = demo_env, ow_database_up = True, ow_batch_mode = True, ow_batch = service_config 100 5 1500 20 60,
     ow_grace = 10, ow_stop = (\<lambda>n. n = 4), ow_answers = (\<lambda>n. n = 2), ow_rpcs = [], ow_prefix = lit ''discogs''\<rparr>"

lemma service_starts_witness:
  "\<exists>s. start_service demo_outside (fresh_service []) = Up s \<and> fst ` subscribed s = set DATA_TYPES"
proof -
  have env: "from_env (ow_env demo_outside) = Inr \<lparr>amqp_connection = lit ''amqp://b'', neo4j_host = lit ''bolt://d'',
      neo4j_username = lit ''u'', neo4j_password = lit ''p'', health_port = 8001\<rparr>"
    by (simp add: demo_outside_def demo_env_def from_env_def missing_vars_def missing_def health_port_from_env_def DEFAULT_HEALTH_PORT_def)
  have batch: "\<not> (ow_batch_mode demo_outside \<and> post_init (ow_grace demo_outside) (ow_batch demo_outside) \<noteq> Inr ())"
    by (simp add: demo_outside_def service_config_accepted)
  from service_starts [OF env _ batch, of 2 "fresh_service []"] show ?thesis by (auto simp: demo_outside_def)
qed

lemma cancel_each_quiet: "rpcs s = [] \<Longrightarrow> rpcs (cancel_each ts s) = []"
proof (induction ts arbitrary: s)
  case (Cons t ts)
  obtain dt tag where t: "t = (dt, tag)" by (cases t)
  have "rpcs (snd (cancel_consumer dt tag q s)) = []" for q
    using Cons.prems by (simp add: cancel_consumer_def next_rpc_def Let_def set_tags_def)
  from Cons.IH [OF this] show ?case by (simp add: t)
qed simp

lemma close_quiet: "rpcs s = [] \<Longrightarrow> \<not> fst (close_rabbitmq_connection s)"
  by (auto simp: close_rabbitmq_connection_def close_channel_def close_transport_def next_rpc_def Let_def split: prod.splits)

text \<open>A stop from any state whose tags are true, with a broker that answers.\<close>

lemma stop_quiet:
  assumes "tracked s" and "rpcs s = []"
  shows "\<not> connection (fst (stop_service last_flush (s, g))) \<and> tags (fst (stop_service last_flush (s, g))) = [] \<and>
    subscribed (fst (stop_service last_flush (s, g))) = {} \<and> gauge (fst (stop_service last_flush (s, g))) = 0 \<and>
    snd (stop_service last_flush (s, g)) = (case last_flush g of Inl _ \<Rightarrow> g | Inr g' \<Rightarrow> g')"
proof -
  let ?s1 = "on_service cancel_maintenance (cancel_all_consumers s)"
  have "tracked (cancel_all_consumers s)"
    using assms(1) by (simp add: cancel_all_consumers_def tracked_cancel_each)
  then have t: "tracked ?s1" by (simp add: tracked_def cancel_maintenance_def Let_def)
  have q: "rpcs ?s1 = []" using assms(2) by (simp add: cancel_all_consumers_def cancel_each_quiet)
  obtain a s2 where c: "close_rabbitmq_connection ?s1 = (a, s2)" by fastforce
  with close_quiet [OF q] have "\<not> a" by simp
  have "tracked s2" by (rule tracked_close(1) [OF t c]) (use \<open>\<not> a\<close> in blast)
  moreover have "\<not> connection s2" using tracked_close(4) [OF t c _ q] \<open>\<not> a\<close> by blast
  ultimately have "\<not> connection s2" "tags s2 = []" "subscribed s2 = {}" "gauge s2 = 0" by (auto simp: tracked_def)
  with c show ?thesis by (simp add: stop_service_def Let_def)
qed

text \<open>
  A stop with a broker that answers leaves nothing behind: whatever state the service was
  in, also with a recovery pending, every subscription is gone, the gauge is back at zero, no
  tag and no connection remain; a last flush that fails leaves the graph alone.
\<close>

theorem service_stops:
  assumes "reachable s" and "rpcs s = []"
  shows "\<not> connection (fst (stop_service last_flush (s, g))) \<and> tags (fst (stop_service last_flush (s, g))) = [] \<and>
    subscribed (fst (stop_service last_flush (s, g))) = {} \<and> gauge (fst (stop_service last_flush (s, g))) = 0 \<and>
    snd (stop_service last_flush (s, g)) = (case last_flush g of Inl _ \<Rightarrow> g | Inr g' \<Rightarrow> g')"
  using stop_quiet [OF reachable_tracked [OF assms(1)] assms(2)] .

lemma service_stops_witness:
  "gauge (fst (stop_service Inr (artists_timer [TimedOut True], empty_graph))) = 0 \<and>
   subscribed (fst (stop_service Inr (artists_timer [TimedOut True], empty_graph))) = {}"
  using service_stops [OF artists_timer_reachable [of "[TimedOut True]"] artists_timer_lost(2), of Inr empty_graph] by simp

end
