(* ===== verification/GraphCleanup.thy ===== *)
theory GraphCleanup
  imports PropertyGraph References CatalogNames
begin

text \<open>
  The cleanups of \<^verbatim>\<open>graphinator/graphinator.py\<close> after an import: nodes a reference created and no
  record ever filled, and the master the "no master" sentinel once produced. Each is a query
  in chunks that commit one by one; an attempt that fails midway has deleted some of its rows.
\<close>

section \<open>Retried queries\<close>

text \<open>
  How an attempt of a query ends: every chunk committed; a transient error, or another error,
  after the chunks of the rows that the predicate selects were committed.
\<close>

datatype 'r query_end = Completed | Transient "'r \<Rightarrow> bool" | Broken "'r \<Rightarrow> bool"

definition MAINTENANCE_MIN_BATCH_SIZE :: int where "MAINTENANCE_MIN_BATCH_SIZE = 50"
definition MAINTENANCE_MAX_ATTEMPTS :: nat where "MAINTENANCE_MAX_ATTEMPTS = 4"
definition STUB_CLEANUP_BATCH_SIZE :: int where "STUB_CLEANUP_BATCH_SIZE = 1000"

text \<open>
  \<^verbatim>\<open>_run_maintenance_query\<close>: \<open>rows\<close> is the driving match, \<open>apply\<close> the subquery over the rows it is
  given, \<open>world\<close> how each attempt ends at its batch size. \<open>Some True\<close> stands for the summary
  of a completed query, \<open>Some False\<close> for \<^verbatim>\<open>None\<close>, \<open>None\<close> for an error that propagates.
\<close>

fun query_attempts :: "nat \<Rightarrow> nat \<Rightarrow> int option \<Rightarrow> (graph \<Rightarrow> 'r \<Rightarrow> bool) \<Rightarrow> (('r \<Rightarrow> bool) \<Rightarrow> graph \<Rightarrow> graph) \<Rightarrow>
    (nat \<Rightarrow> int option \<Rightarrow> 'r query_end) \<Rightarrow> graph \<Rightarrow> bool option \<times> graph" where
  "query_attempts 0 attempt batch rows apply world g = (Some False, g)"
| "query_attempts (Suc n) attempt batch rows apply world g =
     (case world attempt batch of
        Completed \<Rightarrow> (Some True, apply (rows g) g)
      | Broken done \<Rightarrow> (None, apply (\<lambda>r. rows g r \<and> done r) g)
      | Transient done \<Rightarrow>
          (let g' = apply (\<lambda>r. rows g r \<and> done r) g in
           if attempt = MAINTENANCE_MAX_ATTEMPTS then (Some False, g')
           else query_attempts n (attempt + 1)
                  (map_option (\<lambda>b. max MAINTENANCE_MIN_BATCH_SIZE (b div 2)) batch) rows apply world g'))"

definition run_maintenance_query :: "int option \<Rightarrow> (graph \<Rightarrow> 'r \<Rightarrow> bool) \<Rightarrow> (('r \<Rightarrow> bool) \<Rightarrow> graph \<Rightarrow> graph) \<Rightarrow>
    (nat \<Rightarrow> int option \<Rightarrow> 'r query_end) \<Rightarrow> graph \<Rightarrow> bool option \<times> graph" where
  "run_maintenance_query batch rows apply world g = query_attempts MAINTENANCE_MAX_ATTEMPTS 1 batch rows apply world g"

section \<open>Stubs\<close>

text \<open>\<^verbatim>\<open>DETACH DELETE\<close>: the nodes go, and every edge at them.\<close>

definition touches :: "(node \<Rightarrow> bool) \<Rightarrow> edge \<Rightarrow> bool" where
  "touches P e \<longleftrightarrow> P (e_src e) \<or> P (e_dst e)"

definition detach_delete :: "(node \<Rightarrow> bool) \<Rightarrow> graph \<Rightarrow> graph" where
  "detach_delete P g =
     (let g' = delete_edges (touches P) g in
      g'\<lparr>nodes := Set.filter (\<lambda>n. \<not> P n) (nodes g'), nprop := (\<lambda>n. if P n then (\<lambda>_. PNone) else nprop g' n)\<rparr>)"

definition isolated_stub :: "nlabel \<Rightarrow> graph \<Rightarrow> node \<Rightarrow> bool" where
  "isolated_stub lb g n \<longleftrightarrow> n \<in> nodes g \<and> fst n = lb \<and> nprop g n ''sha256'' = PNone \<and>
     (\<forall>e \<in> edges g. touches (\<lambda>m. m = n) e \<longrightarrow> e_rel e = HAS_STYLE)"

definition label_map :: "pystr \<rightharpoonup> nlabel" where
  "label_map = [lit ''artists'' \<mapsto> Artist, lit ''labels'' \<mapsto> Label, lit ''masters'' \<mapsto> Master, lit ''releases'' \<mapsto> Release]"

definition cleanup_stub_nodes :: "(nat \<Rightarrow> int option \<Rightarrow> node query_end) \<Rightarrow> pystr \<Rightarrow> graph \<Rightarrow> bool \<times> graph" where
  "cleanup_stub_nodes world dt g =
     (case label_map dt of
        None \<Rightarrow> (True, g)
      | Some lb \<Rightarrow>
          (case run_maintenance_query (Some STUB_CLEANUP_BATCH_SIZE) (isolated_stub lb) detach_delete world g of
             (Some True, g') \<Rightarrow> (True, g')
           | (_, g') \<Rightarrow> (False, g')))"

fun cleanup_types :: "(pystr \<Rightarrow> nat \<Rightarrow> int option \<Rightarrow> node query_end) \<Rightarrow> pystr list \<Rightarrow> graph \<Rightarrow> bool \<times> graph" where
  "cleanup_types world [] g = (True, g)"
| "cleanup_types world (dt # dts) g =
     (case cleanup_stub_nodes (world dt) dt g of (ok, g1) \<Rightarrow>
      case cleanup_types world dts g1 of (ok', g2) \<Rightarrow> (ok \<and> ok', g2))"

definition cleanup_all_stub_nodes :: "(pystr \<Rightarrow> nat \<Rightarrow> int option \<Rightarrow> node query_end) \<Rightarrow> graph \<Rightarrow> bool \<times> graph" where
  "cleanup_all_stub_nodes world g = cleanup_types world DATA_TYPES g"

section \<open>The sentinel master\<close>

definition sentinel_node :: node where
  "sentinel_node = (Master, PStr NO_MASTER_ID)"

definition cleanup_sentinel_master ::
  "(nat \<Rightarrow> int option \<Rightarrow> edge query_end) \<Rightarrow> (nat \<Rightarrow> int option \<Rightarrow> node query_end) \<Rightarrow> graph \<Rightarrow> bool \<times> graph" where
  "cleanup_sentinel_master edge_world node_world g =
     (case run_maintenance_query (Some STUB_CLEANUP_BATCH_SIZE)
             (\<lambda>g e. e \<in> edges g \<and> touches (\<lambda>n. n = sentinel_node) e) delete_edges edge_world g of
        (Some True, g1) \<Rightarrow>
          (case run_maintenance_query None (\<lambda>g n. n \<in> nodes g \<and> n = sentinel_node) detach_delete node_world g1 of
             (Some True, g2) \<Rightarrow> (True, g2)
           | (_, g2) \<Rightarrow> (False, g2))
      | (_, g1) \<Rightarrow> (False, g1))"

section \<open>Deleting stubs piecemeal\<close>

lemma detach_delete_parts [simp]:
  "nodes (detach_delete P g) = {n \<in> nodes g. \<not> P n}"
  "edges (detach_delete P g) = {e \<in> edges g. \<not> touches P e}"
  "nprop (detach_delete P g) = (\<lambda>n. if P n then (\<lambda>_. PNone) else nprop g n)"
  "eprop (detach_delete P g) = (\<lambda>e. if touches P e then (\<lambda>_. PNone) else eprop g e)"
  by (auto simp: detach_delete_def Let_def delete_edges_def)

lemma touches_or: "touches P e \<or> touches Q e \<longleftrightarrow> touches (\<lambda>n. P n \<or> Q n) e"
  by (auto simp: touches_def)

lemma detach_delete_twice: "detach_delete Q (detach_delete P g) = detach_delete (\<lambda>n. P n \<or> Q n) g"
  by (rule graph.equality) (auto simp: touches_or [symmetric])

lemma graph_wf_detach_delete: "graph_wf g \<Longrightarrow> graph_wf (detach_delete P g)"
  by (auto simp: graph_wf_def touches_def)

text \<open>
  Deleting some isolated stubs, of whatever label, leaves every other node exactly as isolated
  as it was: only derived edges go with a stub.
\<close>

lemma isolated_after:
  assumes "\<And>n. P n \<Longrightarrow> n \<in> nodes g \<Longrightarrow> \<exists>lb. isolated_stub lb g n"
    and "\<forall>e \<in> edges g. e_src e \<in> nodes g \<and> e_dst e \<in> nodes g"
  shows "isolated_stub lb (detach_delete P g) n \<longleftrightarrow> isolated_stub lb g n \<and> \<not> P n"
proof -
  have "e_rel e = HAS_STYLE" if "e \<in> edges g" "touches P e" for e
  proof -
    from that(2) obtain m where m: "P m" "m = e_src e \<or> m = e_dst e" unfolding touches_def by blast
    with assms(2) that(1) have "m \<in> nodes g" by auto
    with assms(1) [OF m(1)] obtain lb' where "isolated_stub lb' g m" by blast
    with m(2) that(1) show ?thesis by (auto simp: isolated_stub_def touches_def)
  qed
  then show ?thesis by (auto simp: isolated_stub_def)
qed

definition closed :: "graph \<Rightarrow> bool" where
  "closed g \<longleftrightarrow> (\<forall>e \<in> edges g. e_src e \<in> nodes g \<and> e_dst e \<in> nodes g)"

lemma closed_wf: "graph_wf g \<Longrightarrow> closed g"
  by (simp add: closed_def graph_wf_def)

lemma closed_detach_delete: "closed g \<Longrightarrow> closed (detach_delete P g)"
  by (auto simp: closed_def touches_def)

text \<open>What every run of these cleanups does: it deletes a set of isolated stubs.\<close>

definition collects :: "nlabel set \<Rightarrow> graph \<Rightarrow> bool \<Rightarrow> graph \<Rightarrow> bool" where
  "collects L g whole g' \<longleftrightarrow> (\<exists>P. g' = detach_delete P g \<and>
     (\<forall>n. P n \<longrightarrow> (\<exists>lb \<in> L. isolated_stub lb g n)) \<and>
     (whole \<longrightarrow> (\<forall>lb \<in> L. \<forall>n. isolated_stub lb g n \<longrightarrow> P n)))"

lemma collects_one: "(\<And>n. P n \<Longrightarrow> isolated_stub lb g n) \<Longrightarrow> (c \<Longrightarrow> P = isolated_stub lb g) \<Longrightarrow>
    collects {lb} g c (detach_delete P g)"
  unfolding collects_def by blast

lemma collects_none: "\<not> c \<or> L = {} \<Longrightarrow> collects L g c g"
  unfolding collects_def by (rule exI [of _ "\<lambda>_. False"]) (auto simp: detach_delete_def delete_edges_def touches_def)

lemma collects_trans:
  assumes "closed g" and "collects L g c g1" and "collects M g1 d g2"
  shows "collects (L \<union> M) g (c \<and> d) g2 \<and> (d \<and> L \<subseteq> M \<longrightarrow> collects (L \<union> M) g True g2)"
proof -
  from assms(2) obtain P where P: "g1 = detach_delete P g" "\<And>n. P n \<Longrightarrow> \<exists>lb \<in> L. isolated_stub lb g n"
    "c \<Longrightarrow> \<forall>lb \<in> L. \<forall>n. isolated_stub lb g n \<longrightarrow> P n" unfolding collects_def by blast
  from assms(3) obtain Q where Q: "g2 = detach_delete Q g1" "\<And>n. Q n \<Longrightarrow> \<exists>lb \<in> M. isolated_stub lb g1 n"
    "d \<Longrightarrow> \<forall>lb \<in> M. \<forall>n. isolated_stub lb g1 n \<longrightarrow> Q n" unfolding collects_def by blast
  have iso: "isolated_stub lb g1 n \<longleftrightarrow> isolated_stub lb g n \<and> \<not> P n" for lb n
    using isolated_after [of P g lb n] P(1,2) assms(1) unfolding closed_def by blast
  have g2: "g2 = detach_delete (\<lambda>n. P n \<or> Q n) g" using P(1) Q(1) detach_delete_twice by simp
  have "\<forall>n. P n \<or> Q n \<longrightarrow> (\<exists>lb \<in> L \<union> M. isolated_stub lb g n)" using P(2) Q(2) iso by blast
  moreover have "c \<and> d \<Longrightarrow> \<forall>lb \<in> L \<union> M. \<forall>n. isolated_stub lb g n \<longrightarrow> P n \<or> Q n" using P(3) Q(3) iso by blast
  moreover have "d \<and> L \<subseteq> M \<Longrightarrow> \<forall>lb \<in> L \<union> M. \<forall>n. isolated_stub lb g n \<longrightarrow> P n \<or> Q n" using Q(3) iso by blast
  ultimately show ?thesis unfolding collects_def using g2 by blast
qed

lemma collects_closed: "closed g \<Longrightarrow> collects L g c g' \<Longrightarrow> closed g'"
  unfolding collects_def using closed_detach_delete by blast

lemma attempts_collect:
  assumes "closed g" and "query_attempts n k b (isolated_stub lb) detach_delete world g = (r, g')"
  shows "collects {lb} g (r = Some True) g'"
  using assms
proof (induction n arbitrary: k b g)
  case (Suc n)
  show ?case
  proof (cases "world k b")
    case Completed
    with Suc.prems(2) have g': "g' = detach_delete (isolated_stub lb g) g" by simp
    show ?thesis unfolding g' by (rule collects_one) simp_all
  next
    case (Broken d)
    with Suc.prems(2) have r: "r = None" and g': "g' = detach_delete (\<lambda>n. isolated_stub lb g n \<and> d n) g" by simp_all
    show ?thesis unfolding g' r by (rule collects_one) simp_all
  next
    case (Transient d)
    let ?g1 = "detach_delete (\<lambda>n. isolated_stub lb g n \<and> d n) g"
    have one: "collects {lb} g False ?g1" by (rule collects_one) simp_all
    show ?thesis
    proof (cases "k = MAINTENANCE_MAX_ATTEMPTS")
      case True
      with Transient Suc.prems(2) one show ?thesis by (auto simp: Let_def)
    next
      case False
      with Transient Suc.prems(2) have rest: "query_attempts n (k + 1)
          (map_option (\<lambda>b. max MAINTENANCE_MIN_BATCH_SIZE (b div 2)) b) (isolated_stub lb) detach_delete world ?g1 = (r, g')"
        by (simp add: Let_def)
      from collects_trans [OF Suc.prems(1) one Suc.IH [OF closed_detach_delete [OF Suc.prems(1)] rest]]
      show ?thesis by (cases "r = Some True") simp_all
    qed
  qed
qed (auto intro: collects_none)

lemma cleanup_collects:
  assumes "closed g" and "cleanup_stub_nodes world dt g = (ok, g')"
  shows "collects (set_option (label_map dt)) g ok g'"
proof (cases "label_map dt")
  case None
  with assms(2) show ?thesis by (simp add: cleanup_stub_nodes_def collects_none)
next
  case (Some lb)
  obtain r g1 where q: "run_maintenance_query (Some STUB_CLEANUP_BATCH_SIZE) (isolated_stub lb) detach_delete world g = (r, g1)"
    by fastforce
  from attempts_collect [OF assms(1) q [unfolded run_maintenance_query_def]] have "collects {lb} g (r = Some True) g1" .
  with assms(2) Some q show ?thesis
    by (auto simp: cleanup_stub_nodes_def split: option.splits bool.splits)
qed

lemma types_collect:
  assumes "closed g" and "cleanup_types world dts g = (ok, g')"
  shows "collects (\<Union>dt \<in> set dts. set_option (label_map dt)) g ok g'"
  using assms
proof (induction dts arbitrary: g ok)
  case (Cons dt dts)
  obtain ok1 g1 where one: "cleanup_stub_nodes (world dt) dt g = (ok1, g1)" by fastforce
  obtain ok2 where rest: "cleanup_types world dts g1 = (ok2, g')" and ok: "ok = (ok1 \<and> ok2)"
    using Cons.prems(2) one by (auto split: prod.splits)
  note c1 = cleanup_collects [OF Cons.prems(1) one]
  from collects_trans [OF Cons.prems(1) c1 Cons.IH [OF collects_closed [OF Cons.prems(1) c1] rest]] ok
  show ?case by simp
qed (simp add: collects_none)

section \<open>Properties\<close>

definition entity_labels :: "nlabel set" where
  "entity_labels = {Artist, Label, Master, Release}"

lemma all_types: "(\<Union>dt \<in> set DATA_TYPES. set_option (label_map dt)) = entity_labels"
  by (auto simp: DATA_TYPES_def ENTITY_TYPES_def label_map_def entity_labels_def)

lemma stub_cleanup_effect:
  assumes "graph_wf g" and "cleanup_all_stub_nodes world g = (ok, g')"
  shows "nodes g' \<subseteq> nodes g \<and> graph_wf g' \<and>
    (\<forall>n \<in> nodes g - nodes g'. \<exists>lb \<in> entity_labels. isolated_stub lb g n) \<and>
    {e \<in> edges g. e_rel e \<noteq> HAS_STYLE} = {e \<in> edges g'. e_rel e \<noteq> HAS_STYLE} \<and>
    (\<forall>n \<in> nodes g'. nprop g' n = nprop g n) \<and>
    (ok \<longrightarrow> (\<forall>lb \<in> entity_labels. \<forall>n. \<not> isolated_stub lb g' n))"
proof -
  note cl = closed_wf [OF assms(1)]
  have "collects entity_labels g ok g'"
    using types_collect [OF cl assms(2) [unfolded cleanup_all_stub_nodes_def]] by (simp only: all_types)
  then obtain P where P: "g' = detach_delete P g" "\<And>n. P n \<Longrightarrow> \<exists>lb \<in> entity_labels. isolated_stub lb g n"
    "ok \<Longrightarrow> \<forall>lb \<in> entity_labels. \<forall>n. isolated_stub lb g n \<longrightarrow> P n" unfolding collects_def by blast
  have "e_rel e = HAS_STYLE" if "e \<in> edges g" "touches P e" for e
  proof -
    from that(2) obtain m where "P m" "m = e_src e \<or> m = e_dst e" unfolding touches_def by blast
    with P(2) that(1) show ?thesis by (fastforce simp: isolated_stub_def touches_def)
  qed
  then have "{e \<in> edges g. e_rel e \<noteq> HAS_STYLE} = {e \<in> edges g'. e_rel e \<noteq> HAS_STYLE}" using P(1) by auto
  moreover have "\<not> isolated_stub lb g' n" if "ok" "lb \<in> entity_labels" for lb n
    using isolated_after [of P g lb n] P that cl unfolding closed_def by blast
  moreover have "\<forall>n \<in> nodes g - nodes g'. \<exists>lb \<in> entity_labels. isolated_stub lb g n"
    using P(1,2) by auto
  ultimately show ?thesis
    using P(1) graph_wf_detach_delete [OF assms(1), of P] by auto
qed

text \<open>
  C28. The stub cleanup deletes isolated stubs and nothing else: whatever attempts fail and
  wherever they stop, a node it removes carries no hash and no edge but derived ones, every
  asserted edge stays, nodes that stay keep their properties, and the graph keeps its schema.
  When it reports success, no isolated stub of any entity is left.
\<close>

theorem stub_cleanup_exact:
  assumes "graph_wf g" and "cleanup_all_stub_nodes world g = (ok, g')"
  shows "nodes g' \<subseteq> nodes g \<and> graph_wf g' \<and>
    (\<forall>n \<in> nodes g - nodes g'. fst n \<in> {Artist, Label, Master, Release} \<and> nprop g n ''sha256'' = PNone \<and>
       {e \<in> edges g. (e_src e = n \<or> e_dst e = n) \<and> e_rel e \<noteq> HAS_STYLE} = {}) \<and>
    {e \<in> edges g. e_rel e \<noteq> HAS_STYLE} = {e \<in> edges g'. e_rel e \<noteq> HAS_STYLE} \<and>
    (\<forall>n \<in> nodes g'. nprop g' n = nprop g n) \<and>
    (ok \<longrightarrow> (\<forall>n \<in> nodes g'. fst n \<in> {Artist, Label, Master, Release} \<and> nprop g' n ''sha256'' = PNone \<longrightarrow>
       (\<exists>e \<in> edges g'. (e_src e = n \<or> e_dst e = n) \<and> e_rel e \<noteq> HAS_STYLE)))"
proof -
  note e = stub_cleanup_effect [OF assms]
  have gone: "fst n \<in> {Artist, Label, Master, Release} \<and> nprop g n ''sha256'' = PNone \<and>
      {e \<in> edges g. (e_src e = n \<or> e_dst e = n) \<and> e_rel e \<noteq> HAS_STYLE} = {}" if "n \<in> nodes g - nodes g'" for n
  proof -
    from e that obtain lb where "lb \<in> entity_labels" "isolated_stub lb g n" by blast
    then show ?thesis unfolding isolated_stub_def touches_def entity_labels_def by blast
  qed
  have left: "\<exists>e \<in> edges g'. (e_src e = n \<or> e_dst e = n) \<and> e_rel e \<noteq> HAS_STYLE"
    if "ok" "n \<in> nodes g'" "fst n \<in> {Artist, Label, Master, Release}" "nprop g' n ''sha256'' = PNone" for n
  proof -
    from that(3) have "fst n \<in> entity_labels" by (simp add: entity_labels_def)
    with e that(1) have "\<not> isolated_stub (fst n) g' n" by blast
    with that(2,4) show ?thesis unfolding isolated_stub_def touches_def by blast
  qed
  show ?thesis using e gone left by blast
qed

text \<open>An edge-free stub, one that a release refers to, and a record.\<close>

definition stub_graph :: graph where
  "stub_graph = \<lparr>nodes = {(Artist, PInt 1), (Artist, PInt 2), (Release, PInt 3)},
     nprop = (\<lambda>n k. if n = (Release, PInt 3) \<and> k = ''sha256'' then PStr [97] else PNone),
     edges = {plain (Release, PInt 3) BY (Artist, PInt 2)}, eprop = (\<lambda>_ _. PNone)\<rparr>"

text \<open>The first attempt fails before anything is committed.\<close>

definition busy_once :: "pystr \<Rightarrow> nat \<Rightarrow> int option \<Rightarrow> 'r query_end" where
  "busy_once dt k b = (if k = 1 then Transient (\<lambda>_. False) else Completed)"

lemma stub_cleanup_exact_witness:
  "\<exists>g'. cleanup_all_stub_nodes busy_once stub_graph = (True, g') \<and> (Artist, PInt 1) \<notin> nodes g' \<and>
     plain (Release, PInt 3) BY (Artist, PInt 2) \<in> edges g'"
proof -
  obtain ok g' where run: "cleanup_all_stub_nodes busy_once stub_graph = (ok, g')" by fastforce
  have wf: "graph_wf stub_graph" by (auto simp: stub_graph_def graph_wf_def)
  have "\<exists>h. cleanup_stub_nodes (busy_once dt) dt g = (True, h)" for dt g
    by (simp add: cleanup_stub_nodes_def run_maintenance_query_def MAINTENANCE_MAX_ATTEMPTS_def busy_once_def
        numeral_eq_Suc Let_def split: option.split)
  then have "fst (cleanup_types busy_once dts g)" for dts g
  proof (induction dts arbitrary: g)
    case (Cons dt dts)
    from Cons.prems [of dt g] obtain h where "cleanup_stub_nodes (busy_once dt) dt g = (True, h)" by blast
    with Cons.IH [OF Cons.prems, of h] show ?case by (simp split: prod.split)
  qed simp
  then have ok: "fst (cleanup_all_stub_nodes busy_once stub_graph)" by (simp add: cleanup_all_stub_nodes_def)
  have edge: "plain (Release, PInt 3) BY (Artist, PInt 2) \<in> {e \<in> edges stub_graph. e_rel e \<noteq> HAS_STYLE}"
    by (simp add: stub_graph_def)
  note e = stub_cleanup_exact [OF wf run]
  from e have kept: "{e \<in> edges stub_graph. e_rel e \<noteq> HAS_STYLE} = {e \<in> edges g'. e_rel e \<noteq> HAS_STYLE}"
    and same: "\<forall>n \<in> nodes g'. nprop g' n = nprop stub_graph n" by blast+
  have "(Artist, PInt 1) \<notin> nodes g'"
  proof
    assume n: "(Artist, PInt 1) \<in> nodes g'"
    with same have "nprop g' (Artist, PInt 1) ''sha256'' = PNone" by (simp add: stub_graph_def)
    moreover have "ok" using ok run by simp
    ultimately obtain e where "e \<in> edges g'" "e_src e = (Artist, PInt 1) \<or> e_dst e = (Artist, PInt 1)" "e_rel e \<noteq> HAS_STYLE"
      using e n by fastforce
    moreover from this kept have "e \<in> edges stub_graph" by blast
    ultimately show False by (auto simp: stub_graph_def)
  qed
  moreover have "plain (Release, PInt 3) BY (Artist, PInt 2) \<in> edges g'" using edge unfolding kept by blast
  ultimately show ?thesis using ok run by auto
qed

text \<open>A query whose every chunk keeps a preorder keeps it however its attempts end.\<close>

lemma attempts_keep:
  assumes "query_attempts n k b rows apply world g = (r, g')"
    and "\<And>g. R g g" and "\<And>a b c. R a b \<Longrightarrow> R b c \<Longrightarrow> R a c"
    and "\<And>g Q. (\<And>x. Q x \<Longrightarrow> rows g x) \<Longrightarrow> R g (apply Q g)"
  shows "R g g' \<and> (r = Some True \<longrightarrow> (\<exists>h. R g h \<and> g' = apply (rows h) h))"
  using assms(1)
proof (induction n arbitrary: k b g)
  case (Suc n)
  show ?case
  proof (cases "world k b")
    case Completed
    with Suc.prems assms(2,4) show ?thesis by fastforce
  next
    case (Broken d)
    with Suc.prems assms(4) [of "\<lambda>x. rows g x \<and> d x" g] show ?thesis by auto
  next
    case (Transient d)
    let ?g1 = "apply (\<lambda>x. rows g x \<and> d x) g"
    have one: "R g ?g1" by (rule assms(4)) simp
    show ?thesis
    proof (cases "k = MAINTENANCE_MAX_ATTEMPTS")
      case True
      with Transient Suc.prems one show ?thesis by (auto simp: Let_def)
    next
      case False
      with Transient Suc.prems have "query_attempts n (k + 1)
          (map_option (\<lambda>b. max MAINTENANCE_MIN_BATCH_SIZE (b div 2)) b) rows apply world ?g1 = (r, g')"
        by (simp add: Let_def)
      from Suc.IH [OF this] one assms(3) show ?thesis by blast
    qed
  qed
qed (use assms(2) in auto)

text \<open>Only the sentinel and its edges may be affected.\<close>

definition at_sentinel :: "edge \<Rightarrow> bool" where
  "at_sentinel = touches (\<lambda>n. n = sentinel_node)"

definition spares :: "graph \<Rightarrow> graph \<Rightarrow> bool" where
  "spares g g' \<longleftrightarrow> (graph_wf g \<longrightarrow> graph_wf g') \<and> nodes g - {sentinel_node} \<subseteq> nodes g' \<and> nodes g' \<subseteq> nodes g \<and>
     {e \<in> edges g. \<not> at_sentinel e} \<subseteq> edges g' \<and> edges g' \<subseteq> edges g \<and>
     (\<forall>n. n \<noteq> sentinel_node \<longrightarrow> nprop g' n = nprop g n) \<and>
     (\<forall>e. \<not> at_sentinel e \<longrightarrow> eprop g' e = eprop g e)"

lemma spares_refl: "spares g g" and spares_trans: "spares a b \<Longrightarrow> spares b c \<Longrightarrow> spares a c"
  by (auto simp: spares_def)

lemma spares_steps:
  "(\<And>e. Q e \<Longrightarrow> e \<in> edges g \<and> at_sentinel e) \<Longrightarrow> spares g (delete_edges Q g)"
  "(\<And>n. P n \<Longrightarrow> n \<in> nodes g \<and> n = sentinel_node) \<Longrightarrow> spares g (detach_delete P g)"
proof -
  assume Q: "\<And>e. Q e \<Longrightarrow> e \<in> edges g \<and> at_sentinel e"
  have "graph_wf g \<longrightarrow> graph_wf (delete_edges Q g)" by (simp add: graph_wf_delete_edges)
  with Q show "spares g (delete_edges Q g)" by (auto simp: spares_def delete_edges_def)
next
  assume P: "\<And>n. P n \<Longrightarrow> n \<in> nodes g \<and> n = sentinel_node"
  then have "at_sentinel e" if "touches P e" for e using that unfolding at_sentinel_def touches_def by blast
  moreover have "graph_wf g \<longrightarrow> graph_wf (detach_delete P g)" by (simp add: graph_wf_detach_delete)
  ultimately show "spares g (detach_delete P g)" using P unfolding spares_def by (simp, blast)
qed

lemma sentinel_cleanup_outcome:
  assumes "cleanup_sentinel_master edge_world node_world g = (ok, g')"
  shows "spares g g' \<and> (ok \<longrightarrow> sentinel_node \<notin> nodes g' \<and> edges g' = {e \<in> edges g. \<not> at_sentinel e})"
proof -
  let ?erows = "\<lambda>g e. e \<in> edges g \<and> touches (\<lambda>n. n = sentinel_node) e"
  let ?nrows = "\<lambda>g n. n \<in> nodes g \<and> n = sentinel_node"
  obtain r1 g1 where q1: "run_maintenance_query (Some STUB_CLEANUP_BATCH_SIZE) ?erows delete_edges edge_world g = (r1, g1)"
    by fastforce
  have k1: "spares g g1 \<and> (r1 = Some True \<longrightarrow> (\<exists>h. spares g h \<and> g1 = delete_edges (?erows h) h))"
    by (rule attempts_keep [OF q1 [unfolded run_maintenance_query_def]])
      (blast intro: spares_refl spares_trans spares_steps(1) [unfolded at_sentinel_def])+
  obtain r2 g2 where q2: "run_maintenance_query None ?nrows detach_delete node_world g1 = (r2, g2)" by fastforce
  have k2: "spares g1 g2 \<and> (r2 = Some True \<longrightarrow> (\<exists>h. spares g1 h \<and> g2 = detach_delete (?nrows h) h))"
    by (rule attempts_keep [OF q2 [unfolded run_maintenance_query_def]])
      (blast intro: spares_refl spares_trans spares_steps(2))+
  show ?thesis
  proof (cases "r1 = Some True \<and> r2 = Some True")
    case True
    with assms q1 q2 have ok: "ok" "g' = g2" by (simp_all add: cleanup_sentinel_master_def)
    from k1 True obtain h where "spares g h" "g1 = delete_edges (?erows h) h" by blast
    then have e1: "edges g1 = {e \<in> edges g. \<not> at_sentinel e}" by (auto simp: spares_def at_sentinel_def)
    from k2 True obtain h' where h': "spares g1 h'" "g2 = detach_delete (?nrows h') h'" by blast
    then have "sentinel_node \<notin> nodes g2" by auto
    moreover have "edges g2 = {e \<in> edges g. \<not> at_sentinel e}"
      using k2 e1 by (auto simp: spares_def)
    ultimately show ?thesis using ok k1 k2 spares_trans by blast
  next
    case False
    with assms q1 q2 have "\<not> ok" "g' = g1 \<or> g' = g2"
      by (auto simp: cleanup_sentinel_master_def split: option.splits bool.splits)
    with k1 k2 spares_trans show ?thesis by blast
  qed
qed

text \<open>
  The sentinel cleanup, when it reports success, has removed the sentinel master and all
  its edges; however it ends, it touches no other node and no other edge.
\<close>

theorem sentinel_cleanup_exact:
  assumes "cleanup_sentinel_master edge_world node_world g = (ok, g')"
  shows "spares g g' \<and> (ok \<longrightarrow> sentinel_node \<notin> nodes g' \<and> edges g' = {e \<in> edges g. \<not> at_sentinel e})"
  by (rule sentinel_cleanup_outcome [OF assms])

lemma sentinel_cleanup_exact_witness:
  "\<exists>g'. cleanup_sentinel_master (busy_once []) (busy_once [])
     (empty_graph\<lparr>nodes := {sentinel_node, (Release, PInt 1)}, edges := {plain (Release, PInt 1) DERIVED_FROM sentinel_node}\<rparr>) = (True, g') \<and>
     sentinel_node \<notin> nodes g' \<and> (Release, PInt 1) \<in> nodes g'"
proof -
  let ?g = "empty_graph\<lparr>nodes := {sentinel_node, (Release, PInt 1)}, edges := {plain (Release, PInt 1) DERIVED_FROM sentinel_node}\<rparr>"
  obtain ok g' where run: "cleanup_sentinel_master (busy_once []) (busy_once []) ?g = (ok, g')" by fastforce
  moreover have "fst (cleanup_sentinel_master (busy_once []) (busy_once []) ?g)" by code_simp
  ultimately show ?thesis
    using sentinel_cleanup_exact [OF run] by (auto simp: spares_def sentinel_node_def)
qed

end
