(* ===== verification/StatStatements.thy ===== *)
theory StatStatements
  imports PropertyGraph "HOL-Library.List_Lexorder"
begin

text \<open>
  The statements of the statistics sweeps, of \<^verbatim>\<open>graphinator/graphinator.py\<close> and
  \<^verbatim>\<open>graphinator/person_credits.py\<close>: what each writes for one node, as a function of the graph.
  \<^verbatim>\<open>count\<close> of rows is the cardinality of the matched edges, \<^verbatim>\<open>count(DISTINCT t)\<close> that of the nodes.
\<close>

section \<open>Matching\<close>

definition edges_into :: "graph \<Rightarrow> reltype \<Rightarrow> nlabel \<Rightarrow> node \<Rightarrow> edge set" where
  "edges_into g t lb n = Set.filter (\<lambda>e. e_rel e = t \<and> e_dst e = n \<and> fst (e_src e) = lb) (edges g)"

definition sources_into :: "graph \<Rightarrow> reltype \<Rightarrow> nlabel \<Rightarrow> node \<Rightarrow> node set" where
  "sources_into g t lb n = e_src ` edges_into g t lb n"

text \<open>The targets with a label that edges of some types reach from some nodes.\<close>

definition targets_from :: "graph \<Rightarrow> node set \<Rightarrow> reltype set \<Rightarrow> nlabel \<Rightarrow> node set" where
  "targets_from g R ts lb =
     e_dst ` Set.filter (\<lambda>e. e_src e \<in> R \<and> e_rel e \<in> ts \<and> fst (e_dst e) = lb) (edges g)"

text \<open>The rows of \<^verbatim>\<open>(n)<-[:T]-(r:Release)-[:U1|U2]->(t)\<close>, for a given \<^verbatim>\<open>t\<close>.\<close>

definition paths_to :: "graph \<Rightarrow> reltype \<Rightarrow> node \<Rightarrow> reltype set \<Rightarrow> node \<Rightarrow> (edge \<times> edge) set" where
  "paths_to g t n ts target =
     Set.filter (\<lambda>(e, f). e_src e = e_src f) (edges_into g t Release n \<times>
       Set.filter (\<lambda>f. e_rel f \<in> ts \<and> e_dst f = target) (edges g))"

text \<open>\<^verbatim>\<open>FOREACH (_ IN CASE WHEN n.k IS NULL OR n.k <> v THEN [1] ELSE [] END | SET n.k = v)\<close>.\<close>

definition set_if_differs :: "node \<Rightarrow> string \<Rightarrow> pyval \<Rightarrow> graph \<Rightarrow> graph" where
  "set_if_differs n k v g = (if nprop g n k = PNone \<or> nprop g n k \<noteq> v then set_node n [(k, v)] g else g)"

section \<open>Genres and styles\<close>

text \<open>\<^verbatim>\<open>MATCH (n:L {name: $key}) CALL { ... } SET n.p = v, ...\<close>\<close>

definition matched_set :: "node \<Rightarrow> (string \<times> pyval) list \<Rightarrow> graph \<Rightarrow> graph" where
  "matched_set n kvs g = (if n \<in> nodes g then set_node n kvs g else g)"

text \<open>
  The least positive number among the years; a year that is no number does not compare with
  0.
\<close>

definition year_number :: "pyval \<Rightarrow> rat option" where
  "year_number v = (case v of PInt i \<Rightarrow> Some (of_int i) | PFloat q \<Rightarrow> Some q | _ \<Rightarrow> None)"

definition positive_years :: "graph \<Rightarrow> node set \<Rightarrow> rat set" where
  "positive_years g R =
     (\<lambda>r. the (year_number (nprop g r ''year''))) `
       Set.filter (\<lambda>r. case year_number (nprop g r ''year'') of None \<Rightarrow> False | Some q \<Rightarrow> 0 < q) R"

definition number_value :: "rat \<Rightarrow> pyval" where
  "number_value q = (if of_int \<lfloor>q\<rfloor> = q then PInt \<lfloor>q\<rfloor> else PFloat q)"

definition first_year :: "graph \<Rightarrow> node set \<Rightarrow> pyval" where
  "first_year g R = (let ys = positive_years g R in if ys = {} then PNone else number_value (Min ys))"

fun other_taxonomy :: "nlabel \<Rightarrow> nlabel \<times> string" where
  "other_taxonomy Genre = (Style, ''style_count'')"
| "other_taxonomy _ = (Genre, ''genre_count'')"

definition node_release_count :: "nlabel \<Rightarrow> pystr \<Rightarrow> graph \<Rightarrow> graph" where
  "node_release_count lb key g =
     matched_set (lb, PStr key) [(''release_count'', PInt (int (card (edges_into g IS Release (lb, PStr key)))))] g"

definition node_target_counts :: "nlabel \<Rightarrow> pystr \<Rightarrow> graph \<Rightarrow> graph" where
  "node_target_counts lb key g =
     (let R = sources_into g IS Release (lb, PStr key) in
      matched_set (lb, PStr key)
        [(''artist_count'', PInt (int (card (targets_from g R {BY} Artist)))),
         (''label_count'', PInt (int (card (targets_from g R {ON} Label)))),
         (snd (other_taxonomy lb), PInt (int (card (targets_from g R {IS} (fst (other_taxonomy lb))))))] g)"

definition node_first_year :: "nlabel \<Rightarrow> pystr \<Rightarrow> graph \<Rightarrow> graph" where
  "node_first_year lb key g =
     matched_set (lb, PStr key) [(''first_year'', first_year g (sources_into g IS Release (lb, PStr key)))] g"

definition build_node_stat_statements :: "nlabel \<Rightarrow> (pystr \<Rightarrow> graph \<Rightarrow> graph) list" where
  "build_node_stat_statements lb = [node_release_count lb, node_target_counts lb, node_first_year lb]"

section \<open>Labels\<close>

definition label_styles :: "graph \<Rightarrow> node \<Rightarrow> node set" where
  "label_styles g l = targets_from g (sources_into g ON Release l) {BY, IS} Style"

definition style_edge :: "node \<Rightarrow> node \<Rightarrow> edge" where
  "style_edge l s = plain l HAS_STYLE s"

text \<open>Stale edges go, the others are merged and carry the count of their rows.\<close>

definition refresh_styles :: "node \<Rightarrow> graph \<Rightarrow> graph" where
  "refresh_styles l g =
     (let styles = label_styles g l;
          g1 = delete_edges (\<lambda>e. e_src e = l \<and> e_rel e = HAS_STYLE \<and> fst (e_dst e) = Style \<and> e_dst e \<notin> styles) g
      in g1\<lparr>edges := edges g1 \<union> style_edge l ` styles,
            eprop := (\<lambda>e. if e \<in> style_edge l ` styles
                          then (eprop g1 e)(''release_count'' := PInt (int (card (paths_to g ON l {BY, IS} (e_dst e)))))
                          else eprop g1 e)\<rparr>)"

definition label_counts :: "pystr \<Rightarrow> graph \<Rightarrow> graph" where
  "label_counts key g =
     (let l = (Label, PStr key); R = sources_into g ON Release l in
      set_if_differs l ''genre_count'' (PInt (int (card (targets_from g R {BY, IS} Genre))))
        (set_if_differs l ''artist_count'' (PInt (int (card (targets_from g R {BY, IS} Artist))))
        (set_if_differs l ''release_count'' (PInt (int (card R))) g)))"

definition label_stats :: "pystr \<Rightarrow> graph \<Rightarrow> graph" where
  "label_stats key g = refresh_styles (Label, PStr key) (label_counts key g)"

section \<open>Artists\<close>

text \<open>
  The genre on the most rows, the alphabetically first of several; names are texts.
\<close>

definition genre_names :: "graph \<Rightarrow> node set \<Rightarrow> pystr list" where
  "genre_names g R =
     sorted_list_of_set ((\<lambda>n. case snd n of PStr s \<Rightarrow> s | _ \<Rightarrow> []) `
       Set.filter (\<lambda>n. case snd n of PStr s \<Rightarrow> True | _ \<Rightarrow> False) (targets_from g R {ON, IS} Genre))"

fun first_best :: "('a \<Rightarrow> nat) \<Rightarrow> 'a list \<Rightarrow> 'a option" where
  "first_best f [] = None"
| "first_best f (x # xs) =
     (case first_best f xs of None \<Rightarrow> Some x | Some y \<Rightarrow> Some (if f x < f y then y else x))"

definition primary_genre :: "graph \<Rightarrow> node \<Rightarrow> pyval" where
  "primary_genre g a =
     (case first_best (\<lambda>s. card (paths_to g BY a {ON, IS} (Genre, PStr s)))
             (genre_names g (sources_into g BY Release a)) of
        None \<Rightarrow> PNone
      | Some s \<Rightarrow> PStr s)"

definition artist_stats :: "pystr \<Rightarrow> graph \<Rightarrow> graph" where
  "artist_stats key g =
     (let a = (Artist, PStr key); R = sources_into g BY Release a; pg = primary_genre g a;
          g2 = set_if_differs a ''label_count'' (PInt (int (card (targets_from g R {ON, IS} Label))))
                 (set_if_differs a ''release_count'' (PInt (int (card R))) g)
      in if coalesce (nprop g2 a ''primary_genre'') (PStr []) \<noteq> coalesce pg (PStr [])
         then set_node a [(''primary_genre'', pg)] g2 else g2)"

section \<open>Persons\<close>

text \<open>
  The categories are the shared package's; they are names, so a property of the graph's is
  named after each.
\<close>

definition CREDIT_COUNT_PROPERTY :: string where "CREDIT_COUNT_PROPERTY = ''credit_count''"

definition credit_count_property :: "string \<Rightarrow> string" where
  "credit_count_property category = CREDIT_COUNT_PROPERTY @ ''_'' @ category"

definition CREDIT_COUNT_PROPERTIES :: "string list \<Rightarrow> string list" where
  "CREDIT_COUNT_PROPERTIES categories = CREDIT_COUNT_PROPERTY # map credit_count_property categories"

text \<open>
  The guard of the vocabulary: a category goes into statements as a property name, so it has to
  match \<^verbatim>\<open>[a-z][a-z0-9_]*\<close> in full.
\<close>

definition is_lower :: "char \<Rightarrow> bool" where
  "is_lower c \<longleftrightarrow> (97 :: nat) \<le> of_char c \<and> of_char c \<le> (122 :: nat)"

definition is_word :: "char \<Rightarrow> bool" where
  "is_word c \<longleftrightarrow> is_lower c \<or> (48 :: nat) \<le> of_char c \<and> of_char c \<le> (57 :: nat) \<or> c = CHR ''_''"

definition safe_identifier :: "string \<Rightarrow> bool" where
  "safe_identifier s = (case s of [] \<Rightarrow> False | c # cs \<Rightarrow> is_lower c \<and> list_all is_word cs)"

definition check_categories :: "string list \<Rightarrow> py_error + unit" where
  "check_categories categories = (if list_all safe_identifier categories then Inr () else Inl ValueError)"

lemma credit_properties_safe:
  assumes "check_categories categories = Inr ()"
  shows "list_all safe_identifier (CREDIT_COUNT_PROPERTIES categories)"
proof -
  have p: "is_lower (CHR ''c'')" "list_all is_word ''redit_count_''"
    by (simp_all add: is_lower_def is_word_def)
  have "safe_identifier (credit_count_property c)" if "safe_identifier c" for c
    using that p by (auto simp: safe_identifier_def credit_count_property_def CREDIT_COUNT_PROPERTY_def is_word_def split: list.splits)
  with assms p show ?thesis
    by (auto simp: check_categories_def CREDIT_COUNT_PROPERTIES_def CREDIT_COUNT_PROPERTY_def safe_identifier_def list_all_iff split: if_splits)
qed

text \<open>Distinct categories are counted in distinct properties, none of them the total.\<close>

lemma credit_properties_distinct: "distinct categories \<Longrightarrow> distinct (CREDIT_COUNT_PROPERTIES categories)"
  by (auto simp: CREDIT_COUNT_PROPERTIES_def credit_count_property_def CREDIT_COUNT_PROPERTY_def distinct_map inj_on_def)

definition credits_of :: "graph \<Rightarrow> node \<Rightarrow> edge set" where
  "credits_of g p = Set.filter (\<lambda>e. e_src e = p \<and> e_rel e = CREDITED_ON \<and> fst (e_dst e) = Release) (edges g)"

definition category_count :: "graph \<Rightarrow> node \<Rightarrow> string \<Rightarrow> nat" where
  "category_count g p category =
     card (e_dst ` Set.filter (\<lambda>e. eprop g e ''category'' = PStr (lit category)) (credits_of g p))"

definition credit_counts :: "graph \<Rightarrow> string list \<Rightarrow> node \<Rightarrow> (string \<times> pyval) list" where
  "credit_counts g categories p =
     (CREDIT_COUNT_PROPERTY, PInt (int (card (e_dst ` credits_of g p)))) #
     map (\<lambda>c. (credit_count_property c, PInt (int (category_count g p c)))) categories"

definition person_stats :: "string list \<Rightarrow> pystr \<Rightarrow> graph \<Rightarrow> graph" where
  "person_stats categories key g =
     (let p = (Person, PStr key) in
      fold (\<lambda>(k, v). set_if_differs p k v) (credit_counts g categories p) g)"

section \<open>What the statements leave alone\<close>

text \<open>
  The counts are taken over the asserted edges, their categories and the years of releases. No
  statement changes any of these.
\<close>

definition same_base :: "graph \<Rightarrow> graph \<Rightarrow> bool" where
  "same_base g g' \<longleftrightarrow> nodes g' = nodes g \<and>
     (\<forall>e. e_rel e \<noteq> HAS_STYLE \<longrightarrow> (e \<in> edges g' \<longleftrightarrow> e \<in> edges g) \<and> eprop g' e = eprop g e) \<and>
     (\<forall>n. fst n = Release \<longrightarrow> nprop g' n = nprop g n)"

lemma same_base_refl [simp]: "same_base g g" and same_base_trans: "same_base a b \<Longrightarrow> same_base b c \<Longrightarrow> same_base a c"
  by (simp_all add: same_base_def)

lemma same_base_nodes: "same_base g g' \<Longrightarrow> nodes g' = nodes g"
  by (simp add: same_base_def)

lemma same_base_set_node: "same_base g h \<Longrightarrow> fst n \<noteq> Release \<Longrightarrow> same_base g (set_node n kvs h)"
  by (auto simp: same_base_def set_node_def)

lemma same_base_set_if_differs: "same_base g h \<Longrightarrow> fst n \<noteq> Release \<Longrightarrow> same_base g (set_if_differs n k v h)"
  by (simp add: set_if_differs_def same_base_set_node)

lemma same_base_matched_set: "same_base g h \<Longrightarrow> fst n \<noteq> Release \<Longrightarrow> same_base g (matched_set n kvs h)"
  by (simp add: matched_set_def same_base_set_node)

lemma same_base_refresh: "same_base g h \<Longrightarrow> same_base g (refresh_styles l h)"
  by (auto simp: same_base_def refresh_styles_def Let_def delete_edges_def style_edge_def)

lemmas same_base_intros = same_base_refl same_base_set_node same_base_set_if_differs same_base_matched_set same_base_refresh

text \<open>
  The part of a graph the counts read: the asserted edges that no master is at, with their
  properties, and the properties of the releases they start from.
\<close>

definition counted :: "edge \<Rightarrow> bool" where
  "counted e \<longleftrightarrow> e_rel e \<noteq> HAS_STYLE \<and> fst (e_src e) \<noteq> Master \<and> fst (e_dst e) \<noteq> Master"

definition same_counts :: "graph \<Rightarrow> graph \<Rightarrow> bool" where
  "same_counts g g' \<longleftrightarrow>
     (\<forall>e. counted e \<longrightarrow> (e \<in> edges g' \<longleftrightarrow> e \<in> edges g) \<and> (e \<in> edges g \<longrightarrow> eprop g' e = eprop g e \<and>
        (fst (e_src e) = Release \<longrightarrow> nprop g' (e_src e) = nprop g (e_src e))))"

lemma same_base_counts: "same_base g g' \<Longrightarrow> same_counts g g'"
  unfolding same_base_def same_counts_def counted_def by blast

named_theorems base_simps \<open>counts agree on graphs with the same counted edges\<close>

lemma filter_base:
  assumes "same_counts g g'" and "\<And>e. P e \<Longrightarrow> counted e"
  shows "Set.filter P (edges g') = Set.filter P (edges g)"
  using assms unfolding same_counts_def by (simp add: set_eq_iff) metis

lemma edges_into_base [base_simps]:
  assumes "same_counts g g'" and "t \<noteq> HAS_STYLE" and "lb \<noteq> Master" and "fst n \<noteq> Master"
  shows "edges_into g' t lb n = edges_into g t lb n"
  unfolding edges_into_def using assms(2-) by (subst filter_base [OF assms(1)]) (auto simp: counted_def)

lemma sources_into_base [base_simps]:
  "same_counts g g' \<Longrightarrow> t \<noteq> HAS_STYLE \<Longrightarrow> lb \<noteq> Master \<Longrightarrow> fst n \<noteq> Master \<Longrightarrow> sources_into g' t lb n = sources_into g t lb n"
  by (simp add: sources_into_def edges_into_base)

lemma sources_into_label: "m \<in> sources_into g t lb n \<Longrightarrow> fst m = lb"
  by (auto simp: sources_into_def edges_into_def)

lemma targets_from_base [base_simps]:
  assumes "same_counts g g'" and "HAS_STYLE \<notin> ts" and "lb \<noteq> Master"
  shows "targets_from g' (sources_into h t Release n) ts lb = targets_from g (sources_into h t Release n) ts lb"
proof -
  have "Set.filter (\<lambda>e. e_src e \<in> sources_into h t Release n \<and> e_rel e \<in> ts \<and> fst (e_dst e) = lb) (edges g') =
      Set.filter (\<lambda>e. e_src e \<in> sources_into h t Release n \<and> e_rel e \<in> ts \<and> fst (e_dst e) = lb) (edges g)"
  proof (rule filter_base [OF assms(1)])
    fix e assume e: "e_src e \<in> sources_into h t Release n \<and> e_rel e \<in> ts \<and> fst (e_dst e) = lb"
    then have "fst (e_src e) = Release" using sources_into_label by blast
    with e assms(2,3) show "counted e" by (auto simp: counted_def)
  qed
  then show ?thesis by (simp add: targets_from_def)
qed

lemma paths_to_base [base_simps]:
  assumes "same_counts g g'" and "t \<noteq> HAS_STYLE" and "HAS_STYLE \<notin> ts" and "fst n \<noteq> Master" and "fst m \<noteq> Master"
  shows "paths_to g' t n ts m = paths_to g t n ts m"
proof -
  have "(e, f) \<in> paths_to g' t n ts m \<longleftrightarrow> (e, f) \<in> paths_to g t n ts m" for e f
  proof -
    have "counted f" if "e \<in> edges_into g t Release n" "e_src e = e_src f" "e_rel f \<in> ts" "e_dst f = m"
      using that assms(3-) by (auto simp: counted_def edges_into_def)
    then show ?thesis
      using assms edges_into_base [OF assms(1,2) _ assms(4), of Release]
      by (auto simp: paths_to_def same_counts_def)
  qed
  then show ?thesis by auto
qed

lemma label_styles_base [base_simps]: "same_counts g g' \<Longrightarrow> fst l \<noteq> Master \<Longrightarrow> label_styles g' l = label_styles g l"
  by (simp add: label_styles_def base_simps)

lemma primary_genre_base [base_simps]: "same_counts g g' \<Longrightarrow> fst a \<noteq> Master \<Longrightarrow> primary_genre g' a = primary_genre g a"
  by (simp add: primary_genre_def genre_names_def base_simps)

lemma first_year_base [base_simps]:
  assumes "same_counts g g'" and "t \<noteq> HAS_STYLE" and "fst n \<noteq> Master"
  shows "first_year g' (sources_into g t Release n) = first_year g (sources_into g t Release n)"
proof -
  let ?R = "sources_into g t Release n"
  have eq: "nprop g' r = nprop g r" if "r \<in> ?R" for r
  proof -
    from that obtain e where "e \<in> edges g" "e_rel e = t" "e_dst e = n" "fst (e_src e) = Release" "r = e_src e"
      by (auto simp: sources_into_def edges_into_def)
    with assms show ?thesis by (auto simp: same_counts_def counted_def)
  qed
  have "positive_years g' ?R = positive_years g ?R"
    unfolding positive_years_def Set.filter_eq by (rule image_cong) (auto simp: eq)
  then show ?thesis by (simp add: first_year_def)
qed

lemma credits_base [base_simps]:
  assumes "same_counts g g'" and "fst p \<noteq> Master"
  shows "credits_of g' p = credits_of g p" "credit_counts g' cs p = credit_counts g cs p"
proof -
  show c: "credits_of g' p = credits_of g p"
    unfolding credits_of_def using assms(2) by (intro filter_base [OF assms(1)]) (auto simp: counted_def)
  have "eprop g' e = eprop g e" if "e \<in> credits_of g p" for e
    using assms that by (auto simp: credits_of_def same_counts_def counted_def)
  then have "Set.filter (\<lambda>e. eprop g' e ''category'' = PStr (lit k)) (credits_of g p) =
        Set.filter (\<lambda>e. eprop g e ''category'' = PStr (lit k)) (credits_of g p)" for k
    by (auto simp: Set.filter_eq)
  with c have "category_count g' p k = category_count g p k" for k by (simp add: category_count_def)
  with c show "credit_counts g' cs p = credit_counts g cs p" by (simp add: credit_counts_def)
qed

section \<open>What each statement establishes\<close>

lemma nprop_set_if_differs:
  "nprop (set_if_differs n k v g) m j = (if m = n \<and> j = k then v else nprop g m j)"
  by (auto simp: set_if_differs_def nprop_set_node)

lemma set_if_differs_parts [simp]:
  "nodes (set_if_differs n k v g) = nodes g" "edges (set_if_differs n k v g) = edges g"
  "eprop (set_if_differs n k v g) = eprop g"
  by (simp_all add: set_if_differs_def)

lemma refresh_styles_parts [simp]:
  "nodes (refresh_styles l g) = nodes g" "nprop (refresh_styles l g) = nprop g"
  by (simp_all add: refresh_styles_def Let_def)

text \<open>The live counts of a label, an artist, a person, a genre or style.\<close>

definition label_current :: "graph \<Rightarrow> pystr \<Rightarrow> bool" where
  "label_current g key \<longleftrightarrow> (let l = (Label, PStr key); R = sources_into g ON Release l in
     nprop g l ''release_count'' = PInt (int (card R)) \<and>
     nprop g l ''artist_count'' = PInt (int (card (targets_from g R {BY, IS} Artist))) \<and>
     nprop g l ''genre_count'' = PInt (int (card (targets_from g R {BY, IS} Genre))) \<and>
     {e \<in> edges g. e_src e = l \<and> e_rel e = HAS_STYLE \<and> fst (e_dst e) = Style \<and> e_key e = []} = style_edge l ` label_styles g l \<and>
     (\<forall>s \<in> label_styles g l. eprop g (style_edge l s) ''release_count'' = PInt (int (card (paths_to g ON l {BY, IS} s)))))"

definition artist_current :: "graph \<Rightarrow> pystr \<Rightarrow> bool" where
  "artist_current g key \<longleftrightarrow> (let a = (Artist, PStr key); R = sources_into g BY Release a in
     nprop g a ''release_count'' = PInt (int (card R)) \<and>
     nprop g a ''label_count'' = PInt (int (card (targets_from g R {ON, IS} Label))) \<and>
     coalesce (nprop g a ''primary_genre'') (PStr []) = coalesce (primary_genre g a) (PStr []))"

definition person_current :: "string list \<Rightarrow> graph \<Rightarrow> pystr \<Rightarrow> bool" where
  "person_current categories g key \<longleftrightarrow> (let p = (Person, PStr key) in
     \<forall>(k, v) \<in> set (credit_counts g categories p). nprop g p k = v)"

definition node_current :: "nlabel \<Rightarrow> graph \<Rightarrow> pystr \<Rightarrow> bool" where
  "node_current lb g key \<longleftrightarrow> (let n = (lb, PStr key); R = sources_into g IS Release n in
     nprop g n ''release_count'' = PInt (int (card (edges_into g IS Release n))) \<and>
     nprop g n ''artist_count'' = PInt (int (card (targets_from g R {BY} Artist))) \<and>
     nprop g n ''label_count'' = PInt (int (card (targets_from g R {ON} Label))) \<and>
     nprop g n (snd (other_taxonomy lb)) = PInt (int (card (targets_from g R {IS} (fst (other_taxonomy lb))))) \<and>
     nprop g n ''first_year'' = first_year g R)"

text \<open>Labels.\<close>

lemma label_counts_base: "same_base g (label_counts key g)"
  and label_stats_base: "same_base g (label_stats key g)"
  unfolding label_stats_def label_counts_def Let_def by (intro same_base_intros; simp)+

lemma label_stats_props:
  "nprop (label_stats key g) m j =
     (let l = (Label, PStr key); R = sources_into g ON Release l in
      if m \<noteq> l then nprop g m j
      else if j = ''release_count'' then PInt (int (card R))
      else if j = ''artist_count'' then PInt (int (card (targets_from g R {BY, IS} Artist)))
      else if j = ''genre_count'' then PInt (int (card (targets_from g R {BY, IS} Genre)))
      else nprop g m j)"
  by (simp add: label_stats_def label_counts_def Let_def nprop_set_if_differs)

lemma label_counts_edges [simp]: "edges (label_counts key g) = edges g" "eprop (label_counts key g) = eprop g"
  by (simp_all add: label_counts_def Let_def)

lemma refresh_edges:
  "e \<in> edges (refresh_styles l g) \<longleftrightarrow>
     e \<in> edges g \<and> \<not> (e_src e = l \<and> e_rel e = HAS_STYLE \<and> fst (e_dst e) = Style \<and> e_dst e \<notin> label_styles g l) \<or>
     e \<in> style_edge l ` label_styles g l"
  "eprop (refresh_styles l g) (style_edge l s) ''release_count'' =
     (if s \<in> label_styles g l then PInt (int (card (paths_to g ON l {BY, IS} s)))
      else eprop (refresh_styles l g) (style_edge l s) ''release_count'')"
  "e_src e \<noteq> l \<Longrightarrow> eprop (refresh_styles l g) e = eprop g e"
  by (auto simp: refresh_styles_def Let_def delete_edges_def style_edge_def)

lemma label_styles_Style: "s \<in> label_styles g l \<Longrightarrow> fst s = Style"
  by (auto simp: label_styles_def targets_from_def)

lemma style_edge_parts [simp]: "e_src (style_edge l s) = l" "e_rel (style_edge l s) = HAS_STYLE" "e_dst (style_edge l s) = s"
  "e_key (style_edge l s) = []"
  by (simp_all add: style_edge_def)

lemma refreshed_styles:
  "{e \<in> edges (refresh_styles l g). e_src e = l \<and> e_rel e = HAS_STYLE \<and> fst (e_dst e) = Style \<and> e_key e = []}
     = style_edge l ` label_styles g l"
  (is "?A = ?B")
proof (intro set_eqI iffI)
  fix e assume e: "e \<in> ?A"
  then have "e = style_edge l (e_dst e)" by (cases e) (simp add: style_edge_def)
  moreover have "e_dst e \<in> label_styles g l"
  proof (cases "e \<in> style_edge l ` label_styles g l")
    case True
    then obtain s where "s \<in> label_styles g l" "e = style_edge l s" by blast
    then show ?thesis by simp
  next
    case False
    with e refresh_edges(1) [of e l g] show ?thesis by blast
  qed
  ultimately show "e \<in> ?B" by blast
next
  fix e assume "e \<in> ?B"
  then obtain s where s: "s \<in> label_styles g l" "e = style_edge l s" by blast
  then have "e \<in> edges (refresh_styles l g)" unfolding refresh_edges by blast
  with s label_styles_Style [OF s(1)] show "e \<in> ?A" by simp
qed

lemma label_stats_current: "label_current (label_stats key g) key"
proof -
  let ?l = "(Label, PStr key)" and ?g = "label_stats key g"
  note base = same_base_counts [OF label_stats_base [of g key]]
  let ?h = "label_counts key g"
  have h: "?g = refresh_styles ?l ?h" by (simp add: label_stats_def)
  note hb = same_base_counts [OF label_counts_base [of g key]]
  have styles: "label_styles ?g ?l = label_styles ?h ?l" using hb base by (simp add: base_simps)
  have paths: "paths_to ?g ON ?l {BY, IS} s = paths_to ?h ON ?l {BY, IS} s" if "fst s = Style" for s
    using hb base that by (simp add: base_simps)
  have "{e \<in> edges ?g. e_src e = ?l \<and> e_rel e = HAS_STYLE \<and> fst (e_dst e) = Style \<and> e_key e = []}
      = style_edge ?l ` label_styles ?g ?l"
    unfolding styles unfolding h by (rule refreshed_styles)
  moreover have "\<forall>s \<in> label_styles ?g ?l.
      eprop ?g (style_edge ?l s) ''release_count'' = PInt (int (card (paths_to ?g ON ?l {BY, IS} s)))"
  proof
    fix s assume s: "s \<in> label_styles ?g ?l"
    then have "s \<in> label_styles ?h ?l" unfolding styles .
    then have "eprop (refresh_styles ?l ?h) (style_edge ?l s) ''release_count'' = PInt (int (card (paths_to ?h ON ?l {BY, IS} s)))"
      using refresh_edges(2) [of ?l ?h s] by presburger
    then show "eprop ?g (style_edge ?l s) ''release_count'' = PInt (int (card (paths_to ?g ON ?l {BY, IS} s)))"
      unfolding paths [OF label_styles_Style [OF s]] by (simp only: h)
  qed
  ultimately show ?thesis
    using base by (simp add: label_current_def Let_def base_simps label_stats_props)
qed

lemma label_stats_keeps:
  assumes "label_current g t"
  shows "label_current (label_stats key g) t"
proof (cases "t = key")
  case True
  then show ?thesis using label_stats_current by simp
next
  case False
  let ?l = "(Label, PStr key)" and ?t = "(Label, PStr t)" and ?g = "label_stats key g"
  note base = same_base_counts [OF label_stats_base [of g key]]
  have h: "?g = refresh_styles ?l (label_counts key g)" by (simp add: label_stats_def)
  have "e \<in> edges ?g \<longleftrightarrow> e \<in> edges g" if "e_src e = ?t" for e
    using that False unfolding h refresh_edges by auto
  then have "{e \<in> edges ?g. e_src e = ?t \<and> e_rel e = HAS_STYLE \<and> fst (e_dst e) = Style \<and> e_key e = []} =
      {e \<in> edges g. e_src e = ?t \<and> e_rel e = HAS_STYLE \<and> fst (e_dst e) = Style \<and> e_key e = []}" by blast
  moreover have "eprop ?g (style_edge ?t s) = eprop g (style_edge ?t s)" for s
    using refresh_edges(3) [of "style_edge ?t s" ?l "label_counts key g"] False h by simp
  moreover have "paths_to ?g ON ?t {BY, IS} s = paths_to g ON ?t {BY, IS} s" if "s \<in> label_styles g ?t" for s
    using label_styles_Style [OF that] by (intro paths_to_base [OF base]) simp_all
  ultimately show ?thesis
    using assms base False by (simp add: label_current_def Let_def base_simps label_stats_props)
qed

text \<open>Artists.\<close>

lemma artist_stats_base: "same_base g (artist_stats key g)"
  by (auto simp: artist_stats_def Let_def intro!: same_base_intros)

lemma artist_stats_props: "m \<noteq> (Artist, PStr key) \<Longrightarrow> nprop (artist_stats key g) m = nprop g m"
  by (auto simp: artist_stats_def Let_def nprop_set_if_differs nprop_set_node fun_eq_iff)

lemma artist_stats_current: "artist_current (artist_stats key g) key"
  using same_base_counts [OF artist_stats_base [of g key]]
  by (simp add: artist_current_def Let_def base_simps)
    (simp add: artist_stats_def Let_def nprop_set_if_differs nprop_set_node)

lemma artist_stats_keeps: "artist_current g t \<Longrightarrow> artist_current (artist_stats key g) t"
  using artist_stats_current [of key g] same_base_counts [OF artist_stats_base [of g key]] artist_stats_props [of "(Artist, PStr t)" key g]
  by (cases "t = key") (simp_all add: artist_current_def Let_def base_simps)

text \<open>Persons.\<close>

lemma person_fold:
  assumes "fst p \<noteq> Release"
  shows "same_base g (fold (\<lambda>(k, v). set_if_differs p k v) kvs g)"
    and "m \<noteq> p \<Longrightarrow> nprop (fold (\<lambda>(k, v). set_if_differs p k v) kvs g) m = nprop g m"
    and "nprop (fold (\<lambda>(k, v). set_if_differs p k v) kvs g) p j =
      (if j \<in> fst ` set kvs then the (map_of (rev kvs) j) else nprop g p j)"
proof -
  show "same_base g (fold (\<lambda>(k, v). set_if_differs p k v) kvs g)"
    using assms by (induction kvs rule: rev_induct) (auto intro: same_base_intros)
  show "m \<noteq> p \<Longrightarrow> nprop (fold (\<lambda>(k, v). set_if_differs p k v) kvs g) m = nprop g m"
    by (induction kvs arbitrary: g) (auto simp: nprop_set_if_differs fun_eq_iff)
  show "nprop (fold (\<lambda>(k, v). set_if_differs p k v) kvs g) p j =
      (if j \<in> fst ` set kvs then the (map_of (rev kvs) j) else nprop g p j)"
    by (induction kvs rule: rev_induct) (auto simp: nprop_set_if_differs image_iff split: if_splits)
qed

text \<open>A property named twice is named with one value.\<close>

lemma credit_counts_functional:
  assumes "(k, v) \<in> set (credit_counts g cs p)" and "(k, v') \<in> set (credit_counts g cs p)"
  shows "v = v'"
  using assms by (auto simp: credit_counts_def credit_count_property_def CREDIT_COUNT_PROPERTY_def)

lemma person_stats_base: "same_base g (person_stats cs key g)"
  by (simp add: person_stats_def Let_def person_fold(1))

lemma person_stats_current: "person_current cs (person_stats cs key g) key"
proof -
  let ?p = "(Person, PStr key)" and ?kvs = "credit_counts g cs (Person, PStr key)"
  have "nprop (person_stats cs key g) ?p k = v" if kv: "(k, v) \<in> set ?kvs" for k v
  proof -
    from kv have "k \<in> fst ` set (rev ?kvs)" by force
    then have "map_of (rev ?kvs) k \<noteq> None" unfolding map_of_eq_None_iff by simp
    then obtain v' where v': "map_of (rev ?kvs) k = Some v'" by blast
    then have "(k, v') \<in> set ?kvs" using map_of_SomeD by fastforce
    with kv credit_counts_functional have "v' = v" by blast
    with v' kv show ?thesis by (force simp: person_stats_def Let_def person_fold(3))
  qed
  then show ?thesis using same_base_counts [OF person_stats_base [of g cs key]] by (auto simp: person_current_def Let_def base_simps)
qed

lemma person_stats_keeps: "person_current cs g t \<Longrightarrow> person_current cs (person_stats cs key g) t"
  using person_stats_current [of cs key g] same_base_counts [OF person_stats_base [of g cs key]]
  by (cases "t = key") (auto simp: person_current_def Let_def base_simps person_stats_def person_fold(2))

text \<open>
  Genres and styles: each statement writes its own properties, from the base only, so their
  order and repetition do not matter.
\<close>

definition node_values :: "nlabel \<Rightarrow> graph \<Rightarrow> pystr \<Rightarrow> string \<Rightarrow> pyval" where
  "node_values lb g key k = (let n = (lb, PStr key); R = sources_into g IS Release n in
     if k = ''release_count'' then PInt (int (card (edges_into g IS Release n)))
     else if k = ''artist_count'' then PInt (int (card (targets_from g R {BY} Artist)))
     else if k = ''label_count'' then PInt (int (card (targets_from g R {ON} Label)))
     else if k = snd (other_taxonomy lb) then PInt (int (card (targets_from g R {IS} (fst (other_taxonomy lb)))))
     else first_year g R)"

lemma other_taxonomy_names: "snd (other_taxonomy lb) \<in> {''style_count'', ''genre_count''}"
  by (cases lb) simp_all

lemma node_current_values:
  "node_current lb g key \<longleftrightarrow> (\<forall>k \<in> {''release_count'', ''artist_count'', ''label_count'', snd (other_taxonomy lb), ''first_year''}.
     nprop g (lb, PStr key) k = node_values lb g key k)"
  using other_taxonomy_names [of lb] by (auto simp: node_current_def node_values_def Let_def)

lemma node_values_base:
  assumes "same_counts g g'" and "lb \<noteq> Master"
  shows "node_values lb g' key = node_values lb g key"
proof -
  have "fst (other_taxonomy lb) \<noteq> Master" by (cases lb) simp_all
  with assms show ?thesis by (simp add: node_values_def Let_def base_simps fun_eq_iff)
qed

lemma node_statement:
  assumes "x \<in> set (build_node_stat_statements lb)"
  obtains ks where "\<And>g key. x key g = matched_set (lb, PStr key) (map (\<lambda>k. (k, node_values lb g key k)) ks) g"
    and "distinct ks" and "set ks \<subseteq> {''release_count'', ''artist_count'', ''label_count'', snd (other_taxonomy lb), ''first_year''}"
proof -
  note names = other_taxonomy_names [of lb]
  from assms consider "x = node_release_count lb" | "x = node_target_counts lb" | "x = node_first_year lb"
    by (auto simp: build_node_stat_statements_def)
  then show thesis
  proof cases
    case 1
    then show thesis by (intro that [of "[''release_count'']"]) (simp_all add: node_release_count_def node_values_def Let_def)
  next
    case 2
    with names show thesis
      by (intro that [of "[''artist_count'', ''label_count'', snd (other_taxonomy lb)]"])
        (auto simp: node_target_counts_def node_values_def Let_def)
  next
    case 3
    with names show thesis
      by (intro that [of "[''first_year'']"]) (auto simp: node_first_year_def node_values_def Let_def)
  qed
qed

lemma fold_set_node:
  "distinct ks \<Longrightarrow> fold (\<lambda>(k, v) p. p(k := v)) (map (\<lambda>k. (k, f k)) ks) p j = (if j \<in> set ks then f j else p j)"
  by (induction ks arbitrary: p) auto

lemma node_statement_effect:
  assumes "x \<in> set (build_node_stat_statements lb)" and "fst (lb, PStr key) \<noteq> Release"
  shows "same_base g (x key g)"
    and "m \<noteq> (lb, PStr key) \<Longrightarrow> nprop (x key g) m = nprop g m"
    and "nprop (x key g) m k = nprop g m k \<or> (m = (lb, PStr key) \<and> nprop (x key g) m k = node_values lb g key k)"
proof -
  from assms(1) obtain ks where x: "\<And>g key. x key g = matched_set (lb, PStr key) (map (\<lambda>k. (k, node_values lb g key k)) ks) g"
    and d: "distinct ks" by (rule node_statement) blast
  show "same_base g (x key g)" using assms(2) unfolding x by (intro same_base_intros) simp_all
  show "m \<noteq> (lb, PStr key) \<Longrightarrow> nprop (x key g) m = nprop g m"
    by (simp add: x matched_set_def nprop_set_node)
  show "nprop (x key g) m k = nprop g m k \<or> (m = (lb, PStr key) \<and> nprop (x key g) m k = node_values lb g key k)"
    by (simp add: x matched_set_def nprop_set_node fold_set_node [OF d])
qed

lemma node_statement_keeps:
  assumes "x \<in> set (build_node_stat_statements lb)" and "lb \<in> {Genre, Style}" and "node_current lb g t"
  shows "node_current lb (x key g) t"
proof -
  have "fst (lb, PStr key) \<noteq> Release" and lb: "lb \<noteq> Master" using assms(2) by auto
  note eff = node_statement_effect [OF assms(1) this(1), where g = g]
  note base = node_values_base [OF same_base_counts [OF eff(1)] lb]
  have "nprop (x key g) (lb, PStr t) k = node_values lb g t k" if "nprop g (lb, PStr t) k = node_values lb g t k" for k
  proof -
    have "nprop (x key g) (lb, PStr t) k = nprop g (lb, PStr t) k \<or>
        t = key \<and> nprop (x key g) (lb, PStr t) k = node_values lb g key k"
      using eff(3) [of "(lb, PStr t)" k] by simp
    with that show ?thesis by metis
  qed
  note kept = this
  show ?thesis unfolding node_current_values base
    by (intro ballI kept) (rule bspec [OF assms(3) [unfolded node_current_values]])
qed

lemma node_statement_forms:
  shows "node_release_count lb key g =
      matched_set (lb, PStr key) (map (\<lambda>k. (k, node_values lb g key k)) [''release_count'']) g"
    and "lb \<in> {Genre, Style} \<Longrightarrow> node_target_counts lb key g =
      matched_set (lb, PStr key) (map (\<lambda>k. (k, node_values lb g key k)) [''artist_count'', ''label_count'', snd (other_taxonomy lb)]) g"
    and "lb \<in> {Genre, Style} \<Longrightarrow> node_first_year lb key g =
      matched_set (lb, PStr key) (map (\<lambda>k. (k, node_values lb g key k)) [''first_year'']) g"
  using other_taxonomy_names [of lb]
  by (auto simp: node_release_count_def node_target_counts_def node_first_year_def node_values_def Let_def)

lemma nprop_matched_values:
  "distinct ks \<Longrightarrow> nprop (matched_set n (map (\<lambda>k. (k, f k)) ks) g) n k = (if n \<in> nodes g \<and> k \<in> set ks then f k else nprop g n k)"
  by (simp add: matched_set_def nprop_set_node fold_set_node)

lemma node_statements_current:
  assumes "(lb, PStr key) \<in> nodes g" and lb: "lb \<in> {Genre, Style}"
  shows "node_current lb (fold (\<lambda>x. x key) (build_node_stat_statements lb) g) key"
proof -
  let ?n = "(lb, PStr key)"
  let ?g1 = "node_release_count lb key g" let ?g2 = "node_target_counts lb key ?g1" let ?g3 = "node_first_year lb key ?g2"
  have st: "node_release_count lb \<in> set (build_node_stat_statements lb)" "node_target_counts lb \<in> set (build_node_stat_statements lb)"
    "node_first_year lb \<in> set (build_node_stat_statements lb)" by (simp_all add: build_node_stat_statements_def)
  have nr: "fst (lb, PStr key) \<noteq> Release" using lb by auto
  note b1 = node_statement_effect(1) [OF st(1) nr, of g] and b2 = node_statement_effect(1) [OF st(2) nr, of ?g1]
    and b3 = node_statement_effect(1) [OF st(3) nr, of ?g2]
  have lb': "lb \<noteq> Master" using lb by auto
  note v = b1 [THEN same_base_counts, THEN node_values_base, OF lb'] b2 [THEN same_base_counts, THEN node_values_base, OF lb']
    b3 [THEN same_base_counts, THEN node_values_base, OF lb']
  have ins: "?n \<in> nodes ?g1" "?n \<in> nodes ?g2" using assms(1) b1 b2 by (simp_all add: same_base_def)
  have d: "distinct [''artist_count'', ''label_count'', snd (other_taxonomy lb)]"
    using other_taxonomy_names [of lb] lb by auto
  have p1: "nprop ?g1 ?n k = (if k = ''release_count'' then node_values lb g key k else nprop g ?n k)" for k
    unfolding node_statement_forms(1) by (subst nprop_matched_values) (simp_all add: assms(1))
  have p2: "nprop ?g2 ?n k = (if k \<in> {''artist_count'', ''label_count'', snd (other_taxonomy lb)} then node_values lb g key k else nprop ?g1 ?n k)" for k
    unfolding node_statement_forms(2) [OF lb] by (subst nprop_matched_values) (use d in \<open>simp_all add: ins v\<close>)
  have p3: "nprop ?g3 ?n k = (if k = ''first_year'' then node_values lb g key k else nprop ?g2 ?n k)" for k
    unfolding node_statement_forms(3) [OF lb] by (subst nprop_matched_values) (simp_all add: ins v)
  show ?thesis
    by (simp add: build_node_stat_statements_def node_current_values v p3 p2 p1)
qed

end
