(* ===== verification/MaintenancePaging.thy ===== *)
theory MaintenancePaging
  imports PyText "HOL-Library.List_Lexorder" "HOL-Library.Sublist"
begin

text \<open>
  \<^verbatim>\<open>graphinator/maintenance_paging.py\<close>: the checkpointed page loop of the post-import sweeps.
  The database a sweep works on is a parameter \<open>'w\<close>; the checkpoint nodes the module itself
  writes are a store from step names to what was last committed. What the driver and the
  callers supply (the page processor, the hook before a page, whether a session raises) is a
  record of functions on the world. The loop is a partial function: that it returns is a
  theorem about page processors that keep their contract, not an assumption.
\<close>

section \<open>Errors\<close>

text \<open>
  The exceptions a page can raise: transient errors of the database, its other errors with
  their code when they carry one, the request to stop, anything else.
\<close>

datatype page_error = TransientError | Neo4jError "pystr option" | MaintenanceStopped | OtherError

definition is_page_retryable :: "page_error \<Rightarrow> bool" where
  "is_page_retryable error =
     (case error of
        TransientError \<Rightarrow> True
      | Neo4jError code \<Rightarrow> sublist (lit ''TransactionTimedOut'') (case code of None \<Rightarrow> [] | Some c \<Rightarrow> c)
      | _ \<Rightarrow> False)"

section \<open>The client-side timeout\<close>

text \<open>
  \<^verbatim>\<open>float(raw)\<close> is the interpreter's: a parser that yields a rational, or nothing for a
  text it refuses. Infinities and not-a-number are left out.
\<close>

definition tx_timeout_seconds :: "(pystr \<Rightarrow> rat option) \<Rightarrow> pystr option \<Rightarrow> rat option" where
  "tx_timeout_seconds parse_float env =
     (let raw = py_strip (case env of None \<Rightarrow> [] | Some v \<Rightarrow> v) in
      if raw = [] then None
      else case parse_float raw of
             None \<Rightarrow> None
           | Some v \<Rightarrow> if 0 < v then Some v else None)"

section \<open>Checkpoints\<close>

definition START_CURSOR :: pystr where "START_CURSOR = []"
definition MIN_PAGE_SIZE :: int where "MIN_PAGE_SIZE = 1"
definition MAX_FAILURES_AT_MIN_PAGE :: nat where "MAX_FAILURES_AT_MIN_PAGE = 3"

record checkpoint =
  cp_cursor :: pystr
  cp_size :: "int option"
  cp_done :: bool

definition fresh_checkpoint :: checkpoint where
  "fresh_checkpoint = \<lparr>cp_cursor = START_CURSOR, cp_size = None, cp_done = False\<rparr>"

text \<open>The properties of a \<^verbatim>\<open>MaintenanceCheckpoint\<close> node; the node's key is the step.\<close>

record stored_checkpoint = checkpoint +
  sc_run_key :: pystr

record 'w database =
  world :: 'w
  checkpoints :: "pystr \<rightharpoonup> stored_checkpoint"

text \<open>
  What runs outside this module: the hook before a page (if any), the page processor, and
  whether the session of a checkpoint statement raises.
\<close>

record 'w paging =
  before_page :: "('w \<Rightarrow> page_error option \<times> 'w) option"
  process_page :: "pystr \<Rightarrow> int \<Rightarrow> 'w \<Rightarrow> (page_error + pystr option \<times> int) \<times> 'w"
  session :: "'w \<Rightarrow> page_error option \<times> 'w"

definition read_checkpoint ::
  "'w paging \<Rightarrow> pystr \<Rightarrow> pystr \<Rightarrow> 'w database \<Rightarrow> (page_error + checkpoint) \<times> 'w database" where
  "read_checkpoint p step run_key db =
     (case session p (world db) of
        (Some e, w) \<Rightarrow> (Inl e, db\<lparr>world := w\<rparr>)
      | (None, w) \<Rightarrow>
          (Inr (case checkpoints db step of
                  None \<Rightarrow> fresh_checkpoint
                | Some c \<Rightarrow> if sc_run_key c \<noteq> run_key then fresh_checkpoint
                            else \<lparr>cp_cursor = cp_cursor c, cp_size = cp_size c, cp_done = cp_done c\<rparr>),
           db\<lparr>world := w\<rparr>))"

definition write_checkpoint ::
  "'w paging \<Rightarrow> pystr \<Rightarrow> pystr \<Rightarrow> checkpoint \<Rightarrow> 'w database \<Rightarrow> page_error option \<times> 'w database" where
  "write_checkpoint p step run_key c db =
     (case session p (world db) of
        (Some e, w) \<Rightarrow> (Some e, db\<lparr>world := w\<rparr>)
      | (None, w) \<Rightarrow>
          (None, db\<lparr>world := w, checkpoints := (checkpoints db)(step \<mapsto>
             \<lparr>cp_cursor = cp_cursor c, cp_size = cp_size c, cp_done = cp_done c, sc_run_key = run_key\<rparr>)\<rparr>))"

section \<open>The page loop\<close>

record loop_state =
  ls_cursor :: pystr
  ls_size :: int
  ls_total :: int
  ls_failures :: nat

datatype outcome = Returned int | Raised page_error

text \<open>\<^verbatim>\<open>write_checkpoint\<close> as the loop calls it: only in a run with a key.\<close>

definition commit ::
  "'w paging \<Rightarrow> pystr \<Rightarrow> pystr option \<Rightarrow> checkpoint \<Rightarrow> 'w database \<Rightarrow> page_error option \<times> 'w database" where
  "commit p step run_key c db =
     (case run_key of None \<Rightarrow> (None, db) | Some k \<Rightarrow> write_checkpoint p step k c db)"

text \<open>A retryable failure: halve the page, or count a failure at the minimum and give up at the third.\<close>

definition after_failure :: "int \<Rightarrow> page_error \<Rightarrow> loop_state \<Rightarrow> outcome + loop_state" where
  "after_failure min_size e ls =
     (if \<not> is_page_retryable e then Inl (Raised e)
      else if min_size < ls_size ls then Inr (ls\<lparr>ls_size := max min_size (ls_size ls div 2)\<rparr>)
      else let failures = ls_failures ls + 1 in
           if MAX_FAILURES_AT_MIN_PAGE \<le> failures then Inl (Raised e)
           else Inr (ls\<lparr>ls_failures := failures\<rparr>))"

text \<open>A page that came back.\<close>

definition after_page :: "'w paging \<Rightarrow> pystr \<Rightarrow> pystr option \<Rightarrow> pystr option \<Rightarrow> int \<Rightarrow> loop_state \<Rightarrow>
    'w database \<Rightarrow> (outcome + loop_state) \<times> 'w database" where
  "after_page p step run_key reported processed ls db =
     (case (if processed = 0 then None else reported) of
        None \<Rightarrow>
          (case commit p step run_key \<lparr>cp_cursor = ls_cursor ls, cp_size = Some (ls_size ls), cp_done = True\<rparr> db of
             (Some e, db') \<Rightarrow> (Inl (Raised e), db')
           | (None, db') \<Rightarrow> (Inl (Returned (ls_total ls)), db'))
      | Some l \<Rightarrow>
          (case commit p step run_key \<lparr>cp_cursor = l, cp_size = Some (ls_size ls), cp_done = False\<rparr> db of
             (Some e, db') \<Rightarrow> (Inl (Raised e), db')
           | (None, db') \<Rightarrow>
               (Inr (ls\<lparr>ls_cursor := l, ls_total := ls_total ls + processed, ls_failures := 0\<rparr>), db')))"

text \<open>One turn of the loop.\<close>

definition page_turn :: "'w paging \<Rightarrow> pystr \<Rightarrow> pystr option \<Rightarrow> int \<Rightarrow> loop_state \<Rightarrow>
    'w database \<Rightarrow> (outcome + loop_state) \<times> 'w database" where
  "page_turn p step run_key min_size ls db =
     (case (case before_page p of None \<Rightarrow> (None, world db) | Some f \<Rightarrow> f (world db)) of
        (Some e, w) \<Rightarrow> (Inl (Raised e), db\<lparr>world := w\<rparr>)
      | (None, w) \<Rightarrow>
          (case process_page p (ls_cursor ls) (ls_size ls) w of
             (Inl e, w') \<Rightarrow> (after_failure min_size e ls, db\<lparr>world := w'\<rparr>)
           | (Inr (l, processed), w') \<Rightarrow> after_page p step run_key l processed ls (db\<lparr>world := w'\<rparr>)))"

partial_function (option) page_loop :: "'w paging \<Rightarrow> pystr \<Rightarrow> pystr option \<Rightarrow> int \<Rightarrow> loop_state \<Rightarrow>
    'w database \<Rightarrow> (outcome \<times> 'w database) option" where
  "page_loop p step run_key min_size ls db =
     (case page_turn p step run_key min_size ls db of
        (Inl out, db') \<Rightarrow> Some (out, db')
      | (Inr ls', db') \<Rightarrow> page_loop p step run_key min_size ls' db')"

definition start_size :: "int \<Rightarrow> int \<Rightarrow> checkpoint \<Rightarrow> int" where
  "start_size min_size page_size c =
     max min_size (min page_size (case cp_size c of None \<Rightarrow> page_size | Some s \<Rightarrow> if s = 0 then page_size else s))"

definition start_state :: "int \<Rightarrow> int \<Rightarrow> checkpoint \<Rightarrow> loop_state" where
  "start_state min_size page_size c =
     \<lparr>ls_cursor = cp_cursor c, ls_size = start_size min_size page_size c, ls_total = 0, ls_failures = 0\<rparr>"

definition run_checkpointed_step :: "'w paging \<Rightarrow> pystr \<Rightarrow> pystr option \<Rightarrow> int \<Rightarrow> int \<Rightarrow>
    'w database \<Rightarrow> (outcome \<times> 'w database) option" where
  "run_checkpointed_step p step run_key page_size min_size db =
     (case run_key of
        None \<Rightarrow> page_loop p step run_key min_size (start_state min_size page_size fresh_checkpoint) db
      | Some k \<Rightarrow>
          (case read_checkpoint p step k db of
             (Inl e, db') \<Rightarrow> Some (Raised e, db')
           | (Inr c, db') \<Rightarrow>
               if cp_done c then Some (Returned 0, db')
               else page_loop p step run_key min_size (start_state min_size page_size c) db'))"

section \<open>Page processors\<close>

text \<open>
  \<^verbatim>\<open>keyed_page_processor\<close>: one statement per page, whose record (if any) carries the
  greatest key it handled and how many nodes it handled.
\<close>

definition keyed_page_processor ::
  "(pystr \<Rightarrow> int \<Rightarrow> 'w \<Rightarrow> (page_error + (pystr option \<times> int option) option) \<times> 'w) \<Rightarrow>
    pystr \<Rightarrow> int \<Rightarrow> 'w \<Rightarrow> (page_error + pystr option \<times> int) \<times> 'w" where
  "keyed_page_processor run_statement cursor n w =
     (case run_statement cursor n w of
        (Inl e, w') \<Rightarrow> (Inl e, w')
      | (Inr None, w') \<Rightarrow> (Inr (None, 0), w')
      | (Inr (Some (l, processed)), w') \<Rightarrow>
          (Inr (l, case processed of None \<Rightarrow> 0 | Some n \<Rightarrow> n), w'))"

text \<open>Run the statements of one key, then of every key of the page, until one raises.\<close>

fun run_statements :: "('c \<Rightarrow> 'w \<Rightarrow> page_error option \<times> 'w) \<Rightarrow> 'c list \<Rightarrow> 'w \<Rightarrow> page_error option \<times> 'w" where
  "run_statements run [] w = (None, w)"
| "run_statements run (c # cs) w =
     (case run c w of
        (Some e, w') \<Rightarrow> (Some e, w')
      | (None, w') \<Rightarrow> run_statements run cs w')"

definition per_key_page_processor ::
  "(pystr \<Rightarrow> int \<Rightarrow> 'w \<Rightarrow> (page_error + pystr list) \<times> 'w) \<Rightarrow> (pystr \<Rightarrow> 'c list) \<Rightarrow>
    (pystr \<times> 'c \<Rightarrow> 'w \<Rightarrow> page_error option \<times> 'w) \<Rightarrow>
    pystr \<Rightarrow> int \<Rightarrow> 'w \<Rightarrow> (page_error + pystr option \<times> int) \<times> 'w" where
  "per_key_page_processor list_keys statements_for_key run_statement cursor n w =
     (case list_keys cursor n w of
        (Inl e, w') \<Rightarrow> (Inl e, w')
      | (Inr keys, w') \<Rightarrow>
          (case run_statements run_statement
                  (concat (map (\<lambda>k. map (\<lambda>c. (k, c)) (statements_for_key k)) keys)) w' of
             (Some e, w'') \<Rightarrow> (Inl e, w'')
           | (None, w'') \<Rightarrow>
               (Inr (if keys = [] then None else Some (last keys), int (length keys)), w'')))"

section \<open>The contract of a page source\<close>

text \<open>
  The keys after a cursor, in order, and the page that starts there.
\<close>

definition after :: "pystr list \<Rightarrow> pystr \<Rightarrow> pystr list" where
  "after keys c = filter (\<lambda>k. c < k) keys"

definition upto_cursor :: "pystr list \<Rightarrow> pystr \<Rightarrow> pystr list" where
  "upto_cursor keys c = filter (\<lambda>k. k \<le> c) keys"

definition page_of :: "pystr list \<Rightarrow> pystr \<Rightarrow> int \<Rightarrow> pystr list" where
  "page_of keys c n = take (nat n) (after keys c)"

lemma after_page_of:
  assumes "sorted keys" and "distinct keys" and "page_of keys c n \<noteq> []"
  shows "after keys (last (page_of keys c n)) = drop (length (page_of keys c n)) (after keys c)"
    and "upto_cursor keys (last (page_of keys c n)) = upto_cursor keys c @ page_of keys c n"
    and "c < last (page_of keys c n)"
proof -
  let ?a = "after keys c" and ?p = "page_of keys c n"
  have split: "keys = upto_cursor keys c @ ?a"
    using assms(1)
  proof (induction keys)
    case (Cons k ks)
    then have IH: "ks = upto_cursor ks c @ after ks c" by simp
    show ?case
    proof (cases "k \<le> c")
      case True
      with IH show ?thesis by (simp add: upto_cursor_def after_def)
    next
      case False
      with Cons.prems have "\<forall>x \<in> set ks. \<not> x \<le> c" by fastforce
      then have "upto_cursor ks c = []" "after ks c = ks"
        by (auto simp: upto_cursor_def after_def filter_id_conv not_le)
      with False show ?thesis by (simp add: upto_cursor_def after_def not_le)
    qed
  qed (simp add: upto_cursor_def after_def)
  have a: "?a = ?p @ drop (length ?p) ?a" by (simp add: page_of_def min_def)
  from assms(3) have l: "last ?p \<in> set ?p" by simp
  then have "last ?p \<in> set ?a" using a by (metis Un_iff set_append)
  then show c: "c < last ?p" by (simp add: after_def)
  obtain q where p: "?p = q @ [last ?p]" using assms(3) by (metis append_butlast_last_id)
  have sd: "sorted (upto_cursor keys c @ ?p @ drop (length ?p) ?a)"
    "distinct (upto_cursor keys c @ ?p @ drop (length ?p) ?a)"
    using assms(1,2) split a by metis+
  have low: "\<forall>x \<in> set (upto_cursor keys c @ ?p). x \<le> last ?p"
  proof -
    have "\<forall>x \<in> set (upto_cursor keys c). x \<le> last ?p" using c by (auto simp: upto_cursor_def)
    moreover have "sorted ?p" using sd(1) by (simp add: sorted_append)
    then have "\<forall>x \<in> set ?p. x \<le> last ?p" using p by (metis Un_iff order_refl set_append sorted_append list.set_intros(1) empty_iff list.set(1) set_ConsD)
    ultimately show ?thesis by auto
  qed
  have high: "\<forall>x \<in> set (drop (length ?p) ?a). last ?p < x"
  proof
    fix x assume x: "x \<in> set (drop (length ?p) ?a)"
    with sd(1) l have "last ?p \<le> x" by (auto simp: sorted_append)
    moreover from sd(2) l x have "last ?p \<noteq> x" by auto
    ultimately show "last ?p < x" by simp
  qed
  have keys: "keys = (upto_cursor keys c @ ?p) @ drop (length ?p) ?a"
    using split a by (metis append.assoc)
  have "after keys (last ?p) = filter ((<) (last ?p)) (upto_cursor keys c @ ?p) @
      filter ((<) (last ?p)) (drop (length ?p) ?a)"
    unfolding after_def using keys by (metis after_def filter_append)
  also have "filter ((<) (last ?p)) (upto_cursor keys c @ ?p) = []"
    using low by (auto simp: filter_empty_conv not_less)
  also have "filter ((<) (last ?p)) (drop (length ?p) ?a) = drop (length ?p) ?a"
    using high by (simp add: filter_id_conv)
  finally show "after keys (last ?p) = drop (length ?p) ?a" by simp
  have "upto_cursor keys (last ?p) = filter (\<lambda>k. k \<le> last ?p) (upto_cursor keys c @ ?p) @
      filter (\<lambda>k. k \<le> last ?p) (drop (length ?p) ?a)"
    unfolding upto_cursor_def using keys by (metis upto_cursor_def filter_append)
  also have "filter (\<lambda>k. k \<le> last ?p) (upto_cursor keys c @ ?p) = upto_cursor keys c @ ?p"
    using low by (simp add: filter_id_conv)
  also have "filter (\<lambda>k. k \<le> last ?p) (drop (length ?p) ?a) = []"
    using high by (auto simp: filter_empty_conv not_le)
  finally show "upto_cursor keys (last ?p) = upto_cursor keys c @ ?p" by simp
qed

text \<open>
  What a sweep relies on: there is a finite key space, sorted, whose keys are non-empty (they
  compare greater than the start cursor); a page that comes back has handled exactly the
  next keys, a page that fails has handled none, and nothing else handles keys. \<open>handled\<close>
  reads off the world the keys of the committed pages, in order.
\<close>

locale page_source =
  fixes p :: "'w paging" and keys :: "pystr list" and handled :: "'w \<Rightarrow> pystr list"
  assumes sorted_keys: "sorted keys" and distinct_keys: "distinct keys" and key_nonempty: "[] \<notin> set keys"
    and page_ok: "process_page p c n w = (Inr (l, m), w') \<Longrightarrow> 1 \<le> n \<Longrightarrow>
      handled w' = handled w @ page_of keys c n \<and> m = int (length (page_of keys c n)) \<and>
      l = (if page_of keys c n = [] then None else Some (last (page_of keys c n)))"
    and page_failed: "process_page p c n w = (Inl e, w') \<Longrightarrow> handled w' = handled w"
    and before_ok: "before_page p = Some f \<Longrightarrow> f w = (r, w') \<Longrightarrow> handled w' = handled w"
    and session_ok: "session p w = (r, w') \<Longrightarrow> handled w' = handled w"

context page_source
begin

lemma key_above_start: "k \<in> set keys \<Longrightarrow> START_CURSOR < k"
  using key_nonempty by (cases k) (auto simp: START_CURSOR_def)

lemma after_start: "after keys START_CURSOR = keys" and upto_start: "upto_cursor keys START_CURSOR = []"
  by (auto simp: after_def upto_cursor_def filter_id_conv filter_empty_conv key_above_start not_le)

lemma page_empty: "1 \<le> n \<Longrightarrow> page_of keys c n = [] \<longleftrightarrow> after keys c = []"
  by (auto simp: page_of_def)

lemma upto_all: "after keys c = [] \<Longrightarrow> upto_cursor keys c = keys"
  by (auto simp: after_def upto_cursor_def filter_empty_conv filter_id_conv not_less)

lemma commit_world:
  "commit p step rk c db = (r, db') \<Longrightarrow> handled (world db') = handled (world db) \<and>
     (r \<noteq> None \<longrightarrow> checkpoints db' = checkpoints db) \<and>
     (r = None \<longrightarrow> checkpoints db' = (case rk of None \<Rightarrow> checkpoints db
        | Some k \<Rightarrow> (checkpoints db)(step \<mapsto>
            \<lparr>cp_cursor = cp_cursor c, cp_size = cp_size c, cp_done = cp_done c, sc_run_key = k\<rparr>)))"
  by (auto simp: commit_def write_checkpoint_def split: option.splits prod.splits dest: session_ok)

text \<open>The ways a turn of the loop can go.\<close>

lemma turn_cases:
  assumes turn: "page_turn p step rk m ls db = (r, db')" and "1 \<le> m" and "m \<le> ls_size ls"
  obtains
    (stop) e where "r = Inl (Raised e)" and "handled (world db') = handled (world db)"
      and "checkpoints db' = checkpoints db"
  | (retry) ls' where "r = Inr ls'" and "handled (world db') = handled (world db)"
      and "checkpoints db' = checkpoints db" and "ls_cursor ls' = ls_cursor ls" and "ls_total ls' = ls_total ls"
      and "m \<le> ls_size ls'" and "ls_size ls' < ls_size ls \<or>
        ls_size ls' = ls_size ls \<and> 3 - ls_failures ls' < 3 - ls_failures ls"
  | (finish) "r = Inl (Returned (ls_total ls))" and "handled (world db') = handled (world db)"
      and "after keys (ls_cursor ls) = []"
      and "checkpoints db' = (case rk of None \<Rightarrow> checkpoints db
        | Some k \<Rightarrow> (checkpoints db)(step \<mapsto> \<lparr>cp_cursor = ls_cursor ls, cp_size = Some (ls_size ls),
                       cp_done = True, sc_run_key = k\<rparr>))"
  | (lost) e where "r = Inl (Raised e)" and "page_of keys (ls_cursor ls) (ls_size ls) \<noteq> []"
      and "handled (world db') = handled (world db) @ page_of keys (ls_cursor ls) (ls_size ls)"
      and "checkpoints db' = checkpoints db" and "\<exists>w w'. session p w = (Some e, w')"
  | (advance) "page_of keys (ls_cursor ls) (ls_size ls) \<noteq> []"
      and "r = Inr (ls\<lparr>ls_cursor := last (page_of keys (ls_cursor ls) (ls_size ls)),
             ls_total := ls_total ls + int (length (page_of keys (ls_cursor ls) (ls_size ls))), ls_failures := 0\<rparr>)"
      and "handled (world db') = handled (world db) @ page_of keys (ls_cursor ls) (ls_size ls)"
      and "checkpoints db' = (case rk of None \<Rightarrow> checkpoints db
        | Some k \<Rightarrow> (checkpoints db)(step \<mapsto> \<lparr>cp_cursor = last (page_of keys (ls_cursor ls) (ls_size ls)),
                       cp_size = Some (ls_size ls), cp_done = False, sc_run_key = k\<rparr>))"
proof -
  let ?b = "case before_page p of None \<Rightarrow> (None, world db) | Some f \<Rightarrow> f (world db)"
  obtain be w where b: "?b = (be, w)" by (cases ?b)
  then have hw: "handled w = handled (world db)" by (auto split: option.splits dest: before_ok)
  show thesis
  proof (cases be)
    case (Some e)
    with turn b hw show thesis by (intro stop [of e]) (auto simp: page_turn_def)
  next
    case None
    obtain q w' where q: "process_page p (ls_cursor ls) (ls_size ls) w = (q, w')"
      by (cases "process_page p (ls_cursor ls) (ls_size ls) w")
    show thesis
    proof (cases q)
      case (Inl e)
      with q page_failed hw have h: "handled w' = handled (world db)" by metis
      from turn b None q Inl have r: "r = after_failure m e ls" "db' = db\<lparr>world := w'\<rparr>"
        by (simp_all add: page_turn_def)
      show thesis
      proof (cases r)
        case (Inl out)
        with r have "out = Raised e" by (auto simp: after_failure_def Let_def split: if_splits)
        with Inl r h stop show thesis by simp
      next
        case (Inr ls')
        with r assms(2,3) h show thesis
          by (intro retry [of ls']) (auto simp: after_failure_def Let_def MAX_FAILURES_AT_MIN_PAGE_def split: if_splits)
      qed
    next
      case (Inr lm)
      obtain l n where lm: "lm = (l, n)" by (cases lm)
      let ?g = "page_of keys (ls_cursor ls) (ls_size ls)"
      have ok: "handled w' = handled (world db) @ ?g" "n = int (length ?g)"
        "l = (if ?g = [] then None else Some (last ?g))"
        using page_ok [of "ls_cursor ls" "ls_size ls" w l n w'] q Inr lm assms(2,3) hw by auto
      from turn b None q Inr lm have r: "after_page p step rk l n ls (db\<lparr>world := w'\<rparr>) = (r, db')"
        by (simp add: page_turn_def)
      show thesis
      proof (cases "?g = []")
        case True
        obtain c db1 where c: "commit p step rk \<lparr>cp_cursor = ls_cursor ls, cp_size = Some (ls_size ls),
            cp_done = True\<rparr> (db\<lparr>world := w'\<rparr>) = (c, db1)" by fastforce
        show thesis
        proof (cases c)
          case None
          with True c r ok commit_world [OF c] page_empty assms(2,3) show thesis
            by (intro finish) (auto simp: after_page_def split: option.split)
        next
          case (Some e)
          with True c r ok commit_world [OF c] show thesis by (intro stop [of e]) (auto simp: after_page_def)
        qed
      next
        case False
        obtain c db1 where c: "commit p step rk \<lparr>cp_cursor = last ?g, cp_size = Some (ls_size ls),
            cp_done = False\<rparr> (db\<lparr>world := w'\<rparr>) = (c, db1)" by fastforce
        show thesis
        proof (cases c)
          case None
          with False c r ok commit_world [OF c] show thesis
            by (intro advance) (auto simp: after_page_def split: option.split)
        next
          case (Some e)
          with c have "\<exists>w w'. session p w = (Some e, w')"
            by (auto simp: commit_def write_checkpoint_def split: option.splits prod.splits)
          with Some False c r ok commit_world [OF c] show thesis
            by (intro lost [of e]) (auto simp: after_page_def)
        qed
      qed
    qed
  qed
qed

text \<open>
  Any run returns: each turn either shortens the keys that are left, or shrinks the page, or
  uses up one of the failures allowed at the minimum. What it has handled is a run of the
  keys after its cursor, all of them when it returns normally.
\<close>

lemma loop_returns:
  assumes "1 \<le> m" and "m \<le> ls_size ls"
  shows "\<exists>out db' q. page_loop p step rk m ls db = Some (out, db') \<and>
    handled (world db') = handled (world db) @ q \<and> prefix q (after keys (ls_cursor ls)) \<and>
    (\<forall>n. out = Returned n \<longrightarrow> q = after keys (ls_cursor ls) \<and> n = ls_total ls + int (length q))"
  using assms(2)
proof (induction ls arbitrary: db rule: wf_induct_rule [OF wf_measures, of
    "[\<lambda>ls. length (after keys (ls_cursor ls)), \<lambda>ls. nat (ls_size ls), \<lambda>ls. 3 - ls_failures ls]"])
  case (1 ls)
  obtain r db1 where turn: "page_turn p step rk m ls db = (r, db1)" by fastforce
  show ?case
  proof (rule turn_cases [OF turn assms(1) "1.prems"])
    fix ls' assume r: "r = Inr ls'" and h: "handled (world db1) = handled (world db)"
      and c: "ls_cursor ls' = ls_cursor ls" "ls_total ls' = ls_total ls" and m: "m \<le> ls_size ls'"
      and less: "ls_size ls' < ls_size ls \<or> ls_size ls' = ls_size ls \<and> 3 - ls_failures ls' < 3 - ls_failures ls"
    have "(ls', ls) \<in> measures [\<lambda>ls. length (after keys (ls_cursor ls)), \<lambda>ls. nat (ls_size ls), \<lambda>ls. 3 - ls_failures ls]"
      using c less m assms(1) by auto
    from "1.IH" [OF this m, of db1] c h r turn show ?thesis by (simp add: page_loop.simps [of p step rk m ls])
  next
    let ?g = "page_of keys (ls_cursor ls) (ls_size ls)"
    let ?ls = "ls\<lparr>ls_cursor := last ?g, ls_total := ls_total ls + int (length ?g), ls_failures := 0\<rparr>"
    assume g: "?g \<noteq> []" and r: "r = Inr ?ls" and h: "handled (world db1) = handled (world db) @ ?g"
    note split = after_page_of [OF sorted_keys distinct_keys g]
    have rest: "after keys (ls_cursor ls) = ?g @ after keys (last ?g)"
      unfolding split(1) by (simp add: page_of_def min_def)
    then have "(?ls, ls) \<in> measures [\<lambda>ls. length (after keys (ls_cursor ls)), \<lambda>ls. nat (ls_size ls), \<lambda>ls. 3 - ls_failures ls]"
      using g by simp
    from "1.IH" [OF this, of db1] "1.prems" obtain out db' q where
      "page_loop p step rk m ?ls db1 = Some (out, db')" "handled (world db') = handled (world db1) @ q"
      "prefix q (after keys (last ?g))"
      "\<forall>n. out = Returned n \<longrightarrow> q = after keys (last ?g) \<and> n = ls_total ls + int (length ?g) + int (length q)"
      by auto
    moreover from this r turn have "page_loop p step rk m ls db = Some (out, db')"
      by (simp add: page_loop.simps [of p step rk m ls db])
    moreover have "handled (world db') = handled (world db) @ ?g @ q" using h calculation(2) by simp
    moreover have "prefix (?g @ q) (after keys (ls_cursor ls))" using rest calculation(3) by simp
    moreover have "\<forall>n. out = Returned n \<longrightarrow> ?g @ q = after keys (ls_cursor ls) \<and> n = ls_total ls + int (length (?g @ q))"
    proof (intro allI impI)
      fix n assume "out = Returned n"
      with calculation(4) have "q = after keys (last ?g)" "n = ls_total ls + int (length ?g) + int (length q)" by blast+
      then show "?g @ q = after keys (ls_cursor ls) \<and> n = ls_total ls + int (length (?g @ q))" using rest by simp
    qed
    ultimately show ?thesis by blast
  next
    fix e let ?g = "page_of keys (ls_cursor ls) (ls_size ls)"
    assume "r = Inl (Raised e)" and "handled (world db1) = handled (world db) @ ?g"
    with turn show ?thesis
      by (intro exI [of _ "Raised e"] exI [of _ db1] exI [of _ ?g])
        (simp add: page_loop.simps [of p step rk m ls] page_of_def take_is_prefix)
  qed (use turn in \<open>simp_all add: page_loop.simps [of p step rk m ls]\<close>)
qed

text \<open>
  Where a step stands: the keys up to its committed cursor have been handled, each once and in
  order, and nothing else. A checkpoint of another run counts as none.
\<close>

definition position :: "pystr \<Rightarrow> pystr \<Rightarrow> 'w database \<Rightarrow> pystr \<Rightarrow> bool" where
  "position rk step db c \<longleftrightarrow> handled (world db) = upto_cursor keys c \<and>
     (case checkpoints db step of
        None \<Rightarrow> c = START_CURSOR
      | Some sc \<Rightarrow> if sc_run_key sc = rk then cp_cursor sc = c \<and> (cp_done sc \<longrightarrow> after keys c = [])
                   else c = START_CURSOR)"

lemma loop_position:
  assumes "1 \<le> m" and reliable: "\<And>w e w'. session p w \<noteq> (Some e, w')"
    and "m \<le> ls_size ls" and "position rk step db (ls_cursor ls)"
    and "page_loop p step (Some rk) m ls db = Some (out, db')"
  shows "\<exists>c. position rk step db' c \<and> (\<forall>n. out = Returned n \<longrightarrow> after keys c = [] \<and>
    (\<exists>sc. checkpoints db' step = Some sc \<and> sc_run_key sc = rk \<and> cp_done sc))"
  using assms(3-5)
proof (induction ls arbitrary: db rule: wf_induct_rule [OF wf_measures, of
    "[\<lambda>ls. length (after keys (ls_cursor ls)), \<lambda>ls. nat (ls_size ls), \<lambda>ls. 3 - ls_failures ls]"])
  case (1 ls)
  obtain r db1 where turn: "page_turn p step (Some rk) m ls db = (r, db1)" by fastforce
  have unfold: "page_loop p step (Some rk) m ls db = (case page_turn p step (Some rk) m ls db of
      (Inl out, db') \<Rightarrow> Some (out, db') | (Inr ls', db') \<Rightarrow> page_loop p step (Some rk) m ls' db')" for db
    by (rule page_loop.simps)
  show ?case
  proof (rule turn_cases [OF turn assms(1) "1.prems"(1)])
    fix ls' assume r: "r = Inr ls'" and h: "handled (world db1) = handled (world db)"
      and cps: "checkpoints db1 = checkpoints db"
      and c: "ls_cursor ls' = ls_cursor ls" "ls_total ls' = ls_total ls" and m: "m \<le> ls_size ls'"
      and less: "ls_size ls' < ls_size ls \<or> ls_size ls' = ls_size ls \<and> 3 - ls_failures ls' < 3 - ls_failures ls"
    have "(ls', ls) \<in> measures [\<lambda>ls. length (after keys (ls_cursor ls)), \<lambda>ls. nat (ls_size ls), \<lambda>ls. 3 - ls_failures ls]"
      using c less m assms(1) by auto
    moreover have "position rk step db1 (ls_cursor ls')"
      using "1.prems"(2) h cps c by (simp add: position_def)
    ultimately show ?thesis using "1.IH" m "1.prems"(3) turn r by (simp add: unfold [of db])
  next
    let ?g = "page_of keys (ls_cursor ls) (ls_size ls)"
    let ?ls = "ls\<lparr>ls_cursor := last ?g, ls_total := ls_total ls + int (length ?g), ls_failures := 0\<rparr>"
    assume g: "?g \<noteq> []" and r: "r = Inr ?ls" and h: "handled (world db1) = handled (world db) @ ?g"
      and cps: "checkpoints db1 = (case Some rk of None \<Rightarrow> checkpoints db
        | Some k \<Rightarrow> (checkpoints db)(step \<mapsto> \<lparr>cp_cursor = last ?g, cp_size = Some (ls_size ls),
                       cp_done = False, sc_run_key = k\<rparr>))"
    note split = after_page_of [OF sorted_keys distinct_keys g]
    have "after keys (ls_cursor ls) = ?g @ after keys (last ?g)"
      unfolding split(1) by (simp add: page_of_def min_def)
    then have "(?ls, ls) \<in> measures [\<lambda>ls. length (after keys (ls_cursor ls)), \<lambda>ls. nat (ls_size ls), \<lambda>ls. 3 - ls_failures ls]"
      using g by simp
    moreover have "position rk step db1 (ls_cursor ?ls)"
      using "1.prems"(2) h cps split(2) by (simp add: position_def)
    ultimately show ?thesis using "1.IH" [of ?ls db1] "1.prems"(1,3) turn r by (simp add: unfold [of db])
  next
    fix e assume "r = Inl (Raised e)" and "handled (world db1) = handled (world db)"
      and "checkpoints db1 = checkpoints db"
    with "1.prems"(2,3) turn show ?thesis
      by (intro exI [of _ "ls_cursor ls"]) (auto simp: position_def unfold [of db])
  next
    assume "r = Inl (Returned (ls_total ls))" and "handled (world db1) = handled (world db)"
      and "after keys (ls_cursor ls) = []"
      and "checkpoints db1 = (case Some rk of None \<Rightarrow> checkpoints db
        | Some k \<Rightarrow> (checkpoints db)(step \<mapsto> \<lparr>cp_cursor = ls_cursor ls, cp_size = Some (ls_size ls),
                       cp_done = True, sc_run_key = k\<rparr>))"
    with "1.prems"(2,3) turn show ?thesis
      by (intro exI [of _ "ls_cursor ls"]) (auto simp: position_def unfold [of db])
  next
    fix e assume "\<exists>w w'. session p w = (Some e, w')"
    then obtain w w' where "session p w = (Some e, w')" by blast
    with reliable [of w e w'] show ?thesis by simp
  qed
qed

lemma start_size_bounds: "1 \<le> m \<Longrightarrow> m \<le> start_size m n c \<and> (m \<le> n \<longrightarrow> start_size m n c \<le> n)"
  by (simp add: start_size_def)

lemma step_returns:
  assumes "1 \<le> m"
  shows "\<exists>out db' q. run_checkpointed_step p step rk n m db = Some (out, db') \<and>
    handled (world db') = handled (world db) @ q \<and> (\<exists>c. prefix q (after keys c))"
proof -
  have loop: "\<exists>out db' q. page_loop p step rk m (start_state m n c) db1 = Some (out, db') \<and>
    handled (world db') = handled (world db1) @ q \<and> (\<exists>c. prefix q (after keys c))" for c db1
    using loop_returns [of m "start_state m n c" step rk db1] assms start_size_bounds [of m n c]
    by (fastforce simp: start_state_def)
  show ?thesis
  proof (cases rk)
    case None
    with loop show ?thesis by (simp add: run_checkpointed_step_def)
  next
    case (Some k)
    obtain r db1 where read: "read_checkpoint p step k db = (r, db1)" by fastforce
    then have h: "handled (world db1) = handled (world db)"
      by (auto simp: read_checkpoint_def split: prod.splits option.splits dest: session_ok)
    have stop: "\<exists>out db' q. Some (out', db1) = Some (out, db') \<and>
      handled (world db') = handled (world db) @ q \<and> (\<exists>c. prefix q (after keys c))" for out'
      using h by (intro exI [of _ out'] exI [of _ db1] exI [of _ "[]"]) simp
    show ?thesis
    proof (cases r)
      case (Inl e)
      with Some read stop show ?thesis by (simp add: run_checkpointed_step_def)
    next
      case (Inr c)
      with Some read stop loop [of c db1] h show ?thesis by (cases "cp_done c") (simp_all add: run_checkpointed_step_def)
    qed
  qed
qed

lemma step_position:
  assumes "1 \<le> m" and reliable: "\<And>w e w'. session p w \<noteq> (Some e, w')"
    and "position rk step db c" and run: "run_checkpointed_step p step (Some rk) n m db = Some (out, db')"
  shows "\<exists>c'. position rk step db' c' \<and> (\<forall>k. out = Returned k \<longrightarrow> after keys c' = [])"
proof -
  obtain w where s: "session p (world db) = (None, w)" using reliable by (cases "session p (world db)") auto
  let ?db = "db\<lparr>world := w\<rparr>"
  define cp where "cp = (case checkpoints db step of
                  None \<Rightarrow> fresh_checkpoint
                | Some c \<Rightarrow> if sc_run_key c \<noteq> rk then fresh_checkpoint
                            else \<lparr>cp_cursor = cp_cursor c, cp_size = cp_size c, cp_done = cp_done c\<rparr>)"
  have read: "read_checkpoint p step rk db = (Inr cp, ?db)"
    using s by (simp add: read_checkpoint_def cp_def)
  have pos: "position rk step ?db c" using assms(3) session_ok [OF s] by (simp add: position_def)
  have cur: "cp_cursor cp = c" "cp_done cp \<longrightarrow> after keys c = []"
    using assms(3) by (auto simp: position_def cp_def fresh_checkpoint_def split: option.splits if_splits)
  show ?thesis
  proof (cases "cp_done cp")
    case True
    with run read have "db' = ?db" by (simp add: run_checkpointed_step_def)
    with pos cur True show ?thesis by auto
  next
    case False
    with run read have loop: "page_loop p step (Some rk) m (start_state m n cp) ?db = Some (out, db')"
      by (simp add: run_checkpointed_step_def)
    have "m \<le> ls_size (start_state m n cp)" and "position rk step ?db (ls_cursor (start_state m n cp))"
      using start_size_bounds [OF assms(1), of n cp] pos cur by (simp_all add: start_state_def)
    from loop_position [OF assms(1) reliable this loop] show ?thesis by blast
  qed
qed

end

section \<open>The processors meet the contract\<close>

text \<open>
  The database the page statements run on, over a fixed key space: the keys recomputed so
  far, and a schedule of the statements' faults. A page statement is one transaction: it recomputes the
  nodes of its page and reports them, or rolls back. Listing keys changes nothing.
\<close>

record page_world =
  pw_handled :: "pystr list"
  pw_faults :: "page_error option list"
  pw_stops :: "bool list"

definition next_fault :: "page_world \<Rightarrow> page_error option \<times> page_world" where
  "next_fault w = (case pw_faults w of [] \<Rightarrow> (None, w) | f # fs \<Rightarrow> (f, w\<lparr>pw_faults := fs\<rparr>))"

definition page_statement ::
  "pystr list \<Rightarrow> pystr \<Rightarrow> int \<Rightarrow> page_world \<Rightarrow> (page_error + (pystr option \<times> int option) option) \<times> page_world" where
  "page_statement keys c n w =
     (case next_fault w of
        (Some e, w') \<Rightarrow> (Inl e, w')
      | (None, w') \<Rightarrow>
          (let g = page_of keys c n in
           (Inr (Some (if g = [] then None else Some (last g), Some (int (length g)))),
            w'\<lparr>pw_handled := pw_handled w' @ g\<rparr>)))"

text \<open>The hook before a page, as a schedule of the times it asks the sweep to stop.\<close>

definition stop_hook :: "page_world \<Rightarrow> page_error option \<times> page_world" where
  "stop_hook w =
     (case pw_stops w of
        [] \<Rightarrow> (None, w)
      | b # bs \<Rightarrow> (if b then Some MaintenanceStopped else None, w\<lparr>pw_stops := bs\<rparr>))"

definition keyed_paging :: "pystr list \<Rightarrow> page_world paging" where
  "keyed_paging keys =
     \<lparr>before_page = Some stop_hook, process_page = keyed_page_processor (page_statement keys),
      session = (\<lambda>w. (None, w))\<rparr>"

lemma next_fault_handled: "next_fault w = (r, w') \<Longrightarrow> pw_handled w' = pw_handled w"
  by (auto simp: next_fault_def split: list.splits)

definition key_space :: "pystr list \<Rightarrow> bool" where
  "key_space keys \<longleftrightarrow> sorted keys \<and> distinct keys \<and> [] \<notin> set keys"

typedef key_list = "{keys. key_space keys}"
  by (rule exI [of _ "[]"]) (simp add: key_space_def)

interpretation keyed: page_source "keyed_paging (Rep_key_list keys)" "Rep_key_list keys" pw_handled
  for keys
proof
  have ok: "key_space (Rep_key_list keys)" using Rep_key_list by simp
  then show "sorted (Rep_key_list keys)" "distinct (Rep_key_list keys)" "[] \<notin> set (Rep_key_list keys)"
    by (simp_all add: key_space_def)
qed (auto simp: keyed_paging_def keyed_page_processor_def page_statement_def Let_def stop_hook_def
    split: prod.splits option.splits list.splits dest!: next_fault_handled)

section \<open>Properties of a sweep\<close>


definition demo_keys :: key_list where
  "demo_keys = Abs_key_list [[1], [2], [3]]"

lemma Rep_demo_keys: "Rep_key_list demo_keys = [[1], [2], [3]]"
  unfolding demo_keys_def by (rule Abs_key_list_inverse) (simp add: key_space_def)

definition demo_db :: "page_world database" where
  "demo_db = \<lparr>world = \<lparr>pw_handled = [], pw_faults = [Some TransientError], pw_stops = [False, False, True]\<rparr>,
     checkpoints = Map.empty\<rparr>"


text \<open>Repeated passes over one step under one run key, as retries and restarts make them.\<close>

fun passes :: "'w paging \<Rightarrow> pystr \<Rightarrow> pystr \<Rightarrow> int \<Rightarrow> int \<Rightarrow> nat \<Rightarrow> 'w database \<Rightarrow>
    (outcome list \<times> 'w database) option" where
  "passes p step rk n m 0 db = Some ([], db)"
| "passes p step rk n m (Suc i) db =
     (case run_checkpointed_step p step (Some rk) n m db of
        None \<Rightarrow> None
      | Some (out, db') \<Rightarrow> map_option (\<lambda>(outs, db''). (out # outs, db'')) (passes p step rk n m i db'))"

lemma passes_position:
  assumes "1 \<le> m" and "keyed.position keys rk step db c"
    and "passes (keyed_paging (Rep_key_list keys)) step rk n m i db = Some (outs, db')"
  shows "(\<exists>c'. keyed.position keys rk step db' c') \<and>
    (pw_handled (world db) = Rep_key_list keys \<or> (\<exists>k. Returned k \<in> set outs) \<longrightarrow>
       pw_handled (world db') = Rep_key_list keys)"
  using assms(2,3)
proof (induction i arbitrary: db c outs)
  case 0
  then show ?case by auto
next
  case (Suc i)
  let ?p = "keyed_paging (Rep_key_list keys)"
  from Suc.prems(2) obtain out db1 outs1 where run: "run_checkpointed_step ?p step (Some rk) n m db = Some (out, db1)"
    and rest: "passes ?p step rk n m i db1 = Some (outs1, db')" and outs: "outs = out # outs1"
    by (auto split: option.splits)
  have reliable: "session ?p w \<noteq> (Some e, w')" for w e w' by (simp add: keyed_paging_def)
  from keyed.step_position [OF assms(1) reliable Suc.prems(1) run] obtain c1
    where c1: "keyed.position keys rk step db1 c1" and fin: "\<forall>k. out = Returned k \<longrightarrow> after (Rep_key_list keys) c1 = []"
    by blast
  from keyed.step_returns [OF assms(1), of keys step "Some rk" n db] run obtain q
    where q: "pw_handled (world db1) = pw_handled (world db) @ q" by auto
  have h1: "pw_handled (world db1) = upto_cursor (Rep_key_list keys) c1"
    using c1 by (simp add: keyed.position_def)
  have "pw_handled (world db1) = Rep_key_list keys"
    if "pw_handled (world db) = Rep_key_list keys \<or> (\<exists>k. out = Returned k)"
  proof (cases "\<exists>k. out = Returned k")
    case True
    with fin h1 keyed.upto_all show ?thesis by metis
  next
    case False
    with that q h1 have "Rep_key_list keys @ q = upto_cursor (Rep_key_list keys) c1" by simp
    then have "length (Rep_key_list keys @ q) \<le> length (Rep_key_list keys)"
      by (metis length_filter_le upto_cursor_def)
    then have "q = []" by simp
    with that q False show ?thesis by simp
  qed
  with Suc.IH [OF c1 rest] outs show ?case by auto
qed


declare page_loop.simps [code]

lemma demo_passes:
  "case passes (keyed_paging [[1], [2], [3]]) [1] [2] 2 1 2 demo_db of
     None \<Rightarrow> False | Some (outs, db') \<Rightarrow> outs = [Raised MaintenanceStopped, Returned 2]"
  by code_simp


text \<open>
  A step that is done under a run key is skipped by every later pass of that run: it
  reports no work and leaves the database as it is.
\<close>

theorem done_step_skipped:
  assumes "checkpoints db step = Some sc" and "sc_run_key sc = rk" and "cp_done sc"
    and "\<And>w. session p w = (None, w)"
  shows "run_checkpointed_step p step (Some rk) n m db = Some (Returned 0, db)"
  using assms by (simp add: run_checkpointed_step_def read_checkpoint_def)

lemma done_step_skipped_witness:
  "let db = demo_db\<lparr>checkpoints := [[1] \<mapsto> \<lparr>cp_cursor = [3], cp_size = Some 1, cp_done = True, sc_run_key = [2]\<rparr>]\<rparr>
   in run_checkpointed_step (keyed_paging [[1]]) [1] (Some [2]) 5 1 db = Some (Returned 0, db)"
  unfolding Let_def
  by (rule done_step_skipped [where sc = "\<lparr>cp_cursor = [3], cp_size = Some 1, cp_done = True, sc_run_key = [2]\<rparr>"])
    (simp_all add: keyed_paging_def)

text \<open>The turns of a page that keeps failing with a retryable error.\<close>

fun failing :: "int \<Rightarrow> page_error \<Rightarrow> nat \<Rightarrow> loop_state \<Rightarrow> outcome + loop_state" where
  "failing m e 0 ls = Inr ls"
| "failing m e (Suc k) ls = (case after_failure m e ls of Inl out \<Rightarrow> Inl out | Inr ls' \<Rightarrow> failing m e k ls')"

lemma failing_at_min:
  assumes "is_page_retryable e" and "ls_size ls = m" and "ls_failures ls = 0"
  shows "failing m e 2 ls = Inr (ls\<lparr>ls_failures := 2\<rparr>)" and "failing m e 3 ls = Inl (Raised e)"
  using assms by (simp_all add: numeral_2_eq_2 numeral_3_eq_3 after_failure_def MAX_FAILURES_AT_MIN_PAGE_def Let_def)

lemma failing_add: "failing m e (j + k) ls = (case failing m e j ls of Inl out \<Rightarrow> Inl out | Inr ls' \<Rightarrow> failing m e k ls')"
  by (induction j arbitrary: ls) (auto split: sum.splits)

text \<open>
  The backoff is bounded: a page of size \<open>m * 2 ^ k\<close> that keeps failing with retryable
  errors is halved \<open>k\<close> times down to the minimum \<open>m\<close>, tolerated twice more there, and the
  third failure at the minimum is raised; the cursor never moves.
\<close>

theorem backoff_bounded:
  assumes "is_page_retryable e" and "1 \<le> m" and "ls_size ls = m * 2 ^ k" and "ls_failures ls = 0"
  shows "failing m e k ls = Inr (ls\<lparr>ls_size := m\<rparr>) \<and>
    failing m e (k + 2) ls = Inr (ls\<lparr>ls_size := m, ls_failures := 2\<rparr>) \<and>
    failing m e (k + 3) ls = Inl (Raised e)"
proof -
  have "failing m e k ls = Inr (ls\<lparr>ls_size := m\<rparr>)"
    using assms(3)
  proof (induction k arbitrary: ls)
    case (Suc k)
    have p: "1 \<le> m * 2 ^ k" using assms(2) by (simp add: mult_pos_pos int_one_le_iff_zero_less)
    have "m \<le> m * 2 ^ k" using assms(2) by simp
    moreover have "m * 2 ^ Suc k = 2 * (m * 2 ^ k)" by simp
    ultimately have "m < m * 2 ^ Suc k" using assms(2) by linarith
    moreover have "m * 2 ^ Suc k div 2 = m * 2 ^ k" "max m (m * 2 ^ k) = m * 2 ^ k"
      using assms(2) by simp_all
    ultimately have "after_failure m e ls = Inr (ls\<lparr>ls_size := m * 2 ^ k\<rparr>)"
      using Suc.prems assms(1) by (simp add: after_failure_def)
    with Suc.IH [of "ls\<lparr>ls_size := m * 2 ^ k\<rparr>"] show ?case by simp
  qed simp
  moreover have "failing m e (k + 2) ls = Inr (ls\<lparr>ls_size := m, ls_failures := 2\<rparr>)"
    and "failing m e (k + 3) ls = Inl (Raised e)"
    using calculation failing_at_min [OF assms(1), of "ls\<lparr>ls_size := m\<rparr>" m] assms(4)
    unfolding failing_add by simp_all
  ultimately show ?thesis by blast
qed

lemma backoff_bounded_witness:
  "failing 1 TransientError (3 + 3) \<lparr>ls_cursor = [], ls_size = 1 * 2 ^ 3, ls_total = 0, ls_failures = 0\<rparr> =
     Inl (Raised TransientError)"
  using backoff_bounded [of TransientError 1 "\<lparr>ls_cursor = [], ls_size = 1 * 2 ^ 3, ls_total = 0, ls_failures = 0\<rparr>" 3]
  by (simp add: is_page_retryable_def)

text \<open>
  A listing page of several statements per key is reported as processed only when every
  statement of every key has run; if one raises, the page raises it, whatever ran before.
\<close>

theorem per_key_page_complete:
  assumes "list_keys c n w = (Inr ks, w1)"
    and "per_key_page_processor list_keys stmts run c n w = (r, w2)"
  shows "let todo = concat (map (\<lambda>k. map (\<lambda>x. (k, x)) (stmts k)) ks) in
    r = Inr (if ks = [] then None else Some (last ks), int (length ks)) \<and>
      run_statements run todo w1 = (None, w2) \<or>
    (\<exists>e. r = Inl e \<and> run_statements run todo w1 = (Some e, w2))"
  using assms by (auto simp: per_key_page_processor_def Let_def split: prod.splits option.splits)

lemma per_key_page_complete_witness:
  "per_key_page_processor (\<lambda>c n w. (Inr [[1], [2]], w)) (\<lambda>k. [0 :: nat, 1]) (\<lambda>kc w. (None, w @ [kc])) [] 2 [] =
     (Inr (Some [2], 2), [([1], 0), ([1], 1), ([2], 0), ([2], 1)])"
proof -
  let ?p = "per_key_page_processor (\<lambda>c n w. (Inr [[1], [2]], w)) (\<lambda>k. [0 :: nat, 1]) (\<lambda>kc w. (None, w @ [kc])) [] 2 []"
  obtain r w2 where run: "?p = (r, w2)" by fastforce
  have keys: "(\<lambda>c n w. (Inr [[1], [2]], w)) [] 2 [] = (Inr [[1], [2]], [] :: (pystr \<times> nat) list)" by simp
  from per_key_page_complete [OF keys run] run show ?thesis by simp
qed

end
