(* ===== verification/SweepContract.thy ===== *)
theory SweepContract
  imports MaintenancePaging
begin

text \<open>
  What a sweep over a changing database relies on, and what its passes then achieve. The keys
  are read off the world; a page that comes back has made its keys current; whatever a page,
  a hook or a session does, failed or not, keeps the keys and what is already current. This
  contract fits pages that are several transactions as well as pages that are one.
\<close>

locale sweep_effect =
  fixes p :: "'w paging" and keys :: "'w \<Rightarrow> pystr list" and current :: "'w \<Rightarrow> pystr \<Rightarrow> bool"
    and steady :: "'w \<Rightarrow> 'w \<Rightarrow> bool"
  assumes steady_refl: "steady w w" and steady_trans: "steady u v \<Longrightarrow> steady v w \<Longrightarrow> steady u w"
    and steady_keys: "steady w w' \<Longrightarrow> keys w' = keys w"
    and steady_current: "steady w w' \<Longrightarrow> current w k \<Longrightarrow> current w' k"
    and sorted_keys: "sorted (keys w)" and distinct_keys: "distinct (keys w)" and key_nonempty: "[] \<notin> set (keys w)"
    and page_ok: "process_page p c n w = (Inr (l, m), w') \<Longrightarrow> 1 \<le> n \<Longrightarrow>
      steady w w' \<and> (\<forall>k \<in> set (page_of (keys w) c n). current w' k) \<and> m = int (length (page_of (keys w) c n)) \<and>
      l = (if page_of (keys w) c n = [] then None else Some (last (page_of (keys w) c n)))"
    and page_failed: "process_page p c n w = (Inl e, w') \<Longrightarrow> 1 \<le> n \<Longrightarrow> steady w w'"
    and before_ok: "before_page p = Some f \<Longrightarrow> f w = (r, w') \<Longrightarrow> steady w w'"
    and session_ok: "session p w = (r, w') \<Longrightarrow> steady w w'"

context sweep_effect
begin

lemma page_empty: "1 \<le> n \<Longrightarrow> page_of (keys w) c n = [] \<longleftrightarrow> after (keys w) c = []"
  by (auto simp: page_of_def)

text \<open>
  Where a step stands: the keys up to its cursor are current, and the cursor is the one its
  checkpoint holds; a checkpoint of another run counts as none.
\<close>

definition stored :: "pystr \<Rightarrow> pystr \<Rightarrow> 'w database \<Rightarrow> checkpoint" where
  "stored rk step db =
     (case checkpoints db step of
        None \<Rightarrow> fresh_checkpoint
      | Some c \<Rightarrow> if sc_run_key c \<noteq> rk then fresh_checkpoint
                  else \<lparr>cp_cursor = cp_cursor c, cp_size = cp_size c, cp_done = cp_done c\<rparr>)"

definition reached :: "'w \<Rightarrow> pystr \<Rightarrow> bool" where
  "reached w c \<longleftrightarrow> (\<forall>k \<in> set (upto_cursor (keys w) c). current w k)"

definition progress :: "pystr \<Rightarrow> pystr \<Rightarrow> 'w database \<Rightarrow> bool" where
  "progress rk step db \<longleftrightarrow> (let c = stored rk step db in
     reached (world db) (cp_cursor c) \<and> (cp_done c \<longrightarrow> after (keys (world db)) (cp_cursor c) = []))"

lemma reached_steady: "steady w w' \<Longrightarrow> reached w c \<Longrightarrow> reached w' c"
  by (auto simp: reached_def steady_keys dest: steady_current)

lemma reached_all: "reached w c \<Longrightarrow> after (keys w) c = [] \<Longrightarrow> k \<in> set (keys w) \<Longrightarrow> current w k"
  by (auto simp: reached_def after_def upto_cursor_def filter_empty_conv not_less)

lemma reached_start: "reached w START_CURSOR"
  using key_nonempty [of w] by (auto simp: reached_def upto_cursor_def START_CURSOR_def)

lemma reached_next:
  assumes "reached w c" and "steady w w'" and "page_of (keys w) c n \<noteq> []"
    and "\<forall>k \<in> set (page_of (keys w) c n). current w' k"
  shows "reached w' (last (page_of (keys w) c n))"
  using assms after_page_of(2) [OF sorted_keys distinct_keys assms(3)] reached_steady [OF assms(2,1)]
  by (auto simp: reached_def steady_keys [OF assms(2)])

text \<open>The effect of a commit, and the ways a turn of the loop can go.\<close>

lemma commit_effect:
  "commit p step (Some rk) c db = (r, db') \<Longrightarrow> steady (world db) (world db') \<and>
     checkpoints db' = (if r = None then (checkpoints db)(step \<mapsto>
            \<lparr>cp_cursor = cp_cursor c, cp_size = cp_size c, cp_done = cp_done c, sc_run_key = rk\<rparr>) else checkpoints db)"
  by (auto simp: commit_def write_checkpoint_def split: prod.splits option.splits dest: session_ok)

lemma stored_commit:
  "checkpoints db' step = Some \<lparr>cp_cursor = a, cp_size = b, cp_done = d, sc_run_key = rk\<rparr> \<Longrightarrow>
     stored rk step db' = \<lparr>cp_cursor = a, cp_size = b, cp_done = d\<rparr>"
  by (simp add: stored_def)

lemma turn_effect:
  assumes turn: "page_turn p step (Some rk) m ls db = (r, db')" and m: "1 \<le> m" "m \<le> ls_size ls"
    and reached: "reached (world db) (ls_cursor ls)" and prog: "progress rk step db"
  shows "steady (world db) (world db') \<and> progress rk step db' \<and> (\<forall>s. s \<noteq> step \<longrightarrow> checkpoints db' s = checkpoints db s) \<and>
    (case r of
       Inl (Raised e) \<Rightarrow> True
     | Inl (Returned n) \<Rightarrow> cp_done (stored rk step db') \<and> reached (world db') (cp_cursor (stored rk step db'))
     | Inr ls' \<Rightarrow> m \<le> ls_size ls' \<and> reached (world db') (ls_cursor ls') \<and>
         (ls', ls) \<in> measures [\<lambda>ls. length (after (keys (world db)) (ls_cursor ls)), \<lambda>ls. nat (ls_size ls), \<lambda>ls. 3 - ls_failures ls])"
proof -
  have keep: "progress rk step h" if "steady (world db) (world h)" "checkpoints h = checkpoints db" for h
    using prog that reached_steady [OF that(1)]
    by (auto simp: progress_def stored_def Let_def steady_keys [OF that(1)])
  let ?b = "case before_page p of None \<Rightarrow> (None, world db) | Some f \<Rightarrow> f (world db)"
  obtain be w where b: "?b = (be, w)" by (cases ?b)
  then have sw: "steady (world db) w" by (auto split: option.splits intro: steady_refl dest: before_ok)
  show ?thesis
  proof (cases be)
    case (Some e)
    with turn b sw keep [of "db\<lparr>world := w\<rparr>"] show ?thesis by (auto simp: page_turn_def)
  next
    case None
    obtain q w' where q: "process_page p (ls_cursor ls) (ls_size ls) w = (q, w')"
      by (cases "process_page p (ls_cursor ls) (ls_size ls) w")
    let ?h = "db\<lparr>world := w'\<rparr>"
    show ?thesis
    proof (cases q)
      case (Inl e)
      with q page_failed [of "ls_cursor ls" "ls_size ls" w e w'] m sw have s: "steady (world db) w'"
        using steady_trans by auto
      from turn b None q Inl have r: "r = after_failure m e ls" "db' = ?h" by (simp_all add: page_turn_def)
      show ?thesis
        using m keep [of ?h] s reached_steady [OF s reached] unfolding r
        by (auto simp: after_failure_def Let_def MAX_FAILURES_AT_MIN_PAGE_def)
    next
      case (Inr lm)
      obtain l n where lm: "lm = (l, n)" by (cases lm)
      let ?g = "page_of (keys w) (ls_cursor ls) (ls_size ls)"
      have ok: "steady w w'" "\<forall>k \<in> set ?g. current w' k" "n = int (length ?g)"
        "l = (if ?g = [] then None else Some (last ?g))"
        using page_ok [of "ls_cursor ls" "ls_size ls" w l n w'] q Inr lm m by auto
      have s: "steady (world db) w'" using steady_trans sw ok(1) by blast
      have kw: "keys w = keys (world db)" by (rule steady_keys [OF sw])
      from turn b None q Inr lm have r: "after_page p step (Some rk) l n ls ?h = (r, db')"
        by (simp add: page_turn_def)
      let ?c = "if ?g = [] then \<lparr>cp_cursor = ls_cursor ls, cp_size = Some (ls_size ls), cp_done = True\<rparr>
          else \<lparr>cp_cursor = last ?g, cp_size = Some (ls_size ls), cp_done = False\<rparr>"
      obtain x db1 where c: "commit p step (Some rk) ?c ?h = (x, db1)" by fastforce
      note ce = commit_effect [OF c]
      have s1: "steady (world db) (world db1)" using steady_trans [OF s] ce by simp
      have db1: "db' = db1" and rx: "r = (case x of Some e \<Rightarrow> Inl (Raised e) | None \<Rightarrow>
          if ?g = [] then Inl (Returned (ls_total ls))
          else Inr (ls\<lparr>ls_cursor := last ?g, ls_total := ls_total ls + n, ls_failures := 0\<rparr>))"
        using r c ok(3,4) by (auto simp: after_page_def split: option.splits if_splits)
      have others: "\<forall>s. s \<noteq> step \<longrightarrow> checkpoints db1 s = checkpoints db s" using ce by simp
      show ?thesis
      proof (cases x)
        case (Some e)
        with ce have "checkpoints db1 = checkpoints db" by simp
        with Some s1 keep [OF s1] show ?thesis unfolding db1 rx by simp
      next
        case None
        note x = this
        show ?thesis
        proof (cases "?g = []")
          case True
          have st: "stored rk step db1 = \<lparr>cp_cursor = ls_cursor ls, cp_size = Some (ls_size ls), cp_done = True\<rparr>"
            using ce True x by (intro stored_commit) simp
          have "after (keys (world db1)) (ls_cursor ls) = []"
            using True page_empty [of "ls_size ls" w "ls_cursor ls"] m kw steady_keys [OF s1] by simp
          with s1 reached_steady [OF s1 reached] True x others show ?thesis
            unfolding db1 rx progress_def st by simp
        next
          case False
          have st: "stored rk step db1 = \<lparr>cp_cursor = last ?g, cp_size = Some (ls_size ls), cp_done = False\<rparr>"
            using ce False x by (intro stored_commit) simp
          have "reached w (ls_cursor ls)" by (rule reached_steady [OF sw reached])
          from reached_next [OF this ok(1) False ok(2)] have "reached w' (last ?g)" .
          then have re: "reached (world db1) (last ?g)" by (rule reached_steady [rotated]) (use ce in simp)
          have "after (keys w) (ls_cursor ls) = ?g @ after (keys w) (last ?g)"
            unfolding after_page_of(1) [OF sorted_keys distinct_keys False] by (simp add: page_of_def min_def)
          then have "length (after (keys (world db)) (last ?g)) < length (after (keys (world db)) (ls_cursor ls))"
            using False unfolding kw by (metis length_append length_greater_0_conv less_add_same_cancel2)
          with s1 re m False x others show ?thesis unfolding db1 rx progress_def st by simp
        qed
      qed
    qed
  qed
qed

text \<open>A run of the loop returns; it keeps the progress made, and a normal return means all of it.\<close>

definition settled :: "pystr \<Rightarrow> pystr \<Rightarrow> 'w database \<Rightarrow> outcome \<Rightarrow> 'w database \<Rightarrow> bool" where
  "settled rk step db out db' \<longleftrightarrow> steady (world db) (world db') \<and> progress rk step db' \<and>
     (\<forall>s. s \<noteq> step \<longrightarrow> checkpoints db' s = checkpoints db s) \<and>
     (\<forall>n. out = Returned n \<longrightarrow> cp_done (stored rk step db'))"

lemma loop_effect:
  assumes "1 \<le> m" and "m \<le> ls_size ls" and "reached (world db) (ls_cursor ls)" and "progress rk step db"
  shows "\<exists>out db'. page_loop p step (Some rk) m ls db = Some (out, db') \<and> settled rk step db out db'"
proof -
  define K where "K = keys (world db)"
  from K_def assms(2-) show ?thesis
  proof (induction ls arbitrary: db rule: wf_induct_rule [OF wf_measures, of
      "[\<lambda>ls. length (after K (ls_cursor ls)), \<lambda>ls. nat (ls_size ls), \<lambda>ls. 3 - ls_failures ls]"])
    case (1 ls)
    obtain r db1 where turn: "page_turn p step (Some rk) m ls db = (r, db1)" by fastforce
    note eff = turn_effect [OF turn assms(1) "1.prems"(2-4)]
    show ?case
    proof (cases r)
      case (Inl out)
      with turn have "page_loop p step (Some rk) m ls db = Some (out, db1)"
        by (simp add: page_loop.simps [of p step "Some rk" m ls db])
      with eff Inl show ?thesis by (auto simp: settled_def split: outcome.splits)
    next
      case (Inr ls')
      with turn have "page_loop p step (Some rk) m ls db = page_loop p step (Some rk) m ls' db1"
        by (simp add: page_loop.simps [of p step "Some rk" m ls db])
      moreover have "(ls', ls) \<in> measures [\<lambda>ls. length (after K (ls_cursor ls)), \<lambda>ls. nat (ls_size ls), \<lambda>ls. 3 - ls_failures ls]"
        using eff Inr "1.prems"(1) by simp
      ultimately show ?thesis
        using "1.IH" [of ls' db1] eff Inr "1.prems"(1) steady_keys [of "world db" "world db1"]
        by (auto simp: settled_def intro: steady_trans)
    qed
  qed
qed

text \<open>A pass over the step, from wherever an earlier one of the same run has left it.\<close>

lemma step_effect:
  assumes "1 \<le> m" and "progress rk step db"
  shows "\<exists>out db'. run_checkpointed_step p step (Some rk) n m db = Some (out, db') \<and> settled rk step db out db' \<and>
    (cp_done (stored rk step db) \<longrightarrow> cp_done (stored rk step db'))"
proof -
  obtain e w where s: "session p (world db) = (e, w)" by (cases "session p (world db)")
  let ?h = "db\<lparr>world := w\<rparr>"
  have sw: "steady (world db) w" by (rule session_ok [OF s])
  have prog: "progress rk step ?h"
    using assms(2) reached_steady [OF sw] by (auto simp: progress_def stored_def Let_def steady_keys [OF sw])
  show ?thesis
  proof (cases e)
    case (Some x)
    with s sw prog show ?thesis
      by (simp add: run_checkpointed_step_def read_checkpoint_def settled_def stored_def)
  next
    case None
    have read: "read_checkpoint p step rk db = (Inr (stored rk step db), ?h)"
      using s None by (simp add: read_checkpoint_def stored_def)
    have st: "stored rk step ?h = stored rk step db" by (simp add: stored_def)
    show ?thesis
    proof (cases "cp_done (stored rk step db)")
      case True
      with read sw prog show ?thesis by (simp add: run_checkpointed_step_def settled_def st)
    next
      case False
      let ?ls = "start_state m n (stored rk step db)"
      have "reached (world ?h) (ls_cursor ?ls)"
        using prog by (simp add: progress_def st Let_def start_state_def)
      moreover have "m \<le> ls_size ?ls" by (simp add: start_state_def start_size_def)
      ultimately obtain out db' where "page_loop p step (Some rk) m ?ls ?h = Some (out, db')" "settled rk step ?h out db'"
        using loop_effect [OF assms(1) _ _ prog] by blast
      with False read sw show ?thesis
        by (auto simp: run_checkpointed_step_def settled_def intro: steady_trans)
    qed
  qed
qed

text \<open>Progress survives a change that removes keys and sets no remaining one back.\<close>

lemma progress_mono:
  assumes "progress rk step db" and "set (keys (world db')) \<subseteq> set (keys (world db))"
    and "\<And>k. k \<in> set (keys (world db')) \<Longrightarrow> current (world db) k \<Longrightarrow> current (world db') k"
    and "checkpoints db' step = checkpoints db step"
  shows "progress rk step db'"
  using assms by (auto simp: progress_def stored_def reached_def upto_cursor_def after_def filter_empty_conv Let_def)

lemma finished_current:
  assumes "progress rk step db" and "cp_done (stored rk step db)" and "k \<in> set (keys (world db))"
  shows "current (world db) k"
  using assms reached_all by (auto simp: progress_def Let_def)

lemma progress_fresh:
  "case checkpoints db step of None \<Rightarrow> True | Some c \<Rightarrow> sc_run_key c \<noteq> rk \<Longrightarrow> progress rk step db"
  using reached_start by (auto simp: progress_def stored_def fresh_checkpoint_def split: option.splits)

end

section \<open>Undisturbed sweeps\<close>

text \<open>
  A world in which nothing fails: no page and no session raises, nothing asks the sweep to
  stop, and it stays that way. A sweep that returns then returns normally.
\<close>

locale undisturbed =
  fixes p :: "'w paging" and quiet :: "'w \<Rightarrow> bool"
  assumes no_hook: "before_page p = None"
    and page_quiet: "quiet w \<Longrightarrow> process_page p c n w = (r, w') \<Longrightarrow> quiet w' \<and> (\<exists>x. r = Inr x)"
    and session_quiet: "quiet w \<Longrightarrow> session p w = (e, w') \<Longrightarrow> quiet w' \<and> e = None"

context undisturbed
begin

lemma commit_quiet:
  "quiet (world db) \<Longrightarrow> commit p step rk c db = (r, db') \<Longrightarrow> quiet (world db') \<and> r = None"
  by (auto simp: commit_def write_checkpoint_def split: option.splits prod.splits dest: session_quiet)

lemma turn_quiet:
  assumes "quiet (world db)" and "page_turn p step rk m ls db = (r, db')"
  shows "quiet (world db') \<and> (\<forall>e. r \<noteq> Inl (Raised e))"
proof -
  obtain a w where a: "process_page p (ls_cursor ls) (ls_size ls) (world db) = (a, w)" by fastforce
  from page_quiet [OF assms(1) a] obtain l n where w: "quiet w" and an: "a = Inr (l, n)" by auto
  with assms(2) a no_hook have "after_page p step rk l n ls (db\<lparr>world := w\<rparr>) = (r, db')" by (simp add: page_turn_def)
  moreover note cq = commit_quiet [of "db\<lparr>world := w\<rparr>", simplified, OF w]
  ultimately show ?thesis
    by (auto simp: after_page_def split: option.splits prod.splits dest: cq)
qed

lemma loop_quiet:
  assumes "page_loop p step rk m ls db = Some (out, db')" and "quiet (world db)"
  shows "quiet (world db') \<and> (\<exists>n. out = Returned n)"
proof -
  have "q = p \<longrightarrow> quiet (world db) \<longrightarrow> (case y of (out, db') \<Rightarrow> quiet (world db') \<and> (\<exists>n. out = Returned n))"
    if "page_loop q step rk m ls db = Some y" for q step rk m ls db y
    using that
  proof (rule page_loop.raw_induct [rotated])
    fix page_loop q step rk m ls db y
    assume IH: "\<And>q step rk m ls db y. page_loop q step rk m ls db = Some y \<Longrightarrow>
        q = p \<longrightarrow> quiet (world db) \<longrightarrow> (case y of (out, db') \<Rightarrow> quiet (world db') \<and> (\<exists>n. out = Returned n))"
      and body: "(case page_turn q step rk m ls db of (Inl out, db') \<Rightarrow> Some (out, db')
        | (Inr ls', db') \<Rightarrow> page_loop q step rk m ls' db') = Some y"
    show "q = p \<longrightarrow> quiet (world db) \<longrightarrow> (case y of (out, db') \<Rightarrow> quiet (world db') \<and> (\<exists>n. out = Returned n))"
    proof (intro impI)
      assume q: "q = p" and w: "quiet (world db)"
      obtain r db1 where t: "page_turn p step rk m ls db = (r, db1)" by fastforce
      note tq = turn_quiet [OF w t]
      show "case y of (out, db') \<Rightarrow> quiet (world db') \<and> (\<exists>n. out = Returned n)"
      proof (cases r)
        case (Inl out)
        with body t q tq show ?thesis by (cases out) auto
      next
        case (Inr ls')
        with body t q have "page_loop q step rk m ls' db1 = Some y" by simp
        from IH [OF this] q tq show ?thesis by blast
      qed
    qed
  qed
  from this [OF assms(1)] assms(2) show ?thesis by simp
qed

lemma step_quiet:
  assumes "run_checkpointed_step p step rk n m db = Some (out, db')" and "quiet (world db)"
  shows "quiet (world db') \<and> (\<exists>k. out = Returned k)"
proof (cases rk)
  case None
  with assms loop_quiet show ?thesis by (simp add: run_checkpointed_step_def)
next
  case (Some k)
  obtain r w where s: "session p (world db) = (r, w)" by fastforce
  from session_quiet [OF assms(2) s] have w: "quiet w" "r = None" by simp_all
  obtain c db1 where read: "read_checkpoint p step k db = (Inr c, db1)" and q: "quiet (world db1)"
    using s w by (simp add: read_checkpoint_def)
  from assms(1) Some read loop_quiet [OF _ q] q show ?thesis
    by (auto simp: run_checkpointed_step_def split: if_splits)
qed

end

end
