(* ===== verification/StatSweeps.thy ===== *)
theory StatSweeps
  imports StatStatements SweepContract
begin

text \<open>
  The statistics sweeps of \<^verbatim>\<open>graphinator/graphinator.py\<close> over a property graph: their page
  statements as transactions that may fail, the check that stops a refresh, and the sweeps as
  checkpointed steps. Each meets the contract of a sweep, so each brings every node of its
  label up to date and never sets one back.
\<close>

section \<open>The database of a sweep\<close>

text \<open>
  A statement runs, or raises an error; an error may also reach the caller although the
  transaction was committed. What the check before a page sees is a schedule: the messages
  counted so far, the clock, and the answer to the query for the newest dump.
\<close>

record view =
  v_messages :: int
  v_now :: rat
  v_latest :: "page_error + pystr option"

record stats_world =
  sw_graph :: graph
  sw_faults :: "(page_error \<times> bool) option list"
  sw_views :: "view list"
  sw_next_check :: rat

definition next_answer :: "stats_world \<Rightarrow> (page_error \<times> bool) option \<times> stats_world" where
  "next_answer w = (case sw_faults w of [] \<Rightarrow> (None, w) | f # fs \<Rightarrow> (f, w\<lparr>sw_faults := fs\<rparr>))"

text \<open>A writing statement: its error, if the caller sees one.\<close>

definition transaction :: "(graph \<Rightarrow> graph) \<Rightarrow> stats_world \<Rightarrow> page_error option \<times> stats_world" where
  "transaction f w =
     (case next_answer w of
        (None, w') \<Rightarrow> (None, w'\<lparr>sw_graph := f (sw_graph w')\<rparr>)
      | (Some (e, committed), w') \<Rightarrow> (Some e, if committed then w'\<lparr>sw_graph := f (sw_graph w')\<rparr> else w'))"

section \<open>Pages\<close>

text \<open>
  The keys a sweep over a label visits: only texts compare with the cursor, and the empty text
  is not greater than the first one.
\<close>

definition node_keys :: "nlabel \<Rightarrow> graph \<Rightarrow> pystr list" where
  "node_keys lb g =
     sorted_list_of_set ((\<lambda>n. case snd n of PStr s \<Rightarrow> s | _ \<Rightarrow> []) `
       Set.filter (\<lambda>n. fst n = lb \<and> (case snd n of PStr s \<Rightarrow> s \<noteq> [] | _ \<Rightarrow> False)) (nodes g))"

text \<open>
  \<^verbatim>\<open>MATCH (n:L) WHERE n.key > $cursor WITH n ORDER BY n.key LIMIT $size CALL (n) { ... }
  RETURN max(n.key) AS last, count(n) AS processed\<close>
\<close>

definition page_query :: "nlabel \<Rightarrow> (pystr \<Rightarrow> graph \<Rightarrow> graph) \<Rightarrow> pystr \<Rightarrow> int \<Rightarrow> stats_world \<Rightarrow>
    (page_error + (pystr option \<times> int option) option) \<times> stats_world" where
  "page_query lb statement cursor n w =
     (let page = page_of (node_keys lb (sw_graph w)) cursor n in
      case transaction (fold statement page) w of
        (Some e, w') \<Rightarrow> (Inl e, w')
      | (None, w') \<Rightarrow> (Inr (Some (if page = [] then None else Some (last page), Some (int (length page)))), w'))"

text \<open>\<^verbatim>\<open>MATCH (n:L) WHERE n.name > $cursor RETURN n.name AS key ORDER BY key LIMIT $size\<close>\<close>

definition list_keys :: "nlabel \<Rightarrow> pystr \<Rightarrow> int \<Rightarrow> stats_world \<Rightarrow> (page_error + pystr list) \<times> stats_world" where
  "list_keys lb cursor n w =
     (case transaction id w of
        (Some e, w') \<Rightarrow> (Inl e, w')
      | (None, w') \<Rightarrow> (Inr (page_of (node_keys lb (sw_graph w)) cursor n), w'))"

definition key_statement :: "pystr \<times> (pystr \<Rightarrow> graph \<Rightarrow> graph) \<Rightarrow> stats_world \<Rightarrow> page_error option \<times> stats_world" where
  "key_statement kc w = transaction (snd kc (fst kc)) w"

text \<open>A session for a checkpoint fails or not; the graph is not concerned.\<close>

definition checkpoint_session :: "stats_world \<Rightarrow> page_error option \<times> stats_world" where
  "checkpoint_session w = transaction id w"

type_synonym hook = "(stats_world \<Rightarrow> page_error option \<times> stats_world) option"

definition keyed_sweep :: "hook \<Rightarrow> nlabel \<Rightarrow> (pystr \<Rightarrow> graph \<Rightarrow> graph) \<Rightarrow> stats_world paging" where
  "keyed_sweep hook lb statement =
     \<lparr>before_page = hook, process_page = keyed_page_processor (page_query lb statement), session = checkpoint_session\<rparr>"

definition per_key_sweep :: "hook \<Rightarrow> nlabel \<Rightarrow> (pystr \<Rightarrow> graph \<Rightarrow> graph) list \<Rightarrow> stats_world paging" where
  "per_key_sweep hook lb statements =
     \<lparr>before_page = hook, process_page = per_key_page_processor (list_keys lb) (\<lambda>_. statements) key_statement,
      session = checkpoint_session\<rparr>"

section \<open>The check of a refresh\<close>

definition STATS_REFRESH_VERSION_CHECK_SECONDS :: rat where "STATS_REFRESH_VERSION_CHECK_SECONDS = 30"

definition stop_if_superseded :: "pystr \<Rightarrow> int \<Rightarrow> stats_world \<Rightarrow> page_error option \<times> stats_world" where
  "stop_if_superseded v messages_at_start w =
     (case sw_views w of
        [] \<Rightarrow> (None, w)
      | x # xs \<Rightarrow>
          let w' = w\<lparr>sw_views := xs\<rparr> in
          if v_messages x \<noteq> messages_at_start then (Some MaintenanceStopped, w')
          else if sw_next_check w \<le> v_now x then
            (case v_latest x of
               Inl e \<Rightarrow> Some e
             | Inr latest \<Rightarrow> if latest \<noteq> Some v then Some MaintenanceStopped else None,
             w'\<lparr>sw_next_check := v_now x + STATS_REFRESH_VERSION_CHECK_SECONDS\<rparr>)
          else (None, w'))"

section \<open>The sweeps\<close>

definition GENRE_STYLE_STATS_PAGE_SIZE :: int where "GENRE_STYLE_STATS_PAGE_SIZE = 10"
definition LABEL_STATS_PAGE_SIZE :: int where "LABEL_STATS_PAGE_SIZE = 100"
definition ARTIST_STATS_PAGE_SIZE :: int where "ARTIST_STATS_PAGE_SIZE = 1000"
definition PERSON_CREDIT_COUNT_BATCH_SIZE :: int where "PERSON_CREDIT_COUNT_BATCH_SIZE = 1000"

text \<open>The sweep of a label and its page size.\<close>

fun available :: "hook \<Rightarrow> nlabel \<Rightarrow> stats_world paging \<times> int" where
  "available hook Label = (keyed_sweep hook Label label_stats, LABEL_STATS_PAGE_SIZE)"
| "available hook lb = (per_key_sweep hook lb (build_node_stat_statements lb), GENRE_STYLE_STATS_PAGE_SIZE)"

fun stat_step :: "nlabel \<Rightarrow> pystr" where
  "stat_step Genre = lit ''genre_stats''"
| "stat_step Style = lit ''style_stats''"
| "stat_step _ = lit ''label_stats''"

text \<open>
  \<^verbatim>\<open>_run_stat_sweeps\<close>: a sweep that fails does not skip the ones after it; a request to stop
  leaves the loop as an exception.
\<close>

fun run_stat_sweeps :: "hook \<Rightarrow> pystr \<Rightarrow> nlabel list \<Rightarrow> stats_world database \<Rightarrow>
    ((page_error + bool) \<times> stats_world database) option" where
  "run_stat_sweeps hook rk [] db = Some (Inr True, db)"
| "run_stat_sweeps hook rk (lb # lbs) db =
     (case run_checkpointed_step (fst (available hook lb)) (stat_step lb) (Some rk) (snd (available hook lb)) MIN_PAGE_SIZE db of
        None \<Rightarrow> None
      | Some (Raised MaintenanceStopped, db') \<Rightarrow> Some (Inl MaintenanceStopped, db')
      | Some (Raised _, db') \<Rightarrow>
          map_option (\<lambda>(r, db''). (case r of Inl e \<Rightarrow> Inl e | Inr _ \<Rightarrow> Inr False, db'')) (run_stat_sweeps hook rk lbs db')
      | Some (Returned _, db') \<Rightarrow> run_stat_sweeps hook rk lbs db')"

definition compute_genre_style_stats :: "hook \<Rightarrow> pystr \<Rightarrow> stats_world database \<Rightarrow>
    ((page_error + bool) \<times> stats_world database) option" where
  "compute_genre_style_stats hook rk db = run_stat_sweeps hook rk [Genre, Style, Label] db"

definition compute_label_stats :: "hook \<Rightarrow> pystr \<Rightarrow> stats_world database \<Rightarrow>
    ((page_error + bool) \<times> stats_world database) option" where
  "compute_label_stats hook rk db = run_stat_sweeps hook rk [Label] db"

definition compute_artist_stats :: "hook \<Rightarrow> pystr \<Rightarrow> stats_world database \<Rightarrow>
    ((page_error + bool) \<times> stats_world database) option" where
  "compute_artist_stats hook rk db =
     (case run_checkpointed_step (keyed_sweep hook Artist artist_stats) (lit ''artist_stats'') (Some rk)
             ARTIST_STATS_PAGE_SIZE MIN_PAGE_SIZE db of
        None \<Rightarrow> None
      | Some (Raised MaintenanceStopped, db') \<Rightarrow> Some (Inl MaintenanceStopped, db')
      | Some (Raised _, db') \<Rightarrow> Some (Inr False, db')
      | Some (Returned _, db') \<Rightarrow> Some (Inr True, db'))"

text \<open>Without a hook, so any exception is a failure of the step.\<close>

definition compute_person_credit_counts :: "string list \<Rightarrow> pystr \<Rightarrow> stats_world database \<Rightarrow>
    ((page_error + bool) \<times> stats_world database) option" where
  "compute_person_credit_counts categories rk db =
     (case run_checkpointed_step (keyed_sweep None Person (person_stats categories)) (lit ''person_credit_counts'') (Some rk)
             PERSON_CREDIT_COUNT_BATCH_SIZE MIN_PAGE_SIZE db of
        None \<Rightarrow> None
      | Some (Raised _, db') \<Rightarrow> Some (Inr False, db')
      | Some (Returned _, db') \<Rightarrow> Some (Inr True, db'))"

section \<open>Statements do not disturb each other\<close>

definition stat_current :: "string list \<Rightarrow> nlabel \<Rightarrow> graph \<Rightarrow> pystr \<Rightarrow> bool" where
  "stat_current categories lb g t =
     (case lb of
        Label \<Rightarrow> label_current g t
      | Artist \<Rightarrow> artist_current g t
      | Person \<Rightarrow> person_current categories g t
      | Genre \<Rightarrow> node_current Genre g t
      | Style \<Rightarrow> node_current Style g t
      | _ \<Rightarrow> True)"

text \<open>
  What every statement and every sweep keeps: the asserted edges, the schema, the hashes, and
  all statistics that are current.
\<close>

definition steady :: "string list \<Rightarrow> graph \<Rightarrow> graph \<Rightarrow> bool" where
  "steady categories g g' \<longleftrightarrow> same_base g g' \<and> (graph_wf g \<longrightarrow> graph_wf g') \<and>
     (\<forall>n. nprop g' n ''sha256'' = nprop g n ''sha256'') \<and>
     (\<forall>lb t. stat_current categories lb g t \<longrightarrow> stat_current categories lb g' t)"

lemma steady_refl [simp]: "steady cs g g" and steady_trans: "steady cs f g \<Longrightarrow> steady cs g h \<Longrightarrow> steady cs f h"
  unfolding steady_def using same_base_trans by (simp, metis)

lemma steady_nodes: "steady cs g g' \<Longrightarrow> nodes g' = nodes g"
  unfolding steady_def using same_base_nodes by blast

text \<open>
  The statistics of a node read the counted edges, its own properties and, for a label, its
  edges to styles.
\<close>

lemma current_local:
  assumes base: "same_counts g g'" and props: "nprop g' (lb, PStr t) = nprop g (lb, PStr t)"
    and styles: "lb = Label \<Longrightarrow> \<forall>e. e_src e = (Label, PStr t) \<and> e_rel e = HAS_STYLE \<and> fst (e_dst e) = Style \<longrightarrow>
      (e \<in> edges g' \<longleftrightarrow> e \<in> edges g) \<and> (e \<in> edges g \<longrightarrow> eprop g' e = eprop g e)"
    and current: "stat_current cs lb g t"
  shows "stat_current cs lb g' t"
proof (cases lb)
  case Label
  let ?l = "(Label, PStr t)"
  let ?S = "\<lambda>g. {e \<in> edges g. e_src e = ?l \<and> e_rel e = HAS_STYLE \<and> fst (e_dst e) = Style \<and> e_key e = []}"
  have S: "?S g' = ?S g" using styles [OF Label] by blast
  have cur: "?S g = style_edge ?l ` label_styles g ?l"
    using current Label by (simp add: stat_current_def label_current_def Let_def)
  have "eprop g' (style_edge ?l s) = eprop g (style_edge ?l s)" if "s \<in> label_styles g ?l" for s
  proof -
    from that cur have "style_edge ?l s \<in> edges g" by blast
    with styles [OF Label] label_styles_Style [OF that] show ?thesis by simp
  qed
  moreover have "paths_to g' ON ?l {BY, IS} s = paths_to g ON ?l {BY, IS} s" if "s \<in> label_styles g ?l" for s
    using label_styles_Style [OF that] by (intro paths_to_base [OF base]) simp_all
  ultimately show ?thesis
    using S current props Label base by (simp add: stat_current_def label_current_def Let_def base_simps)
next
  case Artist
  with props current base show ?thesis by (simp add: stat_current_def artist_current_def Let_def base_simps)
next
  case Person
  with props current base show ?thesis by (simp add: stat_current_def person_current_def Let_def base_simps)
next
  case Genre
  with props current base show ?thesis by (simp add: stat_current_def node_current_values node_values_base [OF base])
next
  case Style
  with props current base show ?thesis by (simp add: stat_current_def node_current_values node_values_base [OF base])
qed (simp_all add: stat_current_def)

lemma steadyI:
  assumes base: "same_base g g'" and others: "\<And>m. fst m \<noteq> lb \<Longrightarrow> nprop g' m = nprop g m"
    and styles: "lb \<noteq> Label \<Longrightarrow> edges g' = edges g \<and> eprop g' = eprop g"
    and own: "\<And>t. stat_current cs lb g t \<Longrightarrow> stat_current cs lb g' t"
    and hash: "\<And>n. nprop g' n ''sha256'' = nprop g n ''sha256''" and wf: "graph_wf g \<Longrightarrow> graph_wf g'"
  shows "steady cs g g'"
  unfolding steady_def
proof (intro conjI allI impI)
  fix l t assume c: "stat_current cs l g t"
  show "stat_current cs l g' t"
  proof (cases "l = lb")
    case True
    with own c show ?thesis by simp
  next
    case False
    show ?thesis
      by (rule current_local [OF same_base_counts [OF base] _ _ c]) (use False others styles in auto)
  qed
qed (use base hash wf in auto)

lemma wf_set_if_differs: "graph_wf g \<Longrightarrow> n \<in> nodes g \<Longrightarrow> graph_wf (set_if_differs n k v g)"
  and wf_matched_set: "graph_wf g \<Longrightarrow> graph_wf (matched_set n kvs g)"
  by (simp_all add: set_if_differs_def matched_set_def graph_wf_set_node)

lemma wf_refresh_styles:
  assumes "graph_wf g" and "l \<in> nodes g" and "fst l = Label"
  shows "graph_wf (refresh_styles l g)"
proof -
  have fin: "finite (edges g)" and ends: "\<And>e. e \<in> edges g \<Longrightarrow> e_src e \<in> nodes g \<and> e_dst e \<in> nodes g"
    using assms(1) by (auto simp: graph_wf_def)
  have "finite (label_styles g l)" using fin by (simp add: label_styles_def targets_from_def)
  moreover have "s \<in> nodes g \<and> fst s = Style" if "s \<in> label_styles g l" for s
    using that ends by (auto simp: label_styles_def targets_from_def)
  ultimately show ?thesis
    using assms unfolding graph_wf_def
    by (simp add: refresh_styles_def Let_def delete_edges_def style_edge_def) fastforce
qed

lemma steady_label:
  assumes "(Label, PStr key) \<in> nodes g"
  shows "steady cs g (label_stats key g)"
proof (rule steadyI [of _ _ Label, OF label_stats_base])
  show "nprop (label_stats key g) m = nprop g m" if "fst m \<noteq> Label" for m
  proof -
    from that have "m \<noteq> (Label, PStr key)" by auto
    then show ?thesis by (simp add: fun_eq_iff label_stats_props Let_def)
  qed
  show "graph_wf (label_stats key g)" if "graph_wf g"
    using that assms unfolding label_stats_def label_counts_def Let_def
    by (intro wf_refresh_styles wf_set_if_differs) simp_all
qed (simp_all add: stat_current_def label_stats_keeps label_stats_props Let_def)

lemma set_node_frame [simp]: "edges (set_node n kvs g) = edges g" "eprop (set_node n kvs g) = eprop g"
  by (simp_all add: set_node_def)

lemma matched_set_frame: "edges (matched_set n kvs g) = edges g" "eprop (matched_set n kvs g) = eprop g"
  by (simp_all add: matched_set_def)

lemma steady_artist:
  assumes "(Artist, PStr key) \<in> nodes g"
  shows "steady cs g (artist_stats key g)"
proof (rule steadyI [of _ _ Artist, OF artist_stats_base])
  show "nprop (artist_stats key g) m = nprop g m" if "fst m \<noteq> Artist" for m
    by (rule artist_stats_props) (use that in auto)
  show "edges (artist_stats key g) = edges g \<and> eprop (artist_stats key g) = eprop g"
    by (simp add: artist_stats_def Let_def)
  show "nprop (artist_stats key g) n ''sha256'' = nprop g n ''sha256''" for n
    by (simp add: artist_stats_def Let_def nprop_set_if_differs nprop_set_node)
  show "graph_wf (artist_stats key g)" if "graph_wf g"
    using that assms by (simp add: artist_stats_def Let_def wf_set_if_differs graph_wf_set_node)
qed (simp add: stat_current_def artist_stats_keeps)

lemma fold_set_if_differs:
  "edges (fold (\<lambda>(k, v). set_if_differs p k v) kvs h) = edges h"
  "eprop (fold (\<lambda>(k, v). set_if_differs p k v) kvs h) = eprop h"
  "graph_wf h \<Longrightarrow> p \<in> nodes h \<Longrightarrow> graph_wf (fold (\<lambda>(k, v). set_if_differs p k v) kvs h)"
  by (induction kvs arbitrary: h) (auto simp: wf_set_if_differs)

lemma steady_person:
  assumes "(Person, PStr key) \<in> nodes g"
  shows "steady cs g (person_stats cs key g)"
proof (rule steadyI [of _ _ Person, OF person_stats_base])
  show "edges (person_stats cs key g) = edges g \<and> eprop (person_stats cs key g) = eprop g"
    by (simp add: person_stats_def Let_def fold_set_if_differs)
  show "graph_wf (person_stats cs key g)" if "graph_wf g"
    using that assms by (simp add: person_stats_def Let_def fold_set_if_differs)
  show "nprop (person_stats cs key g) m = nprop g m" if "fst m \<noteq> Person" for m
    using that by (auto simp: person_stats_def Let_def intro!: person_fold(2))
  show "nprop (person_stats cs key g) n ''sha256'' = nprop g n ''sha256''" for n
  proof (cases "n = (Person, PStr key)")
    case True
    have "''sha256'' \<notin> fst ` set (credit_counts g cs n)"
      by (auto simp: credit_counts_def credit_count_property_def CREDIT_COUNT_PROPERTY_def)
    with True show ?thesis by (simp add: person_stats_def Let_def person_fold(3))
  next
    case False
    then show ?thesis by (simp add: person_stats_def Let_def person_fold(2))
  qed
qed (simp add: stat_current_def person_stats_keeps)

lemma steady_node:
  assumes "lb \<in> {Genre, Style}" and "x \<in> set (build_node_stat_statements lb)"
  shows "steady cs g (x key g)"
proof (rule node_statement [OF assms(2)])
  fix ks assume x: "\<And>g key. x key g = matched_set (lb, PStr key) (map (\<lambda>k. (k, node_values lb g key k)) ks) g"
    and d: "distinct ks" and ks: "set ks \<subseteq> {''release_count'', ''artist_count'', ''label_count'', snd (other_taxonomy lb), ''first_year''}"
  have lb: "fst (lb, PStr key) \<noteq> Release" using assms(1) by auto
  have hash: "''sha256'' \<notin> set ks" using ks other_taxonomy_names [of lb] by auto
  show ?thesis
  proof (rule steadyI [of _ _ lb])
    show "same_base g (x key g)" by (rule node_statement_effect(1) [OF assms(2) lb])
    show "nprop (x key g) m = nprop g m" if "fst m \<noteq> lb" for m
      by (rule node_statement_effect(2) [OF assms(2) lb]) (use that in auto)
    show "edges (x key g) = edges g \<and> eprop (x key g) = eprop g" unfolding x by (simp add: matched_set_frame)
    show "stat_current cs lb g t \<Longrightarrow> stat_current cs lb (x key g) t" for t
      using assms(1) node_statement_keeps [OF assms(2,1), of g t key] by (auto simp: stat_current_def)
    show "nprop (x key g) n ''sha256'' = nprop g n ''sha256''" for n
      unfolding x using hash by (simp add: matched_set_def nprop_set_node fold_set_node [OF d])
    show "graph_wf g \<Longrightarrow> graph_wf (x key g)" unfolding x by (rule wf_matched_set)
  qed
qed

section \<open>Every sweep meets the contract\<close>

lemma transaction_steady:
  assumes "transaction f w = (r, w')" and "steady cs (sw_graph w) (f (sw_graph w))"
  shows "steady cs (sw_graph w) (sw_graph w')" and "r = None \<Longrightarrow> sw_graph w' = f (sw_graph w)"
  using assms by (auto simp: transaction_def next_answer_def split: list.splits option.splits if_splits)

lemma transaction_read: "transaction id w = (r, w') \<Longrightarrow> sw_graph w' = sw_graph w"
  by (auto simp: transaction_def next_answer_def split: list.splits option.splits if_splits)

lemma sorted_set_member: "k \<in> set (sorted_list_of_set A) \<Longrightarrow> k \<in> A"
  by (cases "finite A") simp_all

lemma node_keys_nodes: "k \<in> set (node_keys lb g) \<Longrightarrow> (lb, PStr k) \<in> nodes g \<and> k \<noteq> []"
proof -
  let ?A = "(\<lambda>n. case snd n of PStr s \<Rightarrow> s | _ \<Rightarrow> []) `
       Set.filter (\<lambda>n. fst n = lb \<and> (case snd n of PStr s \<Rightarrow> s \<noteq> [] | _ \<Rightarrow> False)) (nodes g)"
  assume k: "k \<in> set (node_keys lb g)"
  then have "k \<in> ?A" unfolding node_keys_def by (rule sorted_set_member)
  then obtain n where n: "k = (case snd n of PStr s \<Rightarrow> s | _ \<Rightarrow> [])" "n \<in> nodes g" "fst n = lb"
    "case snd n of PStr s \<Rightarrow> s \<noteq> [] | _ \<Rightarrow> False" unfolding Set.filter_eq by blast
  obtain a b where ab: "n = (a, b)" by (cases n)
  with n show ?thesis by (cases b) simp_all
qed

lemma node_keys_complete:
  assumes "finite (nodes g)" and "(lb, PStr k) \<in> nodes g" and "k \<noteq> []"
  shows "k \<in> set (node_keys lb g)"
  using assms by (force simp: node_keys_def)

locale statistics =
  fixes categories :: "string list" and hook :: hook and lb :: nlabel and statements :: "(pystr \<Rightarrow> graph \<Rightarrow> graph) list"
  assumes hook_ok: "hook = Some f \<Longrightarrow> f w = (r, w') \<Longrightarrow> sw_graph w' = sw_graph w"
    and statement_steady: "x \<in> set statements \<Longrightarrow> (lb, PStr key) \<in> nodes g \<Longrightarrow> steady categories g (x key g)"
    and all_current: "(lb, PStr key) \<in> nodes g \<Longrightarrow> stat_current categories lb (fold (\<lambda>x. x key) statements g) key"

context statistics
begin

lemma fold_steady:
  "set xs \<subseteq> set statements \<Longrightarrow> (lb, PStr key) \<in> nodes g \<Longrightarrow> steady categories g (fold (\<lambda>x. x key) xs g)"
proof (induction xs arbitrary: g)
  case (Cons x xs)
  then have st: "steady categories g (x key g)" using statement_steady by simp
  with Cons steady_nodes [OF st] show ?case using steady_trans [OF st] by simp
qed simp

lemma pages_steady:
  "\<forall>k \<in> set ks. (lb, PStr k) \<in> nodes g \<Longrightarrow> steady categories g (fold (\<lambda>k. fold (\<lambda>x. x k) statements) ks g)"
proof (induction ks arbitrary: g)
  case (Cons k ks)
  then have st: "steady categories g (fold (\<lambda>x. x k) statements g)" using fold_steady by simp
  with Cons steady_nodes [OF st] show ?case using steady_trans [OF st] by simp
qed simp

lemma pages_current:
  assumes "\<forall>k \<in> set ks. (lb, PStr k) \<in> nodes g" and "k \<in> set ks"
  shows "stat_current categories lb (fold (\<lambda>k. fold (\<lambda>x. x k) statements) ks g) k"
  using assms
proof (induction ks arbitrary: g)
  case (Cons j ks)
  let ?h = "fold (\<lambda>x. x j) statements g"
  have base: "nodes ?h = nodes g" using fold_steady [of statements j g] Cons.prems(1) steady_nodes by simp
  show ?case
  proof (cases "k \<in> set ks")
    case True
    with Cons base show ?thesis by simp
  next
    case False
    with Cons.prems all_current have "stat_current categories lb ?h k" by simp
    with pages_steady [of ks ?h] Cons.prems(1) base show ?thesis by (simp add: steady_def)
  qed
qed simp

lemma page_keys: "\<forall>k \<in> set (page_of (node_keys lb g) c n). (lb, PStr k) \<in> nodes g"
  by (auto simp: page_of_def after_def dest!: in_set_takeD dest: node_keys_nodes)

lemma page_current:
  "k \<in> set (page_of (node_keys lb g) c n) \<Longrightarrow>
     stat_current categories lb (fold (\<lambda>k. fold (\<lambda>x. x k) statements) (page_of (node_keys lb g) c n) g) k"
  by (rule pages_current [OF page_keys])

lemma run_statements_steady:
  assumes "run_statements key_statement kcs w = (r, w')"
    and "\<forall>(k, x) \<in> set kcs. x \<in> set statements \<and> (lb, PStr k) \<in> nodes (sw_graph w)"
  shows "steady categories (sw_graph w) (sw_graph w') \<and>
    (r = None \<longrightarrow> sw_graph w' = fold (\<lambda>(k, x). x k) kcs (sw_graph w))"
  using assms
proof (induction kcs arbitrary: w)
  case (Cons kc kcs)
  obtain k x where kc: "kc = (k, x)" by (cases kc)
  obtain a w1 where t: "transaction (x k) w = (a, w1)" by fastforce
  then have ks: "key_statement (k, x) w = (a, w1)" by (simp add: key_statement_def)
  from Cons.prems kc have x: "steady categories (sw_graph w) (x k (sw_graph w))" by (auto intro: statement_steady)
  note s = transaction_steady [OF t x]
  show ?case
  proof (cases a)
    case None
    with Cons.prems kc ks have "run_statements key_statement kcs w1 = (r, w')" by simp
    from Cons.IH [OF this] Cons.prems(2) s None kc steady_nodes [OF s(1)] show ?thesis
      using steady_trans [OF s(1)] by auto
  next
    case (Some e)
    with Cons.prems kc ks s show ?thesis by auto
  qed
qed simp

text \<open>What the contract asks of a page, for both kinds of pages.\<close>

definition page_result :: "pystr \<Rightarrow> int \<Rightarrow> stats_world \<Rightarrow> page_error + pystr option \<times> int \<Rightarrow> stats_world \<Rightarrow> bool" where
  "page_result c n w r w' \<longleftrightarrow> (let page = page_of (node_keys lb (sw_graph w)) c n in
     steady categories (sw_graph w) (sw_graph w') \<and>
     (case r of
        Inl e \<Rightarrow> True
      | Inr (l, m) \<Rightarrow> (\<forall>k \<in> set page. stat_current categories lb (sw_graph w') k) \<and> m = int (length page) \<and>
          l = (if page = [] then None else Some (last page))))"

lemma fold_statements: "fold (\<lambda>(k, x). x k) (concat (map (\<lambda>k. map (Pair k) xs) ks)) g = fold (\<lambda>k. fold (\<lambda>x. x k) xs) ks g"
proof (induction ks arbitrary: g)
  case (Cons k ks)
  have "fold (\<lambda>(k, x). x k) (map (Pair k) xs) h = fold (\<lambda>x. x k) xs h" for h by (induction xs arbitrary: h) simp_all
  with Cons show ?case by simp
qed simp

lemma per_key_page:
  assumes "per_key_page_processor (list_keys lb) (\<lambda>_. statements) key_statement c n w = (r, w')"
  shows "page_result c n w r w'"
proof -
  let ?page = "page_of (node_keys lb (sw_graph w)) c n"
  obtain a w1 where t: "transaction id w = (a, w1)" by fastforce
  then have g: "sw_graph w1 = sw_graph w" by (rule transaction_read)
  show ?thesis
  proof (cases a)
    case (Some e)
    with t g assms show ?thesis by (auto simp: per_key_page_processor_def list_keys_def page_result_def Let_def)
  next
    case None
    let ?kcs = "concat (map (\<lambda>k. map (Pair k) statements) ?page)"
    obtain b w2 where run: "run_statements key_statement ?kcs w1 = (b, w2)" by fastforce
    have "\<forall>(k, x) \<in> set ?kcs. x \<in> set statements \<and> (lb, PStr k) \<in> nodes (sw_graph w1)"
      unfolding g using page_keys by auto
    note st = run_statements_steady [OF run this, unfolded g fold_statements]
    have r: "w' = w2" "r = (case b of Some e \<Rightarrow> Inl e | None \<Rightarrow> Inr (if ?page = [] then None else Some (last ?page), int (length ?page)))"
      using assms t None run by (auto simp: per_key_page_processor_def list_keys_def split: option.splits)
    show ?thesis
      using st page_current [of _ "sw_graph w" c n] unfolding r page_result_def Let_def
      by (cases b) auto
  qed
qed

lemma keyed_page:
  assumes "keyed_page_processor (page_query lb (\<lambda>k. fold (\<lambda>x. x k) statements)) c n w = (r, w')"
  shows "page_result c n w r w'"
proof -
  let ?page = "page_of (node_keys lb (sw_graph w)) c n"
  obtain a w1 where t: "transaction (fold (\<lambda>k. fold (\<lambda>x. x k) statements) ?page) w = (a, w1)" by fastforce
  note st = transaction_steady [OF t pages_steady [OF page_keys]]
  have r: "w' = w1" "r = (case a of Some e \<Rightarrow> Inl e | None \<Rightarrow> Inr (if ?page = [] then None else Some (last ?page), int (length ?page)))"
    using assms t by (auto simp: keyed_page_processor_def page_query_def Let_def split: option.splits)
  show ?thesis
    using st page_current [of _ "sw_graph w" c n] unfolding r page_result_def Let_def
    by (cases a) auto
qed

lemma contract:
  assumes "\<And>c n w r w'. process_page p c n w = (r, w') \<Longrightarrow> page_result c n w r w'"
    and "before_page p = hook" and "session p = checkpoint_session"
  shows "sweep_effect p (\<lambda>w. node_keys lb (sw_graph w)) (\<lambda>w. stat_current categories lb (sw_graph w))
    (\<lambda>w w'. steady categories (sw_graph w) (sw_graph w'))"
proof
  fix w w' :: stats_world
  assume s: "steady categories (sw_graph w) (sw_graph w')"
  then have "nodes (sw_graph w') = nodes (sw_graph w)" by (rule steady_nodes)
  then show "node_keys lb (sw_graph w') = node_keys lb (sw_graph w)" by (simp add: node_keys_def)
  fix k assume "stat_current categories lb (sw_graph w) k"
  with s show "stat_current categories lb (sw_graph w') k" by (simp add: steady_def)
next
  fix w :: stats_world
  show "sorted (node_keys lb (sw_graph w))" "distinct (node_keys lb (sw_graph w))" by (simp_all add: node_keys_def)
  show "[] \<notin> set (node_keys lb (sw_graph w))" using node_keys_nodes by blast
next
  fix c n w l m w'
  assume page: "process_page p c n w = (Inr (l, m), w')"
  from assms(1) [OF page] show "steady categories (sw_graph w) (sw_graph w') \<and>
      (\<forall>k \<in> set (page_of (node_keys lb (sw_graph w)) c n). stat_current categories lb (sw_graph w') k) \<and>
      m = int (length (page_of (node_keys lb (sw_graph w)) c n)) \<and>
      l = (if page_of (node_keys lb (sw_graph w)) c n = [] then None else Some (last (page_of (node_keys lb (sw_graph w)) c n)))"
    by (simp add: page_result_def Let_def)
next
  fix c n w e w'
  assume "process_page p c n w = (Inl e, w')"
  from assms(1) [OF this] show "steady categories (sw_graph w) (sw_graph w')" by (simp add: page_result_def Let_def)
next
  fix f w r w' assume "before_page p = Some f" and f: "f w = (r, w')"
  then have "hook = Some f" using assms(2) by metis
  from hook_ok [OF this f] show "steady categories (sw_graph w) (sw_graph w')" by simp
next
  fix w r w' assume "session p w = (r, w')"
  then have "transaction id w = (r, w')" by (simp add: assms(3) checkpoint_session_def)
  from transaction_read [OF this] show "steady categories (sw_graph w) (sw_graph w')" by simp
qed (use steady_trans in auto)

end

locale per_key_statistics = statistics

sublocale per_key_statistics \<subseteq> sweep_effect "per_key_sweep hook lb statements" "\<lambda>w. node_keys lb (sw_graph w)"
    "\<lambda>w. stat_current categories lb (sw_graph w)" "\<lambda>w w'. steady categories (sw_graph w) (sw_graph w')"
  by (rule contract) (simp_all add: per_key_sweep_def per_key_page)

locale keyed_statistics = statistics categories hook lb "[statement]" for categories hook lb statement

sublocale keyed_statistics \<subseteq> sweep_effect "keyed_sweep hook lb statement" "\<lambda>w. node_keys lb (sw_graph w)"
    "\<lambda>w. stat_current categories lb (sw_graph w)" "\<lambda>w w'. steady categories (sw_graph w) (sw_graph w')"
  using keyed_page by (intro contract) (simp_all add: keyed_sweep_def)

text \<open>The hooks there are.\<close>

definition refresh_hook :: "(pystr \<times> int) option \<Rightarrow> hook" where
  "refresh_hook r = (case r of None \<Rightarrow> None | Some (v, m) \<Rightarrow> Some (stop_if_superseded v m))"

lemma refresh_hook_ok: "refresh_hook r = Some f \<Longrightarrow> f w = (a, w') \<Longrightarrow> sw_graph w' = sw_graph w"
  by (auto simp: refresh_hook_def stop_if_superseded_def Let_def split: option.splits list.splits if_splits prod.splits)

interpretation genre: per_key_statistics categories "refresh_hook r" Genre "build_node_stat_statements Genre" for categories r
  by unfold_locales (auto simp: stat_current_def dest: refresh_hook_ok intro: steady_node node_statements_current)

interpretation style: per_key_statistics categories "refresh_hook r" Style "build_node_stat_statements Style" for categories r
  by unfold_locales (auto simp: stat_current_def dest: refresh_hook_ok intro: steady_node node_statements_current)

interpretation labels: keyed_statistics categories "refresh_hook r" Label label_stats for categories r
  by unfold_locales (auto simp: stat_current_def label_stats_current dest: refresh_hook_ok intro: steady_label)

interpretation artist: keyed_statistics categories "refresh_hook r" Artist artist_stats for categories r
  by unfold_locales (auto simp: stat_current_def artist_stats_current dest: refresh_hook_ok intro: steady_artist)

interpretation person: keyed_statistics categories "refresh_hook r" Person "person_stats categories" for categories r
  by unfold_locales (auto simp: stat_current_def person_stats_current dest: refresh_hook_ok intro: steady_person)

section \<open>Nothing fails\<close>

definition calm :: "stats_world \<Rightarrow> bool" where
  "calm w \<longleftrightarrow> sw_faults w = []"

lemma transaction_calm: "calm w \<Longrightarrow> transaction f w = (r, w') \<Longrightarrow> calm w' \<and> r = None"
  by (auto simp: calm_def transaction_def next_answer_def)

lemma run_statements_calm: "calm w \<Longrightarrow> run_statements key_statement kcs w = (r, w') \<Longrightarrow> calm w' \<and> r = None"
  by (induction kcs arbitrary: w) (auto simp: key_statement_def split: option.splits prod.splits dest: transaction_calm)

interpretation calm_keyed: undisturbed "keyed_sweep None lb statement" calm for lb statement
proof
  fix w c n r w'
  assume w: "calm w" and p: "process_page (keyed_sweep None lb statement) c n w = (r, w')"
  obtain a w1 where t: "transaction (fold statement (page_of (node_keys lb (sw_graph w)) c n)) w = (a, w1)" by fastforce
  from transaction_calm [OF w t] p t show "calm w' \<and> (\<exists>x. r = Inr x)"
    by (auto simp: keyed_sweep_def keyed_page_processor_def page_query_def Let_def)
next
  fix w r w'
  show "calm w \<Longrightarrow> session (keyed_sweep None lb statement) w = (r, w') \<Longrightarrow> calm w' \<and> r = None"
    using transaction_calm by (simp add: keyed_sweep_def checkpoint_session_def)
qed (simp add: keyed_sweep_def)

interpretation calm_per_key: undisturbed "per_key_sweep None lb statements" calm for lb statements
proof
  fix w c n r w'
  assume w: "calm w" and p: "process_page (per_key_sweep None lb statements) c n w = (r, w')"
  let ?page = "page_of (node_keys lb (sw_graph w)) c n"
  obtain a w1 where t: "transaction id w = (a, w1)" by fastforce
  obtain b w2 where u: "run_statements key_statement (concat (map (\<lambda>k. map (Pair k) statements) ?page)) w1 = (b, w2)"
    by fastforce
  from transaction_calm [OF w t] run_statements_calm [OF _ u] have "a = None" "b = None" "calm w2" by simp_all
  with p t u show "calm w' \<and> (\<exists>x. r = Inr x)"
    by (auto simp: per_key_sweep_def per_key_page_processor_def list_keys_def)
next
  fix w r w'
  show "calm w \<Longrightarrow> session (per_key_sweep None lb statements) w = (r, w') \<Longrightarrow> calm w' \<and> r = None"
    using transaction_calm by (simp add: per_key_sweep_def checkpoint_session_def)
qed (simp add: per_key_sweep_def)

end
