(* ===== verification/MaintenanceGraph.thy ===== *)
theory MaintenanceGraph
  imports MaintenanceRun GraphCleanup StatSweeps
begin

text \<open>
  The steps of post-import maintenance on the graph itself: the two cleanups and the five
  statistics sweeps, in the order \<^verbatim>\<open>graphinator/graphinator.py\<close> runs them, over all attempts and
  restarts of one run. The abstract pass of \<open>MaintenanceRun\<close> sees only what each step reports;
  here that report is what the step did to the graph.
\<close>

section \<open>The steps\<close>

text \<open>What one attempt meets: how the chunks of the cleanups end, and the errors of statements.\<close>

record attempt_env =
  stub_ends :: "pystr \<Rightarrow> nat \<Rightarrow> int option \<Rightarrow> node query_end"
  sentinel_edge_ends :: "nat \<Rightarrow> int option \<Rightarrow> edge query_end"
  sentinel_node_ends :: "nat \<Rightarrow> int option \<Rightarrow> node query_end"
  statement_faults :: "(page_error \<times> bool) option list"

type_synonym graph_db = "stats_world database"

definition graph_of :: "graph_db \<Rightarrow> graph" where
  "graph_of db = sw_graph (world db)"

definition on_graph :: "(graph \<Rightarrow> bool \<times> graph) \<Rightarrow> graph_db \<Rightarrow> step_result \<times> graph_db" where
  "on_graph f db =
     (case f (graph_of db) of (ok, g) \<Rightarrow>
        (if ok then StepDone else StepIncomplete, db\<lparr>world := (world db)\<lparr>sw_graph := g\<rparr>\<rparr>))"

definition sweep_result :: "(page_error + bool) \<times> graph_db \<Rightarrow> step_result \<times> graph_db" where
  "sweep_result x =
     (case x of (r, db) \<Rightarrow>
        (case r of
           Inl MaintenanceStopped \<Rightarrow> StepStopped (lit ''MaintenanceStopped'')
         | Inl e \<Rightarrow> StepRaised (lit ''Exception'')
         | Inr ok \<Rightarrow> if ok then StepDone else StepIncomplete, db))"

type_synonym graph_step = "graph_db \<Rightarrow> (step_result \<times> graph_db) option"

definition graph_steps :: "attempt_env \<Rightarrow> string list \<Rightarrow> pystr \<Rightarrow> (pystr \<times> graph_step) list" where
  "graph_steps env categories rk =
     [(lit ''stub_cleanup'', \<lambda>db. Some (on_graph (cleanup_all_stub_nodes (stub_ends env)) db)),
      (lit ''sentinel_master_cleanup'',
         \<lambda>db. Some (on_graph (cleanup_sentinel_master (sentinel_edge_ends env) (sentinel_node_ends env)) db)),
      (lit ''genre_style_label_stats'', \<lambda>db. map_option sweep_result (compute_genre_style_stats None rk db)),
      (lit ''artist_stats'', \<lambda>db. map_option sweep_result (compute_artist_stats None rk db)),
      (lit ''person_credit_counts'', \<lambda>db. map_option sweep_result (compute_person_credit_counts categories rk db))]"

text \<open>The loop over the steps, with the graph passed along.\<close>

fun perform_steps :: "(pystr \<times> graph_step) list \<Rightarrow> graph_db \<Rightarrow> ((pystr + pystr list) \<times> graph_db) option" where
  "perform_steps [] db = Some (Inr [], db)"
| "perform_steps ((name, step) # steps) db =
     (case step db of
        None \<Rightarrow> None
      | Some (r, db1) \<Rightarrow>
          (case run_maintenance_step name r of
             Inl e \<Rightarrow> Some (Inl e, db1)
           | Inr f \<Rightarrow>
               map_option (\<lambda>(fs, db2). (bindE fs (\<lambda>fs. Inr (case f of None \<Rightarrow> fs | Some x \<Rightarrow> x # fs)), db2))
                 (perform_steps steps db1)))"

text \<open>Attempts of one run, in one process or several; each meets its own faults.\<close>

fun graph_attempts :: "string list \<Rightarrow> pystr \<Rightarrow> attempt_env list \<Rightarrow> graph_db \<Rightarrow>
    ((pystr + pystr list) list \<times> graph_db) option" where
  "graph_attempts categories rk [] db = Some ([], db)"
| "graph_attempts categories rk (env # envs) db =
     (case perform_steps (graph_steps env categories rk) (db\<lparr>world := (world db)\<lparr>sw_faults := statement_faults env\<rparr>\<rparr>) of
        None \<Rightarrow> None
      | Some (r, db1) \<Rightarrow> map_option (\<lambda>(rs, db2). (r # rs, db2)) (graph_attempts categories rk envs db1))"

section \<open>The abstract loop\<close>

text \<open>What the loop reports is what the abstract loop reports for the same step results.\<close>

lemma perform_steps_run:
  assumes "perform_steps steps db = Some (r, db')" and "distinct (map fst steps)"
  shows "\<exists>results. run_steps results (map fst steps) = r"
  using assms
proof (induction steps arbitrary: db r)
  case (Cons s steps)
  obtain name step where s: "s = (name, step)" by (cases s)
  from Cons.prems s obtain a db1 where a: "step db = Some (a, db1)" by (auto split: option.splits)
  show ?case
  proof (cases "run_maintenance_step name a")
    case (Inl e)
    with Cons.prems s a have "r = Inl e" by simp
    with Inl s show ?thesis by (intro exI [of _ "\<lambda>_. a"]) simp
  next
    case (Inr f)
    with Cons.prems s a obtain fs where rest: "perform_steps steps db1 = Some (fs, db')"
      and r: "r = bindE fs (\<lambda>fs. Inr (case f of None \<Rightarrow> fs | Some x \<Rightarrow> x # fs))" by auto
    from Cons.IH [OF rest] Cons.prems(2) obtain results where "run_steps results (map fst steps) = fs" by auto
    moreover have "run_steps (results(name := a)) names = run_steps results names" if "name \<notin> set names" for names
      using that by (induction names) auto
    ultimately show ?thesis using Cons.prems(2) s Inr r
      by (intro exI [of _ "results(name := a)"]) (simp del: fun_upd_apply add: fun_upd_same)
  qed
qed simp

lemma graph_steps_names: "map fst (graph_steps env categories rk) = maintenance_steps"
  by (simp add: graph_steps_def maintenance_steps_def)

section \<open>What a step keeps\<close>

definition stat_labels :: "nlabel list" where
  "stat_labels = [Genre, Style, Label, Artist, Person]"

text \<open>
  Whatever maintenance does: the schema stands, nodes only go, the asserted edges away from
  the sentinel stay, and no statistics of a node that stays are set back.
\<close>

definition asserted :: "edge \<Rightarrow> bool" where
  "asserted e \<longleftrightarrow> e_rel e \<noteq> HAS_STYLE \<and> \<not> at_sentinel e"

definition tidies :: "string list \<Rightarrow> graph \<Rightarrow> graph \<Rightarrow> bool" where
  "tidies categories g g' \<longleftrightarrow> graph_wf g' \<and> nodes g' \<subseteq> nodes g \<and>
     {e \<in> edges g'. asserted e} = {e \<in> edges g. asserted e} \<and>
     (\<forall>lb \<in> set stat_labels. \<forall>t. (lb, PStr t) \<in> nodes g' \<longrightarrow> stat_current categories lb g t \<longrightarrow> stat_current categories lb g' t)"

lemma tidies_refl: "graph_wf g \<Longrightarrow> tidies cs g g"
  by (simp add: tidies_def)

lemma tidies_trans: "tidies cs f g \<Longrightarrow> tidies cs g h \<Longrightarrow> tidies cs f h"
  unfolding tidies_def by blast

lemma steady_tidies:
  assumes "steady cs g g'" and "graph_wf g"
  shows "tidies cs g g'"
proof -
  have "e \<in> edges g' \<longleftrightarrow> e \<in> edges g" if "asserted e" for e
    using assms(1) that unfolding steady_def same_base_def asserted_def by blast
  with assms show ?thesis unfolding tidies_def steady_def same_base_def by blast
qed

lemma stub_label_entity: "isolated_stub lb g n \<Longrightarrow> fst n = lb"
  by (simp add: isolated_stub_def)

lemma stub_cleanup_tidies:
  assumes wf: "graph_wf g" and run: "cleanup_all_stub_nodes ends g = (ok, g')"
  shows "tidies cs g g' \<and> (ok \<longrightarrow> (\<forall>lb \<in> entity_labels. \<forall>n. \<not> isolated_stub lb g' n))"
proof -
  note cl = closed_wf [OF wf]
  have "collects entity_labels g ok g'"
    using types_collect [OF cl run [unfolded cleanup_all_stub_nodes_def]] by (simp only: all_types)
  then obtain P where g': "g' = detach_delete P g" and P: "\<And>n. P n \<Longrightarrow> \<exists>lb \<in> entity_labels. isolated_stub lb g n"
    and all: "ok \<Longrightarrow> \<forall>lb \<in> entity_labels. \<forall>n. isolated_stub lb g n \<longrightarrow> P n" unfolding collects_def by blast
  have derived: "e_rel e = HAS_STYLE" if "e \<in> edges g" "touches P e" for e
  proof -
    from that(2) obtain m where "P m" "m = e_src e \<or> m = e_dst e" unfolding touches_def by blast
    with P that(1) show ?thesis by (fastforce simp: isolated_stub_def touches_def)
  qed
  have counts: "same_counts g g'"
    unfolding same_counts_def g'
  proof (intro allI impI)
    fix e assume "counted e"
    then have free: "e \<in> edges g \<Longrightarrow> \<not> touches P e" using derived by (auto simp: counted_def)
    then have "e \<in> edges g \<Longrightarrow> \<not> P (e_src e)" by (auto simp: touches_def)
    with free show "(e \<in> edges (detach_delete P g)) = (e \<in> edges g) \<and> (e \<in> edges g \<longrightarrow>
        eprop (detach_delete P g) e = eprop g e \<and>
        (fst (e_src e) = Release \<longrightarrow> nprop (detach_delete P g) (e_src e) = nprop g (e_src e)))" by auto
  qed
  have current: "stat_current cs lb g' t" if n: "(lb, PStr t) \<in> nodes g'" and c: "stat_current cs lb g t" for lb t
  proof (rule current_local [OF counts _ _ c])
    from n have np: "\<not> P (lb, PStr t)" unfolding g' by simp
    then show "nprop g' (lb, PStr t) = nprop g (lb, PStr t)" unfolding g' by simp
    assume "lb = Label"
    then have "\<not> touches P e" if "e_src e = (Label, PStr t)" "fst (e_dst e) = Style" for e
      using that np P [of "e_dst e"] by (auto simp: touches_def entity_labels_def dest!: stub_label_entity)
    then show "\<forall>e. e_src e = (Label, PStr t) \<and> e_rel e = HAS_STYLE \<and> fst (e_dst e) = Style \<longrightarrow>
        (e \<in> edges g' \<longleftrightarrow> e \<in> edges g) \<and> (e \<in> edges g \<longrightarrow> eprop g' e = eprop g e)" unfolding g' by simp
  qed
  have "{e \<in> edges g'. asserted e} = {e \<in> edges g. asserted e}"
    using derived unfolding g' by (auto simp: asserted_def)
  moreover have "\<not> isolated_stub lb g' n" if "ok" "lb \<in> entity_labels" for lb n
    using isolated_after [of P g lb n] P all that cl g' unfolding closed_def by blast
  ultimately show ?thesis
    using current graph_wf_detach_delete [OF wf, of P] unfolding tidies_def g' by simp
qed

lemma sentinel_cleanup_tidies:
  assumes wf: "graph_wf g" and sp: "spares g g'"
  shows "tidies cs g g'"
proof -
  have away: "\<not> at_sentinel e" if "counted e" for e
    using that by (auto simp: counted_def at_sentinel_def touches_def sentinel_node_def)
  have same: "e \<in> edges g' \<longleftrightarrow> e \<in> edges g" "eprop g' e = eprop g e" if "\<not> at_sentinel e" for e
    using sp that by (auto simp: spares_def)
  have props: "nprop g' n = nprop g n" if "fst n \<noteq> Master" for n
    using sp that unfolding spares_def by (metis fst_conv sentinel_node_def)
  have counts: "same_counts g g'"
    unfolding same_counts_def using away same props by (metis nlabel.distinct)
  have current: "stat_current cs lb g' t" if lb: "lb \<in> set stat_labels" and c: "stat_current cs lb g t" for lb t
  proof (rule current_local [OF counts _ _ c])
    show "nprop g' (lb, PStr t) = nprop g (lb, PStr t)" using lb by (intro props) (auto simp: stat_labels_def)
    have "\<not> at_sentinel e" if "e_src e = (Label, PStr t)" "fst (e_dst e) = Style" for e
      using that by (auto simp: at_sentinel_def touches_def sentinel_node_def)
    then show "\<forall>e. e_src e = (Label, PStr t) \<and> e_rel e = HAS_STYLE \<and> fst (e_dst e) = Style \<longrightarrow>
        (e \<in> edges g' \<longleftrightarrow> e \<in> edges g) \<and> (e \<in> edges g \<longrightarrow> eprop g' e = eprop g e)" using same by blast
  qed
  have "{e \<in> edges g'. asserted e} = {e \<in> edges g. asserted e}" using same by (auto simp: asserted_def)
  with current sp wf show ?thesis unfolding tidies_def spares_def by blast
qed

section \<open>The sweeps\<close>

fun sweep_of :: "string list \<Rightarrow> nlabel \<Rightarrow> stats_world paging" where
  "sweep_of categories Artist = keyed_sweep None Artist artist_stats"
| "sweep_of categories Person = keyed_sweep None Person (person_stats categories)"
| "sweep_of categories lb = fst (available None lb)"

fun sweep_step :: "nlabel \<Rightarrow> pystr" where
  "sweep_step Artist = lit ''artist_stats''"
| "sweep_step Person = lit ''person_credit_counts''"
| "sweep_step lb = stat_step lb"

text \<open>The contract's notions for the sweep over a label.\<close>

abbreviation sweep_keys :: "nlabel \<Rightarrow> stats_world \<Rightarrow> pystr list" where
  "sweep_keys lb w \<equiv> node_keys lb (sw_graph w)"

abbreviation sweep_current :: "string list \<Rightarrow> nlabel \<Rightarrow> stats_world \<Rightarrow> pystr \<Rightarrow> bool" where
  "sweep_current categories lb w \<equiv> stat_current categories lb (sw_graph w)"

definition sweep_progress :: "string list \<Rightarrow> pystr \<Rightarrow> graph_db \<Rightarrow> nlabel \<Rightarrow> bool" where
  "sweep_progress categories rk db lb =
     sweep_effect.progress (sweep_keys lb) (sweep_current categories lb) rk (sweep_step lb) db"

definition sweep_done :: "pystr \<Rightarrow> graph_db \<Rightarrow> nlabel \<Rightarrow> bool" where
  "sweep_done rk db lb = cp_done (sweep_effect.stored rk (sweep_step lb) db)"

lemma sweep_contract:
  assumes "lb \<in> set stat_labels"
  shows "sweep_effect (sweep_of cs lb) (sweep_keys lb) (sweep_current cs lb) (\<lambda>w w'. steady cs (sw_graph w) (sw_graph w'))"
proof -
  have h: "refresh_hook None = None" by (simp add: refresh_hook_def)
  from assms consider "lb = Genre" | "lb = Style" | "lb = Label" | "lb = Artist" | "lb = Person"
    by (auto simp: stat_labels_def)
  then show ?thesis
  proof cases
    case 1
    with genre.sweep_effect_axioms [of None cs] show ?thesis by (simp add: h)
  next
    case 2
    with style.sweep_effect_axioms [of None cs] show ?thesis by (simp add: h)
  next
    case 3
    with labels.sweep_effect_axioms [of None cs] show ?thesis by (simp add: h)
  next
    case 4
    with artist.sweep_effect_axioms [of None cs] show ?thesis by (simp add: h)
  next
    case 5
    with person.sweep_effect_axioms [of None cs] show ?thesis by (simp add: h)
  qed
qed

text \<open>Where a run stands: well-formed, and every sweep's checkpoint is true to the graph.\<close>

definition run_ok :: "string list \<Rightarrow> pystr \<Rightarrow> graph_db \<Rightarrow> bool" where
  "run_ok categories rk db \<longleftrightarrow> graph_wf (graph_of db) \<and> (\<forall>lb \<in> set stat_labels. sweep_progress categories rk db lb)"

lemma progress_tidies:
  assumes "run_ok cs rk db" and "tidies cs (graph_of db) (graph_of db')" and lb: "lb \<in> set stat_labels"
    and cps: "checkpoints db' (sweep_step lb) = checkpoints db (sweep_step lb)"
  shows "sweep_progress cs rk db' lb" and "sweep_done rk db' lb = sweep_done rk db lb"
proof -
  note sc = sweep_contract [OF lb, of cs]
  have fin: "finite (nodes (graph_of db))" using assms(1) by (simp add: run_ok_def graph_wf_def)
  have keys: "k \<in> set (sweep_keys lb (world db))" if "k \<in> set (sweep_keys lb (world db'))" for k
    using node_keys_nodes [OF that] assms(2) fin unfolding tidies_def graph_of_def
    by (intro node_keys_complete) auto
  have cur: "sweep_current cs lb (world db') k"
    if "k \<in> set (sweep_keys lb (world db'))" "sweep_current cs lb (world db) k" for k
    using node_keys_nodes [OF that(1)] that(2) assms(2) lb unfolding tidies_def graph_of_def by blast
  have "sweep_progress cs rk db lb" using assms(1) lb by (simp add: run_ok_def)
  then show "sweep_progress cs rk db' lb"
    unfolding sweep_progress_def
    by (rule sweep_effect.progress_mono [OF sc]) (use keys cur cps in auto)
  show "sweep_done rk db' lb = sweep_done rk db lb"
    unfolding sweep_done_def sweep_effect.stored_def [OF sc] by (simp add: cps)
qed

section \<open>Every step advances the run\<close>

definition run_advances :: "string list \<Rightarrow> pystr \<Rightarrow> graph_db \<Rightarrow> graph_db \<Rightarrow> bool" where
  "run_advances categories rk db db' \<longleftrightarrow> run_ok categories rk db' \<and> tidies categories (graph_of db) (graph_of db') \<and>
     (\<forall>lb \<in> set stat_labels. sweep_done rk db lb \<longrightarrow> sweep_done rk db' lb)"

lemma run_advances_refl: "run_ok cs rk db \<Longrightarrow> run_advances cs rk db db"
  by (simp add: run_advances_def run_ok_def tidies_refl)

lemma run_advances_trans: "run_advances cs rk a b \<Longrightarrow> run_advances cs rk b c \<Longrightarrow> run_advances cs rk a c"
  unfolding run_advances_def using tidies_trans by blast

lemma run_advances_graph:
  assumes "run_ok cs rk db" and "tidies cs (graph_of db) g"
  shows "run_advances cs rk db (db\<lparr>world := (world db)\<lparr>sw_graph := g\<rparr>\<rparr>)" (is "run_advances cs rk db ?db")
proof -
  have t: "tidies cs (graph_of db) (graph_of ?db)" using assms(2) by (simp add: graph_of_def)
  have "graph_wf (graph_of ?db)" using t by (simp add: tidies_def)
  with progress_tidies [OF assms(1) t] t show ?thesis by (simp add: run_advances_def run_ok_def)
qed

text \<open>A graph with no isolated stub, and how sweeps keep it and the absence of the sentinel.\<close>

definition stub_free :: "graph \<Rightarrow> bool" where
  "stub_free g \<longleftrightarrow> (\<forall>lb \<in> entity_labels. \<forall>n. \<not> isolated_stub lb g n)"

lemma stub_free_steady:
  assumes "steady cs g g'"
  shows "stub_free g' \<longleftrightarrow> stub_free g"
proof -
  have n: "nodes g' = nodes g" and h: "\<And>m. nprop g' m ''sha256'' = nprop g m ''sha256''"
    and e: "\<And>e. e_rel e \<noteq> HAS_STYLE \<Longrightarrow> e \<in> edges g' \<longleftrightarrow> e \<in> edges g"
    using assms unfolding steady_def same_base_def by blast+
  have "isolated_stub lb g' m \<longleftrightarrow> isolated_stub lb g m" for lb m
    unfolding isolated_stub_def n h using e by blast
  then show ?thesis by (simp add: stub_free_def)
qed

lemma stub_free_spares:
  assumes "spares g g'" and "graph_wf g" and "sentinel_node \<notin> nodes g"
  shows "stub_free g' \<longleftrightarrow> stub_free g"
proof -
  have "\<not> at_sentinel e" if "e \<in> edges g" for e
    using that assms(2,3) by (auto simp: at_sentinel_def touches_def graph_wf_def)
  then have e: "edges g' = edges g" using assms(1) unfolding spares_def by blast
  have n: "nodes g' = nodes g" using assms(1,3) unfolding spares_def by blast
  have p: "nprop g' m ''sha256'' = nprop g m ''sha256''" if "m \<in> nodes g" for m
  proof -
    from that assms(3) have "m \<noteq> sentinel_node" by blast
    with assms(1) have "nprop g' m = nprop g m" unfolding spares_def by blast
    then show ?thesis by simp
  qed
  have "isolated_stub lb g' m \<longleftrightarrow> isolated_stub lb g m" for lb m
    unfolding isolated_stub_def n e using p [of m] by metis
  then show ?thesis by (simp add: stub_free_def)
qed

text \<open>A sweep: it returns, advances the run, and a normal return means it is done.\<close>

definition swept :: "string list \<Rightarrow> pystr \<Rightarrow> nlabel set \<Rightarrow> graph_db \<Rightarrow> graph_db \<Rightarrow> bool" where
  "swept categories rk L db db' \<longleftrightarrow> (\<forall>lb \<in> L. sweep_done rk db' lb)"

definition smooth :: "string list \<Rightarrow> pystr \<Rightarrow> graph_db \<Rightarrow> graph_db \<Rightarrow> bool" where
  "smooth categories rk db db' \<longleftrightarrow> run_advances categories rk db db' \<and> steady categories (graph_of db) (graph_of db')"

lemma smooth_trans: "smooth cs rk a b \<Longrightarrow> smooth cs rk b c \<Longrightarrow> smooth cs rk a c"
  unfolding smooth_def using run_advances_trans steady_trans by blast

lemma sweep_step_inj: "a \<in> set stat_labels \<Longrightarrow> b \<in> set stat_labels \<Longrightarrow> a \<noteq> b \<Longrightarrow> sweep_step a \<noteq> sweep_step b"
  by (auto simp: stat_labels_def)

lemma sweep_runs:
  assumes ok: "run_ok cs rk db" and lb: "lb \<in> set stat_labels"
  shows "\<exists>out db'. run_checkpointed_step (sweep_of cs lb) (sweep_step lb) (Some rk) n MIN_PAGE_SIZE db = Some (out, db') \<and>
    smooth cs rk db db' \<and> (\<forall>k. out = Returned k \<longrightarrow> sweep_done rk db' lb)"
proof -
  note sc = sweep_contract [OF lb, of cs]
  have "sweep_effect.progress (sweep_keys lb) (sweep_current cs lb) rk (sweep_step lb) db"
    using ok lb by (simp add: run_ok_def sweep_progress_def)
  from sweep_effect.step_effect [OF sc _ this, of MIN_PAGE_SIZE n] obtain out db'
    where run: "run_checkpointed_step (sweep_of cs lb) (sweep_step lb) (Some rk) n MIN_PAGE_SIZE db = Some (out, db')"
      and st: "sweep_effect.settled (sweep_keys lb) (sweep_current cs lb) (\<lambda>w w'. steady cs (sw_graph w) (sw_graph w')) rk (sweep_step lb) db out db'"
      and kept: "sweep_done rk db lb \<longrightarrow> sweep_done rk db' lb"
    by (auto simp: MIN_PAGE_SIZE_def sweep_done_def)
  from st have steady: "steady cs (graph_of db) (graph_of db')" and own: "sweep_progress cs rk db' lb"
    and others: "\<forall>s. s \<noteq> sweep_step lb \<longrightarrow> checkpoints db' s = checkpoints db s"
    and fin: "\<forall>k. out = Returned k \<longrightarrow> sweep_done rk db' lb"
    unfolding sweep_effect.settled_def [OF sc] graph_of_def sweep_progress_def sweep_done_def by auto
  have t: "tidies cs (graph_of db) (graph_of db')" using steady_tidies [OF steady] ok by (simp add: run_ok_def)
  have other: "sweep_progress cs rk db' l \<and> sweep_done rk db' l = sweep_done rk db l" if "l \<in> set stat_labels" "l \<noteq> lb" for l
    using progress_tidies [OF ok t that(1)] others sweep_step_inj [OF that(1) lb that(2)] by simp
  have "run_ok cs rk db'" using own other t unfolding run_ok_def tidies_def by metis
  moreover have "\<forall>l \<in> set stat_labels. sweep_done rk db l \<longrightarrow> sweep_done rk db' l" using other kept by metis
  ultimately show ?thesis using run steady t fin unfolding smooth_def run_advances_def by blast
qed

lemma sweeps_run:
  assumes "run_ok cs rk db" and "set lbs \<subseteq> {Genre, Style, Label}"
  shows "\<exists>r db'. run_stat_sweeps None rk lbs db = Some (r, db') \<and> smooth cs rk db db' \<and>
    (r = Inr True \<longrightarrow> (\<forall>lb \<in> set lbs. sweep_done rk db' lb))"
  using assms
proof (induction lbs arbitrary: db)
  case Nil
  then show ?case by (simp add: smooth_def run_advances_refl)
next
  case (Cons lb lbs)
  then have lb: "lb \<in> set stat_labels" and av: "fst (available None lb) = sweep_of cs lb" "stat_step lb = sweep_step lb"
    by (auto simp: stat_labels_def)
  from sweep_runs [OF Cons.prems(1) lb, of "snd (available None lb)"] obtain out db1
    where run: "run_checkpointed_step (fst (available None lb)) (stat_step lb) (Some rk) (snd (available None lb)) MIN_PAGE_SIZE db = Some (out, db1)"
      and s: "smooth cs rk db db1" and fin: "\<And>k. out = Returned k \<Longrightarrow> sweep_done rk db1 lb"
    unfolding av by blast
  have ok: "run_ok cs rk db1" using s by (simp add: smooth_def run_advances_def)
  from Cons.IH [OF ok] Cons.prems(2) obtain r db2 where rest: "run_stat_sweeps None rk lbs db1 = Some (r, db2)"
    and s2: "smooth cs rk db1 db2" and fin2: "r = Inr True \<longrightarrow> (\<forall>lb \<in> set lbs. sweep_done rk db2 lb)" by auto
  have kept: "sweep_done rk db1 lb \<Longrightarrow> sweep_done rk db2 lb" using s2 lb by (simp add: smooth_def run_advances_def)
  note both = smooth_trans [OF s s2]
  show ?case
  proof (cases out)
    case (Returned k)
    with run rest both fin fin2 kept show ?thesis by auto
  next
    case (Raised e)
    with run rest both s show ?thesis by (cases e) (auto split: sum.splits)
  qed
qed

section \<open>An attempt\<close>

definition sound :: "string list \<Rightarrow> pystr \<Rightarrow> graph_step \<Rightarrow> (graph_db \<Rightarrow> graph_db \<Rightarrow> bool) \<Rightarrow> bool" where
  "sound categories rk step Q \<longleftrightarrow> (\<forall>db. run_ok categories rk db \<longrightarrow>
     (\<exists>a db1. step db = Some (a, db1) \<and> run_advances categories rk db db1 \<and> (a = StepDone \<longrightarrow> Q db db1)))"

definition performs :: "string list \<Rightarrow> pystr \<Rightarrow> (pystr \<times> graph_step) list \<Rightarrow> (graph_db \<Rightarrow> graph_db \<Rightarrow> bool) \<Rightarrow> bool" where
  "performs categories rk steps R \<longleftrightarrow> (\<forall>db. run_ok categories rk db \<longrightarrow>
     (\<exists>r db'. perform_steps steps db = Some (r, db') \<and> run_advances categories rk db db' \<and> (r = Inr [] \<longrightarrow> R db db')))"

lemma performs_Nil: "performs cs rk [] (=)"
  by (simp add: performs_def run_advances_refl)

lemma performs_Cons:
  assumes "sound cs rk step Q" and "performs cs rk steps R"
  shows "performs cs rk ((name, step) # steps) (Q OO R)"
  unfolding performs_def
proof (intro allI impI)
  fix db assume ok: "run_ok cs rk db"
  with assms(1) obtain a db1 where a: "step db = Some (a, db1)" and ad: "run_advances cs rk db db1" and q: "a = StepDone \<longrightarrow> Q db db1"
    unfolding sound_def by blast
  then have "run_ok cs rk db1" by (simp add: run_advances_def)
  with assms(2) obtain r db2 where r: "perform_steps steps db1 = Some (r, db2)" and ad2: "run_advances cs rk db1 db2"
    and q2: "r = Inr [] \<longrightarrow> R db1 db2" unfolding performs_def by blast
  note both = run_advances_trans [OF ad ad2]
  show "\<exists>r db'. perform_steps ((name, step) # steps) db = Some (r, db') \<and> run_advances cs rk db db' \<and>
      (r = Inr [] \<longrightarrow> (Q OO R) db db')"
  proof (cases "run_maintenance_step name a")
    case (Inl e)
    with a ad show ?thesis by simp
  next
    case (Inr f)
    let ?r = "bindE r (\<lambda>fs. Inr (case f of None \<Rightarrow> fs | Some x \<Rightarrow> x # fs))"
    have run: "perform_steps ((name, step) # steps) db = Some (?r, db2)" using a Inr r by simp
    have clean: "a = StepDone \<and> r = Inr []" if "?r = Inr []"
      using that Inr by (cases r) (auto simp: run_maintenance_step_def split: step_result.splits option.splits)
    with q q2 have "?r = Inr [] \<longrightarrow> (Q OO R) db db2" by blast
    with run both show ?thesis by blast
  qed
qed

lemma sound_stubs:
  "sound cs rk (\<lambda>db. Some (on_graph (cleanup_all_stub_nodes ends) db))
     (\<lambda>db db1. tidies cs (graph_of db) (graph_of db1) \<and> stub_free (graph_of db1))"
  unfolding sound_def
proof (intro allI impI)
  fix db assume ok: "run_ok cs rk db"
  obtain c g where run: "cleanup_all_stub_nodes ends (graph_of db) = (c, g)" by fastforce
  have "graph_wf (graph_of db)" using ok by (simp add: run_ok_def)
  note t = stub_cleanup_tidies [OF this run, of cs]
  moreover have "on_graph (cleanup_all_stub_nodes ends) db =
      (if c then StepDone else StepIncomplete, db\<lparr>world := (world db)\<lparr>sw_graph := g\<rparr>\<rparr>)" by (simp add: on_graph_def run)
  moreover have "graph_of (db\<lparr>world := (world db)\<lparr>sw_graph := g\<rparr>\<rparr>) = g" by (simp add: graph_of_def)
  ultimately show "\<exists>a db1. Some (on_graph (cleanup_all_stub_nodes ends) db) = Some (a, db1) \<and>
      run_advances cs rk db db1 \<and> (a = StepDone \<longrightarrow> tidies cs (graph_of db) (graph_of db1) \<and> stub_free (graph_of db1))"
    using run_advances_graph [OF ok, of g] by (auto simp: stub_free_def)
qed

lemma sound_sentinel:
  "sound cs rk (\<lambda>db. Some (on_graph (cleanup_sentinel_master edge_ends node_ends) db))
     (\<lambda>db db1. sentinel_node \<notin> nodes (graph_of db1) \<and>
        (sentinel_node \<notin> nodes (graph_of db) \<and> stub_free (graph_of db) \<longrightarrow> stub_free (graph_of db1)))"
  unfolding sound_def
proof (intro allI impI)
  fix db assume ok: "run_ok cs rk db"
  obtain c g where run: "cleanup_sentinel_master edge_ends node_ends (graph_of db) = (c, g)" by fastforce
  have wf: "graph_wf (graph_of db)" using ok by (simp add: run_ok_def)
  note out = sentinel_cleanup_outcome [OF run]
  then have "spares (graph_of db) g" by blast
  note ad = run_advances_graph [OF ok sentinel_cleanup_tidies [OF wf this]] and free = stub_free_spares [OF this wf]
  have "on_graph (cleanup_sentinel_master edge_ends node_ends) db =
      (if c then StepDone else StepIncomplete, db\<lparr>world := (world db)\<lparr>sw_graph := g\<rparr>\<rparr>)" by (simp add: on_graph_def run)
  moreover have "graph_of (db\<lparr>world := (world db)\<lparr>sw_graph := g\<rparr>\<rparr>) = g" by (simp add: graph_of_def)
  ultimately show "\<exists>a db1. Some (on_graph (cleanup_sentinel_master edge_ends node_ends) db) = Some (a, db1) \<and>
      run_advances cs rk db db1 \<and> (a = StepDone \<longrightarrow> sentinel_node \<notin> nodes (graph_of db1) \<and>
        (sentinel_node \<notin> nodes (graph_of db) \<and> stub_free (graph_of db) \<longrightarrow> stub_free (graph_of db1)))"
    using ad free out by auto
qed

lemma sound_sweeps:
  assumes "\<And>db. run_ok cs rk db \<Longrightarrow> \<exists>r db'. step db = Some (r, db') \<and> smooth cs rk db db' \<and>
    (r = Inr True \<longrightarrow> (\<forall>lb \<in> L. sweep_done rk db' lb))"
  shows "sound cs rk (\<lambda>db. map_option sweep_result (step db))
    (\<lambda>db db1. smooth cs rk db db1 \<and> (\<forall>lb \<in> L. sweep_done rk db1 lb))"
  unfolding sound_def
proof (intro allI impI)
  fix db assume "run_ok cs rk db"
  with assms obtain r db' where "step db = Some (r, db')" "smooth cs rk db db'"
    "r = Inr True \<longrightarrow> (\<forall>lb \<in> L. sweep_done rk db' lb)" by blast
  moreover have "fst (sweep_result (r, db')) = StepDone \<Longrightarrow> r = Inr True"
    by (auto simp: sweep_result_def split: sum.splits page_error.splits if_splits)
  ultimately show "\<exists>a db1. map_option sweep_result (step db) = Some (a, db1) \<and> run_advances cs rk db db1 \<and>
      (a = StepDone \<longrightarrow> smooth cs rk db db1 \<and> (\<forall>lb \<in> L. sweep_done rk db1 lb))"
    by (auto simp: sweep_result_def smooth_def)
qed

lemma genre_style_label_run:
  "run_ok cs rk db \<Longrightarrow> \<exists>r db'. compute_genre_style_stats None rk db = Some (r, db') \<and> smooth cs rk db db' \<and>
    (r = Inr True \<longrightarrow> (\<forall>lb \<in> {Genre, Style, Label}. sweep_done rk db' lb))"
  using sweeps_run [of cs rk db "[Genre, Style, Label]"] by (simp add: compute_genre_style_stats_def)

lemma artist_run:
  assumes "run_ok cs rk db"
  shows "\<exists>r db'. compute_artist_stats None rk db = Some (r, db') \<and> smooth cs rk db db' \<and>
    (r = Inr True \<longrightarrow> (\<forall>lb \<in> {Artist}. sweep_done rk db' lb))"
proof -
  from sweep_runs [OF assms, of Artist ARTIST_STATS_PAGE_SIZE] obtain out db' where
    "run_checkpointed_step (keyed_sweep None Artist artist_stats) (lit ''artist_stats'') (Some rk) ARTIST_STATS_PAGE_SIZE MIN_PAGE_SIZE db = Some (out, db')"
    "smooth cs rk db db'" "\<forall>k. out = Returned k \<longrightarrow> sweep_done rk db' Artist" by (auto simp: stat_labels_def)
  then show ?thesis by (auto simp: compute_artist_stats_def split: outcome.splits page_error.splits)
qed

lemma person_run:
  assumes "run_ok cs rk db"
  shows "\<exists>r db'. compute_person_credit_counts cs rk db = Some (r, db') \<and> smooth cs rk db db' \<and>
    (r = Inr True \<longrightarrow> (\<forall>lb \<in> {Person}. sweep_done rk db' lb))"
proof -
  from sweep_runs [OF assms, of Person PERSON_CREDIT_COUNT_BATCH_SIZE] obtain out db' where
    "run_checkpointed_step (keyed_sweep None Person (person_stats cs)) (lit ''person_credit_counts'') (Some rk) PERSON_CREDIT_COUNT_BATCH_SIZE MIN_PAGE_SIZE db = Some (out, db')"
    "smooth cs rk db db'" "\<forall>k. out = Returned k \<longrightarrow> sweep_done rk db' Person" by (auto simp: stat_labels_def)
  then show ?thesis by (auto simp: compute_person_credit_counts_def split: outcome.splits)
qed

text \<open>What a clean attempt leaves.\<close>

definition cleaned :: "pystr \<Rightarrow> graph_db \<Rightarrow> graph_db \<Rightarrow> bool" where
  "cleaned rk db db' \<longleftrightarrow> (\<forall>lb \<in> set stat_labels. sweep_done rk db' lb) \<and> sentinel_node \<notin> nodes (graph_of db') \<and>
     (sentinel_node \<notin> nodes (graph_of db) \<longrightarrow> stub_free (graph_of db'))"

lemma attempt_performs: "performs cs rk (graph_steps env cs rk) (cleaned rk)"
proof -
  note s1 = sound_stubs [of cs rk "stub_ends env"] and s2 = sound_sentinel [of cs rk "sentinel_edge_ends env" "sentinel_node_ends env"]
    and s3 = sound_sweeps [OF genre_style_label_run] and s4 = sound_sweeps [OF artist_run] and s5 = sound_sweeps [OF person_run]
  note all = performs_Cons [OF s1 performs_Cons [OF s2 performs_Cons [OF s3 performs_Cons [OF s4 performs_Cons [OF s5 performs_Nil]]]]]
  have keep: "(sentinel_node \<in> nodes (graph_of b) \<longleftrightarrow> sentinel_node \<in> nodes (graph_of a)) \<and>
      (stub_free (graph_of b) \<longleftrightarrow> stub_free (graph_of a)) \<and> (\<forall>lb \<in> set stat_labels. sweep_done rk a lb \<longrightarrow> sweep_done rk b lb)"
    if "smooth cs rk a b" for a b
    using that steady_nodes stub_free_steady unfolding smooth_def run_advances_def by blast
  show ?thesis
    unfolding performs_def
  proof (intro allI impI)
    fix db assume "run_ok cs rk db"
    with all [unfolded performs_def] obtain r db' where run: "perform_steps (graph_steps env cs rk) db = Some (r, db')"
      and ad: "run_advances cs rk db db'" and rel: "r = Inr [] \<Longrightarrow> ((\<lambda>db db1. tidies cs (graph_of db) (graph_of db1) \<and> stub_free (graph_of db1)) OO
        (\<lambda>db db1. sentinel_node \<notin> nodes (graph_of db1) \<and>
          (sentinel_node \<notin> nodes (graph_of db) \<and> stub_free (graph_of db) \<longrightarrow> stub_free (graph_of db1))) OO
        (\<lambda>db db1. smooth cs rk db db1 \<and> (\<forall>lb \<in> {Genre, Style, Label}. sweep_done rk db1 lb)) OO
        (\<lambda>db db1. smooth cs rk db db1 \<and> (\<forall>lb \<in> {Artist}. sweep_done rk db1 lb)) OO
        (\<lambda>db db1. smooth cs rk db db1 \<and> (\<forall>lb \<in> {Person}. sweep_done rk db1 lb)) OO (=)) db db'"
      unfolding graph_steps_def by blast
    have "cleaned rk db db'" if "r = Inr []"
    proof -
      from rel [OF that] obtain a b c d where a: "tidies cs (graph_of db) (graph_of a)" "stub_free (graph_of a)"
        and b: "sentinel_node \<notin> nodes (graph_of b)" "sentinel_node \<notin> nodes (graph_of a) \<and> stub_free (graph_of a) \<longrightarrow> stub_free (graph_of b)"
        and c: "smooth cs rk b c" "\<forall>lb \<in> {Genre, Style, Label}. sweep_done rk c lb"
        and d: "smooth cs rk c d" "\<forall>lb \<in> {Artist}. sweep_done rk d lb"
        and e: "smooth cs rk d db'" "\<forall>lb \<in> {Person}. sweep_done rk db' lb" by blast
      have "\<forall>lb \<in> set stat_labels. sweep_done rk db' lb"
        using c(2) d e keep [OF d(1)] keep [OF e(1)] by (simp add: stat_labels_def)
      moreover have "sentinel_node \<notin> nodes (graph_of db')" using b(1) keep [OF c(1)] keep [OF d(1)] keep [OF e(1)] by simp
      moreover have "stub_free (graph_of db')" if "sentinel_node \<notin> nodes (graph_of db)"
        using that a b(2) keep [OF c(1)] keep [OF d(1)] keep [OF e(1)] by (auto simp: tidies_def)
      ultimately show ?thesis by (simp add: cleaned_def)
    qed
    with run ad show "\<exists>r db'. perform_steps (graph_steps env cs rk) db = Some (r, db') \<and> run_advances cs rk db db' \<and>
        (r = Inr [] \<longrightarrow> cleaned rk db db')" by blast
  qed
qed

section \<open>All attempts of a run\<close>

lemma run_ok_faults:
  assumes "run_ok cs rk db"
  shows "run_advances cs rk db (db\<lparr>world := (world db)\<lparr>sw_faults := fs\<rparr>\<rparr>)" (is "run_advances cs rk db ?db")
proof -
  have g: "graph_of ?db = graph_of db" by (simp add: graph_of_def)
  have wf: "graph_wf (graph_of db)" using assms by (simp add: run_ok_def)
  then have t: "tidies cs (graph_of db) (graph_of ?db)" unfolding g by (rule tidies_refl)
  with progress_tidies [OF assms t] wf show ?thesis by (simp add: run_advances_def run_ok_def g)
qed

lemma attempts_run:
  assumes "run_ok cs rk db"
  shows "\<exists>rs db'. graph_attempts cs rk envs db = Some (rs, db') \<and> run_advances cs rk db db' \<and> length rs = length envs \<and>
    (rs \<noteq> [] \<and> last rs = Inr [] \<longrightarrow> cleaned rk db db')"
  using assms
proof (induction envs arbitrary: db)
  case Nil
  then show ?case by (simp add: run_advances_refl)
next
  case (Cons env envs)
  let ?db = "db\<lparr>world := (world db)\<lparr>sw_faults := statement_faults env\<rparr>\<rparr>"
  have g: "graph_of ?db = graph_of db" by (simp add: graph_of_def)
  note ad0 = run_ok_faults [OF Cons.prems, of "statement_faults env"]
  then have "run_ok cs rk ?db" by (simp add: run_advances_def)
  with attempt_performs [of cs rk env, unfolded performs_def] obtain r db1 where
    run: "perform_steps (graph_steps env cs rk) ?db = Some (r, db1)" and ad1: "run_advances cs rk ?db db1"
    and clean: "r = Inr [] \<longrightarrow> cleaned rk ?db db1" by blast
  note ad = run_advances_trans [OF ad0 ad1]
  then have "run_ok cs rk db1" by (simp add: run_advances_def)
  from Cons.IH [OF this] obtain rs db2 where rest: "graph_attempts cs rk envs db1 = Some (rs, db2)"
    and ad2: "run_advances cs rk db1 db2" and len: "length rs = length envs"
    and fin: "rs \<noteq> [] \<and> last rs = Inr [] \<longrightarrow> cleaned rk db1 db2" by blast
  have "cleaned rk db db2" if "last (r # rs) = Inr []"
  proof (cases "rs = []")
    case True
    with len have "envs = []" by simp
    with rest have "db2 = db1" by simp
    with True that clean g show ?thesis by (simp add: cleaned_def)
  next
    case False
    with that fin have "cleaned rk db1 db2" by simp
    moreover have "sentinel_node \<in> nodes (graph_of db1) \<Longrightarrow> sentinel_node \<in> nodes (graph_of db)"
      using ad by (auto simp: run_advances_def tidies_def)
    ultimately show ?thesis by (auto simp: cleaned_def)
  qed
  with run rest len run_advances_trans [OF ad ad2] show ?case by auto
qed

lemma fresh_run_ok:
  assumes "graph_wf (graph_of db)"
    and "\<forall>lb \<in> set stat_labels. case checkpoints db (sweep_step lb) of None \<Rightarrow> True | Some c \<Rightarrow> sc_run_key c \<noteq> rk"
  shows "run_ok cs rk db"
  unfolding run_ok_def sweep_progress_def
  using assms sweep_effect.progress_fresh [OF sweep_contract] by blast

section \<open>Undisturbed attempts\<close>

definition undisturbed_env :: "attempt_env \<Rightarrow> bool" where
  "undisturbed_env env \<longleftrightarrow> statement_faults env = [] \<and> (\<forall>dt k b. stub_ends env dt k b = Completed) \<and>
     (\<forall>k b. sentinel_edge_ends env k b = Completed) \<and> (\<forall>k b. sentinel_node_ends env k b = Completed)"

definition calm_step :: "graph_step \<Rightarrow> bool" where
  "calm_step step \<longleftrightarrow> (\<forall>db a db1. calm (world db) \<longrightarrow> step db = Some (a, db1) \<longrightarrow> calm (world db1) \<and> a = StepDone)"

lemma perform_calm:
  assumes "perform_steps steps db = Some (r, db')" and "\<forall>s \<in> set steps. calm_step (snd s)" and "calm (world db)"
  shows "r = Inr []"
  using assms
proof (induction steps arbitrary: db r)
  case (Cons s steps)
  obtain name step where s: "s = (name, step)" by (cases s)
  from Cons.prems(1) s obtain a db1 where a: "step db = Some (a, db1)" by (auto split: option.splits)
  with Cons.prems(2,3) s have "calm (world db1)" "a = StepDone" by (auto simp: calm_step_def)
  with Cons s a show ?case by (auto simp: run_maintenance_step_def)
qed simp

lemma completed_query: "(\<And>k b. ends k b = Completed) \<Longrightarrow>
    run_maintenance_query b rows apply ends g = (Some True, apply (rows g) g)"
  by (simp add: run_maintenance_query_def MAINTENANCE_MAX_ATTEMPTS_def numeral_eq_Suc)

lemma completed_stubs: "(\<And>dt k b. ends dt k b = Completed) \<Longrightarrow> fst (cleanup_all_stub_nodes ends g)"
proof -
  assume ends: "\<And>dt k b. ends dt k b = Completed"
  have "fst (cleanup_types ends dts g)" for dts
    by (induction dts arbitrary: g) (auto simp: cleanup_stub_nodes_def completed_query ends split: option.splits prod.splits)
  then show ?thesis by (simp add: cleanup_all_stub_nodes_def)
qed

lemma calm_on_graph: "(\<And>g. fst (f g)) \<Longrightarrow> calm_step (\<lambda>db. Some (on_graph f db))"
  by (auto simp: calm_step_def on_graph_def calm_def split: prod.splits) (metis fst_conv)+

lemma calm_sweeps:
  assumes "run_stat_sweeps None rk lbs db = Some (r, db')" and "calm (world db)"
  shows "r = Inr True \<and> calm (world db')"
  using assms
proof (induction lbs arbitrary: db r)
  case (Cons lb lbs)
  from Cons.prems(1) obtain out db1 where
    run: "run_checkpointed_step (fst (available None lb)) (stat_step lb) (Some rk) (snd (available None lb)) MIN_PAGE_SIZE db = Some (out, db1)"
    by (auto split: option.splits)
  have "calm (world db1) \<and> (\<exists>k. out = Returned k)"
  proof (cases "lb = Label")
    case True
    with run Cons.prems(2) show ?thesis by (auto dest: calm_keyed.step_quiet)
  next
    case False
    then have "available None lb = (per_key_sweep None lb (build_node_stat_statements lb), GENRE_STYLE_STATS_PAGE_SIZE)"
      by (cases lb) simp_all
    with run Cons.prems(2) show ?thesis by (auto dest: calm_per_key.step_quiet)
  qed
  with Cons run show ?case by auto
qed simp

lemma calm_graph_steps:
  assumes "undisturbed_env env" and "s \<in> set (graph_steps env cs rk)"
  shows "calm_step (snd s)"
proof -
  have "calm_step (\<lambda>db. Some (on_graph (cleanup_all_stub_nodes (stub_ends env)) db))"
    using assms(1) by (intro calm_on_graph completed_stubs) (simp add: undisturbed_env_def)
  moreover have "calm_step (\<lambda>db. Some (on_graph (cleanup_sentinel_master (sentinel_edge_ends env) (sentinel_node_ends env)) db))"
    using assms(1) by (intro calm_on_graph) (simp add: undisturbed_env_def cleanup_sentinel_master_def completed_query)
  moreover have "calm_step (\<lambda>db. map_option sweep_result (compute_genre_style_stats None rk db))"
    by (auto simp: calm_step_def sweep_result_def compute_genre_style_stats_def simp del: run_stat_sweeps.simps dest!: calm_sweeps)
  moreover have "calm_step (\<lambda>db. map_option sweep_result (compute_artist_stats None rk db))"
    by (auto simp: calm_step_def sweep_result_def compute_artist_stats_def split: option.splits outcome.splits page_error.splits
        dest: calm_keyed.step_quiet)
  moreover have "calm_step (\<lambda>db. map_option sweep_result (compute_person_credit_counts cs rk db))"
    by (auto simp: calm_step_def sweep_result_def compute_person_credit_counts_def split: option.splits outcome.splits
        dest: calm_keyed.step_quiet)
  ultimately show ?thesis using assms(2) by (auto simp: graph_steps_def)
qed

lemma attempts_snoc:
  assumes "graph_attempts cs rk (envs @ [env]) db = Some (rs, db')"
  shows "\<exists>db1 r. perform_steps (graph_steps env cs rk) (db1\<lparr>world := (world db1)\<lparr>sw_faults := statement_faults env\<rparr>\<rparr>) = Some (r, db') \<and>
    rs \<noteq> [] \<and> last rs = r"
  using assms
proof (induction envs arbitrary: db rs)
  case Nil
  then show ?case by (auto split: option.splits)
next
  case (Cons e envs)
  from Cons.prems obtain r1 db1 rs1 where "graph_attempts cs rk (envs @ [env]) db1 = Some (rs1, db')" "rs = r1 # rs1"
    by (auto split: option.splits)
  with Cons.IH show ?case by fastforce
qed

lemma undisturbed_last:
  assumes "undisturbed_env env" and "graph_attempts cs rk (envs @ [env]) db = Some (rs, db')"
  shows "rs \<noteq> [] \<and> last rs = Inr []"
proof -
  from attempts_snoc [OF assms(2)] obtain db1 r where
    run: "perform_steps (graph_steps env cs rk) (db1\<lparr>world := (world db1)\<lparr>sw_faults := statement_faults env\<rparr>\<rparr>) = Some (r, db')"
    and rs: "rs \<noteq> []" "last rs = r" by blast
  have "r = Inr []"
    using perform_calm [OF run] calm_graph_steps [OF assms(1)] assms(1) by (simp add: calm_def undisturbed_env_def)
  with rs show ?thesis by simp
qed

section \<open>Properties\<close>


text \<open>A label with a release in a style, an artist stub; the first attempt meets an error.\<close>

definition import_graph :: graph where
  "import_graph = \<lparr>nodes = {(Release, PStr (lit ''1'')), (Label, PStr (lit ''2'')), (Style, PStr (lit ''s'')), (Artist, PStr (lit ''3''))},
     nprop = (\<lambda>n k. if k = ''sha256'' \<and> n \<in> {(Release, PStr (lit ''1'')), (Label, PStr (lit ''2''))} then PStr (lit ''h'') else PNone),
     edges = {plain (Release, PStr (lit ''1'')) ON (Label, PStr (lit ''2'')), plain (Release, PStr (lit ''1'')) IS (Style, PStr (lit ''s''))},
     eprop = (\<lambda>_ _. PNone)\<rparr>"

definition import_db :: graph_db where
  "import_db = \<lparr>world = \<lparr>sw_graph = import_graph, sw_faults = [], sw_views = [], sw_next_check = 0\<rparr>, checkpoints = Map.empty\<rparr>"

definition all_ends :: "(page_error \<times> bool) option list \<Rightarrow> attempt_env" where
  "all_ends fs = \<lparr>stub_ends = \<lambda>_ _ _. Completed, sentinel_edge_ends = \<lambda>_ _. Completed,
     sentinel_node_ends = \<lambda>_ _. Completed, statement_faults = fs\<rparr>"

lemma import_graph_wf: "graph_wf import_graph"
  by (auto simp: graph_wf_def import_graph_def)

lemma import_run:
  "\<exists>rs db'. graph_attempts [''production''] [1] ([all_ends [None, None, Some (OtherError, False)]] @ [all_ends []]) import_db = Some (rs, db') \<and>
     rs \<noteq> [] \<and> last rs = Inr []"
proof -
  have "run_ok [''production''] [1] import_db"
    using import_graph_wf by (intro fresh_run_ok) (simp_all add: import_db_def graph_of_def)
  from attempts_run [OF this] obtain rs db' where
    run: "graph_attempts [''production''] [1] ([all_ends [None, None, Some (OtherError, False)]] @ [all_ends []]) import_db = Some (rs, db')"
    by blast
  have "undisturbed_env (all_ends [])" by (simp add: undisturbed_env_def all_ends_def)
  from undisturbed_last [OF this run] run show ?thesis by blast
qed


text \<open>
  C27. Maintenance makes progress: every attempt of a run returns with a report, whatever fails in
  it; the asserted edges away from the sentinel are what they were; and an attempt that nothing
  disturbs, after any number of failed ones, reports no failed step.
\<close>

theorem attempts_make_progress:
  assumes "graph_wf (graph_of db)"
    and "\<forall>lb \<in> set stat_labels. case checkpoints db (sweep_step lb) of None \<Rightarrow> True | Some c \<Rightarrow> sc_run_key c \<noteq> rk"
    and "undisturbed_env env"
  shows "\<exists>rs db'. graph_attempts categories rk (envs @ [env]) db = Some (rs, db') \<and> length rs = length envs + 1 \<and>
    last rs = Inr [] \<and> graph_wf (graph_of db') \<and>
    {e \<in> edges (graph_of db'). asserted e} = {e \<in> edges (graph_of db). asserted e}"
proof -
  from attempts_run [OF fresh_run_ok [OF assms(1,2)], of categories "envs @ [env]"] obtain rs db' where
    run: "graph_attempts categories rk (envs @ [env]) db = Some (rs, db')" and ad: "run_advances categories rk db db'"
    and len: "length rs = length (envs @ [env])" by blast
  with undisturbed_last [OF assms(3) run] show ?thesis by (auto simp: run_advances_def tidies_def)
qed

lemma attempts_make_progress_witness:
  "\<exists>rs db'. graph_attempts [''production''] [1] ([all_ends [Some (TransientError, True)]] @ [all_ends []]) import_db = Some (rs, db') \<and>
     length rs = 2 \<and> last rs = Inr [] \<and>
     {e \<in> edges (graph_of db'). asserted e} = {e \<in> edges (graph_of import_db). asserted e}"
proof -
  have "undisturbed_env (all_ends [])" by (simp add: undisturbed_env_def all_ends_def)
  moreover have "graph_wf (graph_of import_db)" "\<forall>lb \<in> set stat_labels. case checkpoints import_db (sweep_step lb) of None \<Rightarrow> True | Some c \<Rightarrow> sc_run_key c \<noteq> [1]"
    using import_graph_wf by (simp_all add: import_db_def graph_of_def)
  ultimately show ?thesis
    using attempts_make_progress [of import_db "[1]" "all_ends []" "[''production'']" "[all_ends [Some (TransientError, True)]]"] by auto
qed

definition sentinel_graph :: graph where
  "sentinel_graph = empty_graph\<lparr>nodes := {sentinel_node, (Artist, PInt 1)}, edges := {plain sentinel_node BY (Artist, PInt 1)}\<rparr>"

lemma sentinel_graph_stubs: "cleanup_all_stub_nodes (stub_ends (all_ends [])) sentinel_graph = (True, sentinel_graph)"
proof -
  have "isolated_stub lb sentinel_graph = (\<lambda>_. False)" for lb
    by (auto simp: fun_eq_iff isolated_stub_def sentinel_graph_def touches_def empty_graph_def sentinel_node_def)
  moreover have "detach_delete (\<lambda>_. False) sentinel_graph = sentinel_graph"
    by (rule graph.equality) (simp_all add: touches_def)
  ultimately have one: "cleanup_stub_nodes (stub_ends (all_ends []) dt) dt sentinel_graph = (True, sentinel_graph)" for dt
    by (simp add: cleanup_stub_nodes_def completed_query all_ends_def split: option.splits)
  have "cleanup_types (stub_ends (all_ends [])) dts sentinel_graph = (True, sentinel_graph)" for dts
    by (induction dts) (simp_all add: one)
  then show ?thesis by (simp add: cleanup_all_stub_nodes_def)
qed


end
