(* ===== verification/StubBackfill.thy ===== *)
theory StubBackfill
  imports References PropertyGraph ServiceState
begin

text \<open>
  \<^verbatim>\<open>graphinator/stub_name_backfill.py\<close>: filling the names of artist and label stubs from a file
  of JSON lines, in batches, with a checkpoint file. A run can fail at every transaction and at
  the checkpoint; what it leaves is what the next run starts from.
\<close>

section \<open>Lines\<close>

text \<open>A kind, the entity's id as text, and its name.\<close>

type_synonym stub_row = "pystr \<times> pystr"

definition FILL_KINDS :: "(string \<times> nlabel) list" where
  "FILL_KINDS = [(''Label'', Label), (''Artist'', Artist)]"

text \<open>\<^verbatim>\<open>kind not in FILL_NAME_CYPHER\<close>: a list or a dictionary cannot be hashed.\<close>

definition fill_kind :: "pyval \<Rightarrow> py_error + nlabel option" where
  "fill_kind v =
     (if is_list v \<or> is_dict v then Inl TypeError
      else Inr (map_option snd (List.find (\<lambda>(t, _). v = PStr (lit t)) FILL_KINDS)))"

text \<open>\<open>loads\<close> is the JSON parser; \<open>None\<close>: the line is not JSON.\<close>

definition parse_line :: "'z runtime_scheme \<Rightarrow> (pystr \<Rightarrow> pyval option) \<Rightarrow> pystr \<Rightarrow> py_error + (nlabel \<times> stub_row) option" where
  "parse_line rt loads text =
     (if py_strip text = [] then Inr None
      else case loads (py_strip text) of
        Some (PDict d) \<Rightarrow>
          bindE (fill_kind (dget d ''kind'')) (\<lambda>kind.
            case kind of
              None \<Rightarrow> Inr None
            | Some k \<Rightarrow> bindE (reference_name (PDict d)) (\<lambda>name.
                case name of
                  PStr n \<Rightarrow>
                    let i = dget d ''id'' in
                    if i = PNone \<or> i = PBool True \<or> i = PBool False then Inr None else Inr (Some (k, (py_str rt i, n)))
                | _ \<Rightarrow> Inr None))
      | _ \<Rightarrow> Inr None)"

section \<open>The checkpoint file\<close>

text \<open>The file's content, \<open>None\<close> when there is no file or no path for one.\<close>

definition read_line_count :: "pystr option \<Rightarrow> int" where
  "read_line_count content =
     (case content of
        None \<Rightarrow> 0
      | Some t \<Rightarrow>
          (case py_int (if py_strip t = [] then lit ''0'' else py_strip t) of
             Inl _ \<Rightarrow> 0
           | Inr n \<Rightarrow> max 0 n))"

definition line_count_text :: "nat \<Rightarrow> pystr" where
  "line_count_text n = dec_of_nat n @ [10]"

section \<open>The fill statement\<close>

text \<open>
  \<^verbatim>\<open>UNWIND ... MATCH ... WHERE n.name IS NULL SET n.name = row.name RETURN count(n)\<close>: the rows
  whose node exists and has no name are found first, then the names are set.
\<close>

definition stub_node :: "nlabel \<Rightarrow> pystr \<Rightarrow> node" where
  "stub_node k i = (k, PStr i)"

definition nameless :: "graph \<Rightarrow> node \<Rightarrow> bool" where
  "nameless g m \<longleftrightarrow> m \<in> nodes g \<and> nprop g m ''name'' = PNone"

definition fill_names :: "nlabel \<Rightarrow> stub_row list \<Rightarrow> graph \<Rightarrow> nat \<times> graph" where
  "fill_names k rows g =
     (let matched = filter (\<lambda>r. nameless g (stub_node k (fst r))) rows
      in (length matched, fold (\<lambda>r. set_node (stub_node k (fst r)) [(''name'', PStr (snd r))]) matched g))"

section \<open>A run\<close>

record backfill =
  bf_graph :: graph
  bf_file :: "pystr option"
  bf_faults :: "fault list"
  bf_batch :: "nlabel \<Rightarrow> stub_row list"
  bf_pending :: nat
  bf_lines :: nat
  bf_skipped :: nat
  bf_filled :: nat

record fill_config =
  fc_batch_size :: nat
  fc_checkpoint :: bool
  fc_dry_run :: bool

definition clear_kind :: "nlabel \<Rightarrow> backfill \<Rightarrow> backfill" where
  "clear_kind k s = s\<lparr>bf_batch := (bf_batch s)(k := [])\<rparr>"

fun flush_kinds :: "fill_config \<Rightarrow> nlabel list \<Rightarrow> backfill \<Rightarrow> bool \<times> backfill" where
  "flush_kinds cfg [] s = (True, s)"
| "flush_kinds cfg (k # ks) s =
     (if bf_batch s k = [] \<or> fc_dry_run cfg then flush_kinds cfg ks (clear_kind k s)
      else case next_outcome (bf_faults s) of (f, fs) \<Rightarrow>
        case fill_names k (bf_batch s k) (bf_graph s) of (n, g) \<Rightarrow>
          (case f of
             Rejected \<Rightarrow> (False, s\<lparr>bf_faults := fs\<rparr>)
           | AnswerLost \<Rightarrow> (False, s\<lparr>bf_faults := fs, bf_graph := g\<rparr>)
           | Fine \<Rightarrow> flush_kinds cfg ks (clear_kind k (s\<lparr>bf_faults := fs, bf_graph := g, bf_filled := bf_filled s + n\<rparr>))))"

text \<open>The checkpoint is truncated before it is written.\<close>

definition write_checkpoint_file :: "fill_config \<Rightarrow> nat \<Rightarrow> backfill \<Rightarrow> bool \<times> backfill" where
  "write_checkpoint_file cfg position s =
     (if \<not> fc_checkpoint cfg then (True, s)
      else case next_outcome (bf_faults s) of
        (Rejected, fs) \<Rightarrow> (False, s\<lparr>bf_faults := fs\<rparr>)
      | (AnswerLost, fs) \<Rightarrow> (False, s\<lparr>bf_faults := fs, bf_file := Some []\<rparr>)
      | (Fine, fs) \<Rightarrow> (True, s\<lparr>bf_faults := fs, bf_file := Some (line_count_text position)\<rparr>))"

definition flush_batch :: "fill_config \<Rightarrow> nat \<Rightarrow> backfill \<Rightarrow> bool \<times> backfill" where
  "flush_batch cfg position s =
     (case flush_kinds cfg (map snd FILL_KINDS) s of
        (False, s1) \<Rightarrow> (False, s1)
      | (True, s1) \<Rightarrow>
          (case (if fc_dry_run cfg then (True, s1) else write_checkpoint_file cfg position s1) of
             (ok, s2) \<Rightarrow> (ok, if ok then s2\<lparr>bf_pending := 0\<rparr> else s2)))"

definition push_row :: "nlabel \<Rightarrow> stub_row \<Rightarrow> backfill \<Rightarrow> backfill" where
  "push_row k r s = s\<lparr>bf_batch := (bf_batch s)(k := bf_batch s k @ [r]), bf_pending := Suc (bf_pending s)\<rparr>"

text \<open>The loop over the lines; a failed transaction or an unreadable line ends the run.\<close>

fun fill_lines ::
  "fill_config \<Rightarrow> (pystr \<Rightarrow> py_error + (nlabel \<times> stub_row) option) \<Rightarrow> int \<Rightarrow> nat \<Rightarrow> pystr list \<Rightarrow> backfill \<Rightarrow> bool \<times> backfill" where
  "fill_lines cfg parse start position [] s =
     (if 0 < bf_pending s \<or> start < int position then flush_batch cfg position s else (True, s))"
| "fill_lines cfg parse start position (l # ls) s =
     (if int (Suc position) \<le> start then fill_lines cfg parse start (Suc position) ls s
      else
        let s1 = s\<lparr>bf_lines := Suc (bf_lines s)\<rparr> in
        case parse l of
          Inl _ \<Rightarrow> (False, s1)
        | Inr None \<Rightarrow> fill_lines cfg parse start (Suc position) ls (s1\<lparr>bf_skipped := Suc (bf_skipped s1)\<rparr>)
        | Inr (Some (k, r)) \<Rightarrow>
            let s2 = push_row k r s1 in
            if fc_batch_size cfg \<le> bf_pending s2
            then (case flush_batch cfg (Suc position) s2 of
                    (False, s3) \<Rightarrow> (False, s3)
                  | (True, s3) \<Rightarrow> fill_lines cfg parse start (Suc position) ls s3)
            else fill_lines cfg parse start (Suc position) ls s2)"

text \<open>One run on a graph and a checkpoint file, with the faults it meets.\<close>

definition start_run :: "graph \<Rightarrow> pystr option \<Rightarrow> fault list \<Rightarrow> backfill" where
  "start_run g content fs =
     \<lparr>bf_graph = g, bf_file = content, bf_faults = fs, bf_batch = (\<lambda>_. []), bf_pending = 0, bf_lines = 0,
      bf_skipped = 0, bf_filled = 0\<rparr>"

definition backfill_run ::
  "fill_config \<Rightarrow> (pystr \<Rightarrow> py_error + (nlabel \<times> stub_row) option) \<Rightarrow> pystr list \<Rightarrow> graph \<Rightarrow> pystr option \<Rightarrow> fault list \<Rightarrow> bool \<times> backfill" where
  "backfill_run cfg parse ls g content fs =
     fill_lines cfg parse (if fc_checkpoint cfg then read_line_count content else 0) 0 ls (start_run g content fs)"

text \<open>Runs one after the other, each on what the one before left.\<close>

fun backfill_runs ::
  "fill_config \<Rightarrow> (pystr \<Rightarrow> py_error + (nlabel \<times> stub_row) option) \<Rightarrow> pystr list \<Rightarrow> fault list list \<Rightarrow> graph \<times> pystr option \<Rightarrow>
     graph \<times> pystr option" where
  "backfill_runs cfg parse ls [] w = w"
| "backfill_runs cfg parse ls (fs # fss) w =
     (case backfill_run cfg parse ls (fst w) (snd w) fs of
        (_, s) \<Rightarrow> backfill_runs cfg parse ls fss (bf_graph s, bf_file s))"

section \<open>The checkpoint reads back\<close>

lemma py_strip_line: "py_strip (dec_of_nat n @ [10]) = dec_of_nat n"
proof -
  have ends: "\<not> is_space (hd (dec_of_nat n))" "\<not> is_space (last (dec_of_nat n))"
    using dec_of_nat_ascii space_point_not_ascii_digit
    by (meson dec_of_nat_nonempty hd_in_set last_in_set)+
  obtain c cs where d: "dec_of_nat n = c # cs" by (cases "dec_of_nat n") auto
  have "is_space 10" by (simp add: is_space_def space_points_def)
  moreover have "dropWhile is_space (dec_of_nat n @ [10]) = dec_of_nat n @ [10]" using ends(1) d by simp
  moreover have "dropWhile is_space (rev (dec_of_nat n)) = rev (dec_of_nat n)"
    using ends(2) by (simp add: dropWhile_rev_last)
  ultimately show ?thesis by (simp add: py_strip_def)
qed

lemma read_line_count_text: "read_line_count (Some (line_count_text n)) \<in> {0, int n}"
proof (cases "length (dec_of_nat n) \<le> int_max_str_digits")
  case True
  with py_int_dec_of_nat show ?thesis by (simp add: read_line_count_def line_count_text_def py_strip_line)
next
  case False
  obtain c cs where d: "dec_of_nat n = c # cs" by (cases "dec_of_nat n") auto
  have c: "48 \<le> c" "c \<le> 57" using dec_of_nat_ascii [of c n] d by simp_all
  have "95 \<notin> set (dec_of_nat n)" using dec_of_nat_ascii [of 95 n] by auto
  then have "drop_underscores (dec_of_nat n) = Some (dec_of_nat n)" by (simp add: drop_underscores_none)
  with False have "unsigned_of (dec_of_nat n) = Inl ValueError" by (simp add: unsigned_of_def)
  with c d py_strip_dec_of_nat [of n] have "py_int (dec_of_nat n) = Inl ValueError" by (simp add: py_int_def)
  then show ?thesis by (simp add: read_line_count_def line_count_text_def py_strip_line)
qed

text \<open>
  C35. The line count a checkpoint file is written with is the one a later run reads from it.
\<close>

theorem checkpoint_roundtrip:
  assumes "length (dec_of_nat n) \<le> int_max_str_digits"
  shows "read_line_count (Some (line_count_text n)) = int n"
  using py_int_dec_of_nat [OF assms] by (simp add: read_line_count_def line_count_text_def py_strip_line)

lemma checkpoint_roundtrip_witness: "read_line_count (Some (line_count_text 1234)) = 1234"
proof -
  have "length (dec_of_nat 1234) \<le> int_max_str_digits" by code_simp
  from checkpoint_roundtrip [OF this] show ?thesis by simp
qed

section \<open>Filling only what is missing\<close>

text \<open>
  A graph that differs from another only in names that were missing there and come from \<open>R\<close>.
\<close>

definition named_from :: "(nlabel \<times> stub_row) set \<Rightarrow> graph \<Rightarrow> graph \<Rightarrow> bool" where
  "named_from R g g' \<longleftrightarrow> nodes g' = nodes g \<and> edges g' = edges g \<and> eprop g' = eprop g \<and>
     (\<forall>m p. nprop g' m p = nprop g m p \<or>
        p = ''name'' \<and> nameless g m \<and> (\<exists>k i n. (k, (i, n)) \<in> R \<and> m = stub_node k i \<and> nprop g' m p = PStr n))"

lemma named_from_refl [simp]: "named_from R g g"
  by (simp add: named_from_def)

lemma named_from_mono: "named_from R g g' \<Longrightarrow> R \<subseteq> S \<Longrightarrow> named_from S g g'"
  unfolding named_from_def by blast

lemma named_keeps: "named_from R g g' \<Longrightarrow> m \<in> nodes g \<Longrightarrow> \<not> nameless g m \<Longrightarrow> \<not> nameless g' m"
  unfolding named_from_def nameless_def by metis

lemma named_nodes: "named_from R g g' \<Longrightarrow> nodes g' = nodes g"
  by (simp add: named_from_def)

lemma named_settled: "named_from R g g' \<Longrightarrow> \<not> nameless g m \<Longrightarrow> \<not> nameless g' m"
  using named_keeps named_nodes by (metis nameless_def)

lemma named_from_trans:
  assumes "named_from R g h" and "named_from R h k"
  shows "named_from R g k"
  unfolding named_from_def
proof (intro conjI allI)
  fix m p
  show "nprop k m p = nprop g m p \<or>
    p = ''name'' \<and> nameless g m \<and> (\<exists>l i n. (l, (i, n)) \<in> R \<and> m = stub_node l i \<and> nprop k m p = PStr n)"
  proof (cases "nprop h m p = nprop g m p")
    case True
    then show ?thesis using assms unfolding named_from_def nameless_def by metis
  next
    case False
    with assms(1) have h: "p = ''name''" "nameless g m" "\<exists>l i n. (l, (i, n)) \<in> R \<and> m = stub_node l i \<and> nprop h m p = PStr n"
      unfolding named_from_def by blast+
    then have "\<not> nameless h m" by (auto simp: nameless_def)
    with assms(2) h(1) have "nprop k m p = nprop h m p" unfolding named_from_def by blast
    with h show ?thesis by simp
  qed
qed (use assms in \<open>simp_all add: named_from_def\<close>)

lemma named_from_done:
  assumes "named_from R g g'" and "\<forall>k i n. (k, (i, n)) \<in> R \<longrightarrow> \<not> nameless g (stub_node k i)"
  shows "g' = g"
proof -
  have "nprop g' m p = nprop g m p" for m p using assms unfolding named_from_def by blast
  then have "nprop g' = nprop g" by (simp add: fun_eq_iff)
  with assms(1) show ?thesis by (simp add: named_from_def)
qed

lemma fold_names:
  defines "f \<equiv> \<lambda>k. fold (\<lambda>r. set_node (stub_node k (fst r)) [(''name'', PStr (snd r))])"
  shows "nodes (f k rs g) = nodes g \<and> edges (f k rs g) = edges g \<and> eprop (f k rs g) = eprop g"
    and "(\<exists>r \<in> set rs. m = stub_node k (fst r) \<and> p = ''name'' \<and> nprop (f k rs g) m p = PStr (snd r)) \<or>
      nprop (f k rs g) m p = nprop g m p \<and> \<not> (p = ''name'' \<and> (\<exists>r \<in> set rs. m = stub_node k (fst r)))"
  unfolding f_def
  by (induction rs rule: rev_induct) (auto simp: nprop_set_node)

lemma fill_names_effect:
  assumes "fill_names k rows g = (n, g')"
  shows "named_from {(k, r) | r. r \<in> set rows} g g'" and "r \<in> set rows \<Longrightarrow> \<not> nameless g' (stub_node k (fst r))"
proof -
  let ?ms = "filter (\<lambda>r. nameless g (stub_node k (fst r))) rows"
  from assms have g': "g' = fold (\<lambda>r. set_node (stub_node k (fst r)) [(''name'', PStr (snd r))]) ?ms g"
    by (simp add: fill_names_def Let_def)
  note part = fold_names(1) [of k ?ms g, folded g'] and val = fold_names(2) [of ?ms _ k _ g, folded g']
  show "named_from {(k, r) | r. r \<in> set rows} g g'"
    unfolding named_from_def
  proof (intro conjI allI)
    fix m p
    show "nprop g' m p = nprop g m p \<or> p = ''name'' \<and> nameless g m \<and>
      (\<exists>l i n. (l, (i, n)) \<in> {(k, r) | r. r \<in> set rows} \<and> m = stub_node l i \<and> nprop g' m p = PStr n)"
      using val [of m p]
    proof (elim disjE bexE conjE)
      fix r assume r: "r \<in> set ?ms" and m: "m = stub_node k (fst r)" "p = ''name''" "nprop g' m p = PStr (snd r)"
      obtain i n where in_: "r = (i, n)" by (cases r)
      from r have "(k, (i, n)) \<in> {(k, r) | r. r \<in> set rows}" "nameless g m" using in_ m(1) by auto
      moreover from m in_ have "m = stub_node k i" "nprop g' m p = PStr n" by simp_all
      ultimately show ?thesis using m(2) by blast
    qed simp
  qed (use part in simp_all)
  assume r: "r \<in> set rows"
  show "\<not> nameless g' (stub_node k (fst r))"
  proof (cases "nameless g (stub_node k (fst r))")
    case True
    with r have "r \<in> set ?ms" by simp
    then have "\<exists>q \<in> set ?ms. stub_node k (fst r) = stub_node k (fst q)" by blast
    with val [of "stub_node k (fst r)" "''name''"]
    have "nprop g' (stub_node k (fst r)) ''name'' \<noteq> PNone" by force
    then show ?thesis by (simp add: nameless_def)
  next
    case False
    with val [of "stub_node k (fst r)" "''name''"] part show ?thesis by (auto simp: nameless_def)
  qed
qed

section \<open>What a run leaves\<close>

definition batch_rows :: "backfill \<Rightarrow> (nlabel \<times> stub_row) set" where
  "batch_rows s = {(k, r). r \<in> set (bf_batch s k)}"

lemma batch_rows_empty: "batch_rows s' \<subseteq> batch_rows s \<Longrightarrow> bf_batch s k = [] \<Longrightarrow> bf_batch s' k = []"
proof (cases "bf_batch s' k")
  case (Cons r rs)
  assume sub: "batch_rows s' \<subseteq> batch_rows s" and empty: "bf_batch s k = []"
  from Cons have "(k, r) \<in> batch_rows s'" by (simp add: batch_rows_def)
  with sub have "(k, r) \<in> batch_rows s" by blast
  with empty show ?thesis by (simp add: batch_rows_def)
qed

lemma flush_kinds_effect:
  assumes "flush_kinds cfg ks s = (ok, s')" and "\<not> fc_dry_run cfg"
  shows "named_from (batch_rows s) (bf_graph s) (bf_graph s') \<and> bf_file s' = bf_file s \<and> bf_pending s' = bf_pending s \<and>
    batch_rows s' \<subseteq> batch_rows s \<and>
    (\<forall>k r. (k, r) \<in> batch_rows s \<longrightarrow> (k, r) \<in> batch_rows s' \<or> \<not> nameless (bf_graph s') (stub_node k (fst r))) \<and>
    (ok \<longrightarrow> (\<forall>k \<in> set ks. bf_batch s' k = [])) \<and> (bf_faults s = [] \<longrightarrow> ok \<and> bf_faults s' = [])"
  using assms(1)
proof (induction ks arbitrary: s)
  case (Cons k ks)
  show ?case
  proof (cases "bf_batch s k = []")
    case True
    let ?s1 = "clear_kind k s"
    have e: "?s1 = s" using True by (cases s) (simp add: clear_kind_def fun_upd_idem)
    from Cons.prems True have "flush_kinds cfg ks s = (ok, s')" by (simp add: e)
    note IH = Cons.IH [OF this]
    have "bf_batch s' k = []" using IH True batch_rows_empty by blast
    with IH show ?thesis by simp
  next
    case False
    obtain f fs where nx: "next_outcome (bf_faults s) = (f, fs)" by fastforce
    obtain n g where fill: "fill_names k (bf_batch s k) (bf_graph s) = (n, g)" by fastforce
    note eff = fill_names_effect [OF fill]
    have sub: "{(k, r) | r. r \<in> set (bf_batch s k)} \<subseteq> batch_rows s" by (auto simp: batch_rows_def)
    note g = named_from_mono [OF eff(1) sub]
    have quiet: "bf_faults s = [] \<Longrightarrow> f = Fine \<and> fs = []" using nx by (auto simp: next_outcome_def)
    show ?thesis
    proof (cases f)
      case Rejected
      with Cons.prems False nx fill assms(2) have "\<not> ok" "s' = s\<lparr>bf_faults := fs\<rparr>" by auto
      with quiet Rejected show ?thesis by (auto simp: batch_rows_def)
    next
      case AnswerLost
      with Cons.prems False nx fill assms(2) have "\<not> ok" "s' = s\<lparr>bf_faults := fs, bf_graph := g\<rparr>" by auto
      with quiet AnswerLost g show ?thesis by (auto simp: batch_rows_def)
    next
      case Fine
      let ?s1 = "clear_kind k (s\<lparr>bf_faults := fs, bf_graph := g, bf_filled := bf_filled s + n\<rparr>)"
      have run: "flush_kinds cfg ks ?s1 = (ok, s')" using Cons.prems False nx fill assms(2) Fine by simp
      note IH = Cons.IH [OF run]
      have f1: "bf_graph ?s1 = g" "bf_file ?s1 = bf_file s" "bf_pending ?s1 = bf_pending s" "bf_faults ?s1 = fs"
        "batch_rows ?s1 = {(l, r). (l, r) \<in> batch_rows s \<and> l \<noteq> k}" "bf_batch ?s1 k = []"
        by (auto simp: clear_kind_def batch_rows_def split: if_splits)
      have b1: "batch_rows ?s1 \<subseteq> batch_rows s" using f1(5) by auto
      have named: "named_from (batch_rows s) (bf_graph s) (bf_graph s')"
        using named_from_trans [OF g] IH f1(1) named_from_mono [OF _ b1] by metis
      have rows: "\<forall>l r. (l, r) \<in> batch_rows s \<longrightarrow> (l, r) \<in> batch_rows s' \<or> \<not> nameless (bf_graph s') (stub_node l (fst r))"
      proof (intro allI impI)
        fix l r assume m: "(l, r) \<in> batch_rows s"
        show "(l, r) \<in> batch_rows s' \<or> \<not> nameless (bf_graph s') (stub_node l (fst r))"
        proof (cases "l = k")
          case True
          with m have "r \<in> set (bf_batch s k)" by (simp add: batch_rows_def)
          from eff(2) [OF this] IH f1(1) True named_settled show ?thesis by metis
        next
          case False
          with m f1(5) have "(l, r) \<in> batch_rows ?s1" by simp
          with IH show ?thesis by blast
        qed
      qed
      have "bf_batch s' k = []" using IH f1(6) batch_rows_empty by blast
      with IH f1 b1 named rows quiet show ?thesis by auto
    qed
  qed
qed (auto simp: batch_rows_def)

text \<open>The rows of the first \<open>n\<close> lines have been applied; the checkpoint never claims more.\<close>

definition applied :: "(pystr \<Rightarrow> py_error + (nlabel \<times> stub_row) option) \<Rightarrow> pystr list \<Rightarrow> graph \<Rightarrow> bool" where
  "applied parse ls g \<longleftrightarrow>
     (\<forall>l \<in> set ls. \<forall>k r. parse l = Inr (Some (k, r)) \<longrightarrow> \<not> nameless g (stub_node k (fst r)))"

definition rows_of :: "(pystr \<Rightarrow> py_error + (nlabel \<times> stub_row) option) \<Rightarrow> pystr list \<Rightarrow> (nlabel \<times> stub_row) set" where
  "rows_of parse ls = {(k, r). \<exists>l \<in> set ls. parse l = Inr (Some (k, r))}"

definition honest :: "(pystr \<Rightarrow> py_error + (nlabel \<times> stub_row) option) \<Rightarrow> pystr list \<Rightarrow> graph \<Rightarrow> pystr option \<Rightarrow> bool" where
  "honest parse ls g content \<longleftrightarrow> applied parse (take (nat (read_line_count content)) ls) g"

lemma applied_named: "applied parse ls g \<Longrightarrow> named_from R g g' \<Longrightarrow> applied parse ls g'"
  unfolding applied_def using named_settled by blast

lemma applied_less: "applied parse (take n ls) g \<Longrightarrow> m \<le> n \<Longrightarrow> applied parse (take m ls) g"
  unfolding applied_def by (meson set_take_subset_set_take subsetD)

lemma flush_batch_effect:
  assumes "flush_batch cfg position s = (ok, s')" and "\<not> fc_dry_run cfg"
    and kinds: "\<forall>k r. (k, r) \<in> batch_rows s \<longrightarrow> k \<in> set (map snd FILL_KINDS)"
    and all: "\<forall>l \<in> set (take position ls). \<forall>k r. parse l = Inr (Some (k, r)) \<longrightarrow>
      (k, r) \<in> batch_rows s \<or> \<not> nameless (bf_graph s) (stub_node k (fst r))"
    and "honest parse ls (bf_graph s) (bf_file s)"
  shows "named_from (batch_rows s) (bf_graph s) (bf_graph s') \<and> honest parse ls (bf_graph s') (bf_file s') \<and>
    (ok \<longrightarrow> batch_rows s' = {} \<and> applied parse (take position ls) (bf_graph s') \<and> bf_pending s' = 0) \<and>
    (bf_faults s = [] \<longrightarrow> ok \<and> bf_faults s' = [])"
proof -
  obtain a s1 where fk: "flush_kinds cfg (map snd FILL_KINDS) s = (a, s1)" by fastforce
  note e = flush_kinds_effect [OF fk assms(2)]
  have h1: "honest parse ls (bf_graph s1) (bf_file s1)"
    using assms(5) e applied_named unfolding honest_def by metis
  show ?thesis
  proof (cases a)
    case False
    with assms(1) fk have "\<not> ok" "s' = s1" by (auto simp: flush_batch_def)
    with e h1 False show ?thesis by simp
  next
    case True
    have b1: "batch_rows s1 = {}"
    proof (rule equals0I)
      fix x assume x: "x \<in> batch_rows s1"
      then obtain k r where kr: "x = (k, r)" "r \<in> set (bf_batch s1 k)" by (auto simp: batch_rows_def)
      with x e kinds have "k \<in> set (map snd FILL_KINDS)" by blast
      with e True have "bf_batch s1 k = []" by blast
      with kr show False by simp
    qed
    have ap: "applied parse (take position ls) (bf_graph s1)"
      unfolding applied_def
    proof (intro ballI allI impI)
      fix l k r assume l: "l \<in> set (take position ls)" "parse l = Inr (Some (k, r))"
      with all have "(k, r) \<in> batch_rows s \<or> \<not> nameless (bf_graph s) (stub_node k (fst r))" by blast
      with e b1 show "\<not> nameless (bf_graph s1) (stub_node k (fst r))" using named_settled by blast
    qed
    obtain b s2 where w: "write_checkpoint_file cfg position s1 = (b, s2)" by fastforce
    with assms(1,2) fk True have r: "ok = b" "s' = (if b then s2\<lparr>bf_pending := 0\<rparr> else s2)"
      by (auto simp: flush_batch_def split: if_splits)
    have s2: "bf_graph s2 = bf_graph s1" "batch_rows s2 = batch_rows s1" "bf_faults s1 = [] \<longrightarrow> b \<and> bf_faults s2 = []"
      "bf_file s2 \<in> {bf_file s1, Some [], Some (line_count_text position)}"
      using w by (auto simp: write_checkpoint_file_def next_outcome_def batch_rows_def split: if_splits list.splits fault.splits)
    have "honest parse ls (bf_graph s1) (Some (line_count_text position))"
      using applied_less [OF ap, of "nat (read_line_count (Some (line_count_text position)))"] read_line_count_text [of position]
      unfolding honest_def by auto
    moreover have "read_line_count (Some []) = 0" by code_simp
    then have "honest parse ls (bf_graph s1) (Some [])" by (simp add: honest_def applied_def)
    ultimately have "honest parse ls (bf_graph s1) (bf_file s2)" using s2(4) h1 by auto
    with r s2 e b1 ap True show ?thesis by (cases b) (auto simp: batch_rows_def)
  qed
qed

text \<open>What holds between two lines of a run that started at line \<open>start\<close>.\<close>

definition lines_ok ::
  "(pystr \<Rightarrow> py_error + (nlabel \<times> stub_row) option) \<Rightarrow> pystr list \<Rightarrow> int \<Rightarrow> nat \<Rightarrow> backfill \<Rightarrow> bool" where
  "lines_ok parse whole start position s \<longleftrightarrow>
     batch_rows s \<subseteq> rows_of parse whole \<and> (bf_pending s = 0 \<longrightarrow> batch_rows s = {}) \<and>
     (\<forall>l \<in> set (take position whole). \<forall>k r. parse l = Inr (Some (k, r)) \<longrightarrow>
        (k, r) \<in> batch_rows s \<or> \<not> nameless (bf_graph s) (stub_node k (fst r))) \<and>
     honest parse whole (bf_graph s) (bf_file s) \<and> applied parse (take (nat start) whole) (bf_graph s)"

lemma lines_okD:
  assumes "lines_ok parse whole start position s"
  shows "batch_rows s \<subseteq> rows_of parse whole" and "bf_pending s = 0 \<Longrightarrow> batch_rows s = {}"
    and "\<forall>l \<in> set (take position whole). \<forall>k r. parse l = Inr (Some (k, r)) \<longrightarrow>
        (k, r) \<in> batch_rows s \<or> \<not> nameless (bf_graph s) (stub_node k (fst r))"
    and "honest parse whole (bf_graph s) (bf_file s)" and "applied parse (take (nat start) whole) (bf_graph s)"
  using assms unfolding lines_ok_def by blast+

lemma take_Suc_drop: "drop p whole = l # ls \<Longrightarrow> take (Suc p) whole = take p whole @ [l] \<and> drop (Suc p) whole = ls \<and> l \<in> set whole"
  by (metis append_take_drop_id drop_Suc in_set_conv_decomp take_Suc_conv_app_nth list.sel(3) nth_via_drop tl_drop drop_eq_Nil list.distinct(1) not_le)

lemma lines_ok_skip:
  assumes "lines_ok parse whole start p s" and "drop p whole = l # ls"
    and "int (Suc p) \<le> start \<or> (\<forall>k r. parse l \<noteq> Inr (Some (k, r)))"
    and "bf_graph t = bf_graph s" "bf_file t = bf_file s" "bf_batch t = bf_batch s" "bf_pending t = bf_pending s"
  shows "lines_ok parse whole start (Suc p) t"
proof -
  note tk = take_Suc_drop [OF assms(2)]
  have "int (Suc p) \<le> start \<Longrightarrow> l \<in> set (take (nat start) whole)"
  proof -
    assume "int (Suc p) \<le> start"
    then have "Suc p \<le> nat start" by simp
    from set_take_subset_set_take [OF this, of whole] tk show ?thesis by auto
  qed
  then have "\<forall>k r. parse l = Inr (Some (k, r)) \<longrightarrow> \<not> nameless (bf_graph s) (stub_node k (fst r))"
    using assms(3) lines_okD(5) [OF assms(1)] unfolding applied_def by blast
  moreover have "batch_rows t = batch_rows s" using assms(6) by (simp add: batch_rows_def)
  ultimately show ?thesis using assms(1,4,5,7) tk unfolding lines_ok_def by auto
qed

lemma lines_ok_push:
  assumes "lines_ok parse whole start p s" and "drop p whole = l # ls" and "parse l = Inr (Some (k, r))"
    and "bf_graph t = bf_graph s" "bf_file t = bf_file s" "bf_batch t = bf_batch s" "bf_pending t = bf_pending s"
  shows "lines_ok parse whole start (Suc p) (push_row k r t)"
proof -
  note tk = take_Suc_drop [OF assms(2)]
  have b: "batch_rows (push_row k r t) = insert (k, r) (batch_rows s)"
    using assms(6) by (auto simp: batch_rows_def push_row_def split: if_splits)
  have "(k, r) \<in> rows_of parse whole" using tk assms(3) unfolding rows_of_def by blast
  with assms(1) b assms(4,5) show ?thesis unfolding lines_ok_def using tk assms(3)
    by (auto simp: push_row_def)
qed

lemma lines_ok_flush:
  assumes "lines_ok parse whole start p s" and "flush_batch cfg p s = (ok, s')" and "\<not> fc_dry_run cfg"
    and "\<forall>l k r. parse l = Inr (Some (k, r)) \<longrightarrow> k \<in> set (map snd FILL_KINDS)"
  shows "named_from (rows_of parse whole) (bf_graph s) (bf_graph s')" and "honest parse whole (bf_graph s') (bf_file s')"
    and "ok \<Longrightarrow> lines_ok parse whole start p s'" and "ok \<Longrightarrow> applied parse (take p whole) (bf_graph s')"
    and "bf_faults s = [] \<Longrightarrow> ok \<and> bf_faults s' = []"
proof -
  note d = lines_okD [OF assms(1)]
  have kinds: "\<forall>k r. (k, r) \<in> batch_rows s \<longrightarrow> k \<in> set (map snd FILL_KINDS)"
    using d(1) assms(4) unfolding rows_of_def by blast
  note e = flush_batch_effect [OF assms(2,3) kinds d(3,4)]
  show n: "named_from (rows_of parse whole) (bf_graph s) (bf_graph s')" using e named_from_mono d(1) by blast
  show h: "honest parse whole (bf_graph s') (bf_file s')" using e by blast
  show a: "ok \<Longrightarrow> applied parse (take p whole) (bf_graph s')" using e by blast
  show "bf_faults s = [] \<Longrightarrow> ok \<and> bf_faults s' = []" using e by blast
  have "applied parse (take (nat start) whole) (bf_graph s')" using applied_named [OF d(5) n] .
  then show "ok \<Longrightarrow> lines_ok parse whole start p s'" using e h unfolding lines_ok_def applied_def by auto
qed

lemma fill_lines_effect:
  assumes "lines_ok parse whole start p s" and "drop p whole = ls" and "fill_lines cfg parse start p ls s = (ok, s')"
    and dry: "\<not> fc_dry_run cfg" and kinds: "\<forall>l k r. parse l = Inr (Some (k, r)) \<longrightarrow> k \<in> set (map snd FILL_KINDS)"
  shows "named_from (rows_of parse whole) (bf_graph s) (bf_graph s') \<and> honest parse whole (bf_graph s') (bf_file s') \<and>
    (ok \<longrightarrow> applied parse whole (bf_graph s')) \<and>
    (bf_faults s = [] \<and> (\<forall>l \<in> set ls. \<not> isl (parse l)) \<longrightarrow> ok)"
  using assms(1-3)
proof (induction ls arbitrary: p s)
  case Nil
  then have all: "take p whole = whole" by simp
  show ?case
  proof (cases "0 < bf_pending s \<or> start < int p")
    case True
    with Nil.prems(3) have f: "flush_batch cfg p s = (ok, s')" by simp
    from lines_ok_flush [OF Nil.prems(1) f dry kinds] all show ?thesis by auto
  next
    case False
    with Nil.prems(3) have r: "ok" "s' = s" by simp_all
    with False lines_okD [OF Nil.prems(1)] all show ?thesis by (auto simp: applied_def)
  qed
next
  case (Cons l ls)
  have dr: "drop (Suc p) whole = ls" using take_Suc_drop [OF Cons.prems(2)] by simp
  show ?case
  proof (cases "int (Suc p) \<le> start")
    case True
    with Cons.prems(3) have run: "fill_lines cfg parse start (Suc p) ls s = (ok, s')" by simp
    have "lines_ok parse whole start (Suc p) s" using lines_ok_skip [OF Cons.prems(1,2)] True by blast
    from Cons.IH [OF this dr run] show ?thesis by auto
  next
    case False
    let ?s1 = "s\<lparr>bf_lines := Suc (bf_lines s)\<rparr>"
    show ?thesis
    proof (cases "parse l")
      case (Inl e)
      with False Cons.prems(3) have "\<not> ok" "s' = ?s1" by auto
      with lines_okD [OF Cons.prems(1)] Inl show ?thesis by auto
    next
      case (Inr o')
      show ?thesis
      proof (cases o')
        case None
        let ?s2 = "?s1\<lparr>bf_skipped := Suc (bf_skipped ?s1)\<rparr>"
        have run: "fill_lines cfg parse start (Suc p) ls ?s2 = (ok, s')" using False Cons.prems(3) Inr None by simp
        have "lines_ok parse whole start (Suc p) ?s2" by (rule lines_ok_skip [OF Cons.prems(1,2)]) (use Inr None in auto)
        from Cons.IH [OF this dr run] show ?thesis by auto
      next
        case (Some kr)
        obtain k r where kr: "kr = (k, r)" by (cases kr)
        let ?s2 = "push_row k r ?s1"
        have ok2: "lines_ok parse whole start (Suc p) ?s2" by (rule lines_ok_push [OF Cons.prems(1,2)]) (use Inr Some kr in auto)
        have s2: "bf_graph ?s2 = bf_graph s" "bf_faults ?s2 = bf_faults s" by (simp_all add: push_row_def)
        show ?thesis
        proof (cases "fc_batch_size cfg \<le> bf_pending ?s2")
          case True
          obtain a s3 where f: "flush_batch cfg (Suc p) ?s2 = (a, s3)" by fastforce
          note e = lines_ok_flush [OF ok2 f dry kinds]
          show ?thesis
          proof (cases a)
            case False
            with \<open>\<not> int (Suc p) \<le> start\<close> Cons.prems(3) Inr Some kr True f have "\<not> ok" "s' = s3" by (auto simp: Let_def)
            with e s2 False show ?thesis by auto
          next
            case a: True
            have run: "fill_lines cfg parse start (Suc p) ls s3 = (ok, s')"
              using False Cons.prems(3) Inr Some kr True f a by (simp add: Let_def)
            note IH = Cons.IH [OF e(3) [OF a] dr run]
            have "named_from (rows_of parse whole) (bf_graph s) (bf_graph s')"
              using named_from_trans [OF e(1)] IH s2(1) by metis
            with IH e(5) s2(2) show ?thesis by auto
          qed
        next
          case small: False
          have run: "fill_lines cfg parse start (Suc p) ls ?s2 = (ok, s')"
            using False Cons.prems(3) Inr Some kr small by (simp add: Let_def)
          from Cons.IH [OF ok2 dr run] s2 show ?thesis by auto
        qed
      qed
    qed
  qed
qed

text \<open>Runs from a graph and an honest checkpoint, and then any more.\<close>

lemma backfill_run_effect:
  assumes "backfill_run cfg parse ls g content fs = (ok, s)" and "honest parse ls g content" and "\<not> fc_dry_run cfg"
    and "\<forall>l k r. parse l = Inr (Some (k, r)) \<longrightarrow> k \<in> set (map snd FILL_KINDS)"
  shows "named_from (rows_of parse ls) g (bf_graph s) \<and> honest parse ls (bf_graph s) (bf_file s) \<and>
    (ok \<longrightarrow> applied parse ls (bf_graph s)) \<and> (fs = [] \<and> (\<forall>l \<in> set ls. \<not> isl (parse l)) \<longrightarrow> ok)"
proof -
  let ?start = "if fc_checkpoint cfg then read_line_count content else 0"
  have "lines_ok parse ls ?start 0 (start_run g content fs)"
    using assms(2) by (simp add: lines_ok_def start_run_def batch_rows_def honest_def applied_def)
  from fill_lines_effect [OF this _ assms(1) [unfolded backfill_run_def] assms(3,4)] show ?thesis
    by (simp add: start_run_def)
qed

lemma backfill_runs_effect:
  assumes "backfill_runs cfg parse ls fss (g, content) = (g', content')" and "honest parse ls g content" and "\<not> fc_dry_run cfg"
    and "\<forall>l k r. parse l = Inr (Some (k, r)) \<longrightarrow> k \<in> set (map snd FILL_KINDS)"
  shows "named_from (rows_of parse ls) g g' \<and> honest parse ls g' content'"
  using assms(1,2)
proof (induction fss arbitrary: g content)
  case (Cons fs fss)
  obtain ok s where r: "backfill_run cfg parse ls g content fs = (ok, s)" by fastforce
  note e = backfill_run_effect [OF r Cons.prems(2) assms(3,4)]
  have "backfill_runs cfg parse ls fss (bf_graph s, bf_file s) = (g', content')" using Cons.prems(1) r by simp
  from Cons.IH [OF this] e show ?case using named_from_trans by blast
qed simp

lemma fill_kind_kinds: "fill_kind v = Inr (Some k) \<Longrightarrow> k \<in> set (map snd FILL_KINDS)"
  by (auto simp: fill_kind_def FILL_KINDS_def split: if_splits)

lemma parse_line_kinds:
  assumes "parse_line rt loads l = Inr (Some (k, r))"
  shows "k \<in> set (map snd FILL_KINDS)"
proof -
  from assms obtain v where "loads (py_strip l) = Some v" "py_strip l \<noteq> []"
    by (auto simp: parse_line_def split: if_splits option.splits)
  with assms show ?thesis
  proof (cases v)
    case (PDict d)
    with \<open>loads _ = _\<close> \<open>py_strip l \<noteq> []\<close> assms obtain y x where "fill_kind (dget d ''kind'') = Inr (Some y)"
      "(case x of
          PStr n \<Rightarrow>
            let i = dget d ''id'' in
            if i = PNone \<or> i = PBool True \<or> i = PBool False then Inr None else Inr (Some (y, (py_str rt i, n)))
        | _ \<Rightarrow> Inr None) = (Inr (Some (k, r)) :: py_error + (nlabel \<times> stub_row) option)"
      by (auto simp: parse_line_def split: option.splits)
    then show ?thesis using fill_kind_kinds by (cases x) (auto simp: Let_def split: if_splits)
  qed (auto simp: parse_line_def)
qed

text \<open>
  C9. The backfill can be interrupted anywhere: after any runs that failed at a transaction or
  at the checkpoint, one run that meets no failure succeeds, every row of the file whose node
  exists has its name, whatever had a name keeps it, nothing but missing names of the file's
  rows has changed, and further runs change nothing.
\<close>

theorem backfill_completes:
  assumes "\<not> fc_dry_run cfg" and "\<forall>l \<in> set ls. \<not> isl (parse_line rt loads l)"
    and "backfill_runs cfg (parse_line rt loads) ls failed (g, None) = (g1, content)"
    and "backfill_run cfg (parse_line rt loads) ls g1 content [] = (ok, s)"
  shows "ok \<and> named_from (rows_of (parse_line rt loads) ls) g (bf_graph s) \<and>
    (\<forall>k i n. (k, (i, n)) \<in> rows_of (parse_line rt loads) ls \<longrightarrow> \<not> nameless (bf_graph s) (stub_node k i)) \<and>
    fst (backfill_runs cfg (parse_line rt loads) ls later (bf_graph s, bf_file s)) = bf_graph s"
proof -
  let ?R = "rows_of (parse_line rt loads) ls"
  have kinds: "\<forall>l k r. parse_line rt loads l = Inr (Some (k, r)) \<longrightarrow> k \<in> set (map snd FILL_KINDS)"
    using parse_line_kinds by blast
  have "honest (parse_line rt loads) ls g None" by (simp add: honest_def applied_def read_line_count_def)
  note e1 = backfill_runs_effect [OF assms(3) this assms(1) kinds]
  then have "honest (parse_line rt loads) ls g1 content" by simp
  note e2 = backfill_run_effect [OF assms(4) this assms(1) kinds]
  then have ok: "ok" using assms(2) by blast
  have named: "named_from ?R g (bf_graph s)" using e1 e2 named_from_trans by blast
  have rows: "\<forall>k i n. (k, (i, n)) \<in> ?R \<longrightarrow> \<not> nameless (bf_graph s) (stub_node k i)"
    using e2 ok unfolding applied_def rows_of_def by fastforce
  obtain g2 c2 where m: "backfill_runs cfg (parse_line rt loads) ls later (bf_graph s, bf_file s) = (g2, c2)" by fastforce
  from backfill_runs_effect [OF m _ assms(1) kinds] e2 have "named_from ?R (bf_graph s) g2" by blast
  from named_from_done [OF this rows] m ok named rows show ?thesis by simp
qed

definition one_stub :: graph where
  "one_stub = \<lparr>nodes = {stub_node Label (lit ''9'')}, nprop = (\<lambda>_ _. PNone), edges = {}, eprop = (\<lambda>_ _. PNone)\<rparr>"

definition one_row :: "pystr \<Rightarrow> pyval option" where
  "one_row _ = Some (PDict [(lit ''kind'', PStr (lit ''Label'')), (lit ''id'', PInt 9), (lit ''name'', PStr (lit ''L''))])"

lemma backfill_completes_witness:
  "\<forall>rt :: runtime. \<exists>s. nameless one_stub (stub_node Label (lit ''9'')) \<and> \<not> nameless (bf_graph s) (stub_node Label (lit ''9'')) \<and>
     (\<exists>g1 content. backfill_runs \<lparr>fc_batch_size = 1, fc_checkpoint = True, fc_dry_run = False\<rparr> (parse_line rt one_row) [lit ''x'']
        [[Rejected], [Fine, AnswerLost]] (one_stub, None) = (g1, content) \<and>
      backfill_run \<lparr>fc_batch_size = 1, fc_checkpoint = True, fc_dry_run = False\<rparr> (parse_line rt one_row) [lit ''x''] g1 content [] = (True, s))"
proof
  fix rt :: runtime
  let ?cfg = "\<lparr>fc_batch_size = 1, fc_checkpoint = True, fc_dry_run = False\<rparr>"
  let ?p = "parse_line rt one_row"
  have x: "py_strip (lit ''x'') \<noteq> []" "py_strip (lit ''L'') = lit ''L''" "dec_of_int 9 = lit ''9''" by code_simp+
  have parse: "?p (lit ''x'') = Inr (Some (Label, (lit ''9'', lit ''L'')))"
    using x by (simp add: parse_line_def one_row_def fill_kind_def FILL_KINDS_def reference_name_dict dget_def Let_def)
  obtain g1 content where r: "backfill_runs ?cfg ?p [lit ''x''] [[Rejected], [Fine, AnswerLost]] (one_stub, None) = (g1, content)"
    by fastforce
  obtain ok s where f: "backfill_run ?cfg ?p [lit ''x''] g1 content [] = (ok, s)" by fastforce
  have "\<not> fc_dry_run ?cfg" "\<forall>l \<in> set [lit ''x'']. \<not> isl (?p l)" using parse by simp_all
  from backfill_completes [OF this r f, of "[]"] have ok: "ok"
    and rows: "(Label, (lit ''9'', lit ''L'')) \<in> rows_of ?p [lit ''x''] \<Longrightarrow> \<not> nameless (bf_graph s) (stub_node Label (lit ''9''))"
    by blast+
  have "(Label, (lit ''9'', lit ''L'')) \<in> rows_of ?p [lit ''x'']" using parse by (simp add: rows_of_def)
  from rows [OF this] ok r f
  show "\<exists>s. nameless one_stub (stub_node Label (lit ''9'')) \<and> \<not> nameless (bf_graph s) (stub_node Label (lit ''9'')) \<and>
     (\<exists>g1 content. backfill_runs ?cfg ?p [lit ''x''] [[Rejected], [Fine, AnswerLost]] (one_stub, None) = (g1, content) \<and>
      backfill_run ?cfg ?p [lit ''x''] g1 content [] = (True, s))" by (intro exI [of _ s]) (simp add: nameless_def one_stub_def)
qed

section \<open>A line that stops the tool\<close>

lemma fill_lines_stuck:
  assumes "parse l = Inl e" and "start < int (Suc (p + length a))"
  shows "\<not> fst (fill_lines cfg parse start p (a @ l # b) s)"
  using assms(2)
proof (induction a arbitrary: p s)
  case Nil
  with assms(1) show ?case by (simp add: Let_def)
next
  case (Cons x a)
  from Cons.prems have "start < int (Suc (Suc p + length a))" by simp
  note IH = Cons.IH [OF this]
  then show ?case
    by (auto simp: Let_def simp del: flush_kinds.simps split: sum.splits option.splits prod.splits bool.splits)
qed



section \<open>The command\<close>

text \<open>The stubs a run could fill, per kind.\<close>

definition count_missing :: "graph \<Rightarrow> (nlabel \<times> nat) list" where
  "count_missing g = map (\<lambda>k. (k, card {m \<in> nodes g. fst m = k \<and> nprop g m ''name'' = PNone})) (map snd FILL_KINDS)"

text \<open>The arguments of the command line.\<close>

record fill_args =
  fa_batch_size :: int
  fa_checkpoint :: bool
  fa_dry_run :: bool

text \<open>
  The command's exit code (\<open>None\<close>: an exception) and what it leaves. \<open>counted\<close> tells whether the
  count before and the count after could be read, the former with the configuration and the
  driver it needs; the counts only go to the log.
\<close>

definition fill_command ::
  "bool \<times> bool \<Rightarrow> fill_args \<Rightarrow> (pystr \<Rightarrow> py_error + (nlabel \<times> stub_row) option) \<Rightarrow> pystr list \<Rightarrow> fault list \<Rightarrow>
     graph \<times> pystr option \<Rightarrow> nat option \<times> (graph \<times> pystr option)" where
  "fill_command counted args parse ls fs w =
     (if fa_batch_size args < 1 then (Some 2, w)
      else if \<not> fst counted then (None, w)
      else
        case backfill_run \<lparr>fc_batch_size = nat (fa_batch_size args), fc_checkpoint = fa_checkpoint args, fc_dry_run = fa_dry_run args\<rparr>
          parse ls (fst w) (snd w) fs of
          (ok, s) \<Rightarrow> (if ok \<and> snd counted then Some 0 else None, (bf_graph s, bf_file s)))"

text \<open>A dry run, or one with a batch size below one, leaves the graph and the checkpoint file.\<close>

lemma dry_flush:
  "fc_dry_run cfg \<Longrightarrow> flush_kinds cfg ks s = (ok, s') \<Longrightarrow> ok \<and> bf_graph s' = bf_graph s \<and> bf_file s' = bf_file s"
  by (induction ks arbitrary: s) (auto simp: clear_kind_def)

lemma dry_flush_batch:
  "fc_dry_run cfg \<Longrightarrow> flush_batch cfg position s = (ok, s') \<Longrightarrow> ok \<and> bf_graph s' = bf_graph s \<and> bf_file s' = bf_file s"
  by (auto simp: flush_batch_def dest!: dry_flush split: prod.splits bool.splits)

lemma dry_lines:
  assumes dry: "fc_dry_run cfg"
  shows "fill_lines cfg parse start position ls s = (ok, s') \<Longrightarrow> bf_graph s' = bf_graph s \<and> bf_file s' = bf_file s"
proof (induction ls arbitrary: position s)
  case Nil
  with dry_flush_batch [OF dry] show ?case by (auto split: if_splits)
next
  case (Cons l ls)
  let ?s1 = "s\<lparr>bf_lines := Suc (bf_lines s)\<rparr>"
  have push: "bf_graph (push_row k r t) = bf_graph t" "bf_file (push_row k r t) = bf_file t" for k r t
    by (simp_all add: push_row_def)
  show ?case
  proof (cases "\<exists>k r. \<not> int (Suc position) \<le> start \<and> parse l = Inr (Some (k, r))")
    case False
    with Cons.prems Cons.IH show ?thesis by (fastforce simp: Let_def split: if_splits sum.splits option.splits)
  next
    case True
    then obtain k r where p: "\<not> int (Suc position) \<le> start" "parse l = Inr (Some (k, r))" by blast
    obtain ok1 s3 where f: "flush_batch cfg (Suc position) (push_row k r ?s1) = (ok1, s3)" by fastforce
    with dry_flush_batch [OF dry f] have e: "ok1" "bf_graph s3 = bf_graph s" "bf_file s3 = bf_file s" by (simp_all add: push)
    with Cons.prems p f have "fill_lines cfg parse start (Suc position) ls s3 = (ok, s') \<or>
      fill_lines cfg parse start (Suc position) ls (push_row k r ?s1) = (ok, s')"
      by (simp add: Let_def split: if_splits)
    with Cons.IH [of "Suc position" s3] Cons.IH [of "Suc position" "push_row k r ?s1"] e show ?thesis by (auto simp: push)
  qed
qed

theorem dry_run_writes_nothing:
  assumes "fa_dry_run args \<or> fa_batch_size args < 1" and "fill_command counted args parse ls fs w = (code, w')"
  shows "w' = w"
proof (cases "fa_batch_size args < 1 \<or> \<not> fst counted")
  case False
  let ?cfg = "\<lparr>fc_batch_size = nat (fa_batch_size args), fc_checkpoint = fa_checkpoint args, fc_dry_run = fa_dry_run args\<rparr>"
  obtain ok s where r: "backfill_run ?cfg parse ls (fst w) (snd w) fs = (ok, s)" by fastforce
  have "bf_graph s = fst w \<and> bf_file s = snd w"
    using dry_lines [OF _ r [unfolded backfill_run_def]] assms(1) False by (simp add: start_run_def)
  with assms False r show ?thesis by (cases w) (auto simp: fill_command_def)
qed (use assms in \<open>auto simp: fill_command_def split: if_splits\<close>)

end
