(* ===== verification/ServiceSystem.thy ===== *)
theory ServiceSystem
  imports ServiceRun MaintenanceGraph StubBackfill
begin

text \<open>
  The parts together: the process with its consumers and handlers, the batch engine's flushes,
  the maintenance after an import, the backfill beside it, stops and restarts, all on one
  graph.
\<close>

section \<open>Steps\<close>

text \<open>What the batch engine may write: any number of batches.\<close>

definition engine_writes :: "runtime \<Rightarrow> graph \<Rightarrow> graph \<Rightarrow> bool" where
  "engine_writes rt = (\<lambda>g g'. \<exists>key messages out. batch_write rt key messages g = Inr (out, g'))\<^sup>*\<^sup>*"

text \<open>
  A maintenance run works on the graph and its own bookkeeping, which holds no checkpoint of
  this run yet. The stop is not itself interrupted. A restart keeps nothing but the graph and
  what the new process reads.
\<close>

inductive system_step :: "handler_config \<Rightarrow> lifecycle \<times> graph \<Rightarrow> lifecycle \<times> graph \<Rightarrow> bool" for cfg where
  lifecycle: "life_step s s' \<Longrightarrow> system_step cfg (s, g) (s', g)"
| delivery: "system_step cfg sg (handler cfg now dt d sg)"
| flush: "engine_writes (text_runtime (hc_markers cfg)) g g' \<Longrightarrow> system_step cfg (s, g) (s, g')"
| maintenance: "\<forall>lb \<in> set stat_labels. case checkpoints db (sweep_step lb) of None \<Rightarrow> True | Some c \<Rightarrow> sc_run_key c \<noteq> rk \<Longrightarrow>
    graph_attempts categories rk envs db = Some (rs, db') \<Longrightarrow> system_step cfg (s, graph_of db) (s, graph_of db')"
| backfill: "\<not> fc_dry_run bcfg \<Longrightarrow> honest (parse_line (rt :: runtime) loads) ls g content \<Longrightarrow>
    backfill_run bcfg (parse_line rt loads) ls g content fs = (ok, b) \<Longrightarrow> system_step cfg (s, g) (s, bf_graph b)"
| stop: "case last_flush g of Inl _ \<Rightarrow> True | Inr g' \<Rightarrow> engine_writes (text_runtime (hc_markers cfg)) g g' \<Longrightarrow>
    \<not> fst (close_rabbitmq_connection (on_service cancel_maintenance (cancel_all_consumers s))) \<Longrightarrow>
    system_step cfg (s, g) (stop_service last_flush (s, g))"
| restart: "start_service w v = Up s' \<Longrightarrow> system_step cfg (s, g) (s', g)"

section \<open>What every step keeps\<close>

lemma engine_writes_wf: "engine_writes rt g g' \<Longrightarrow> graph_wf g \<Longrightarrow> graph_wf g'"
  unfolding engine_writes_def by (induction rule: rtranclp_induct) (auto dest: graph_wf_batch_write)

lemma named_from_wf:
  assumes "named_from R g g'" and "graph_wf g"
  shows "graph_wf g'"
proof -
  have "nprop g' m p = PNone" if "m \<notin> nodes g" for m p
  proof -
    from that have "\<not> nameless g m" by (simp add: nameless_def)
    with assms(1) have "nprop g' m p = nprop g m p" unfolding named_from_def by blast
    moreover have "nprop g m p = PNone" using assms(2) that unfolding graph_wf_def by blast
    ultimately show ?thesis by simp
  qed
  with assms show ?thesis unfolding graph_wf_def named_from_def by simp
qed

lemma tracked_stop:
  assumes "tracked s" and "\<not> fst (close_rabbitmq_connection (on_service cancel_maintenance (cancel_all_consumers s)))"
  shows "tracked (fst (stop_service f (s, g)))"
proof -
  let ?s1 = "on_service cancel_maintenance (cancel_all_consumers s)"
  have "tracked (cancel_all_consumers s)" using assms(1) by (simp add: cancel_all_consumers_def tracked_cancel_each)
  then have t: "tracked ?s1" by (simp add: tracked_def cancel_maintenance_def Let_def)
  obtain a s2 where c: "close_rabbitmq_connection ?s1 = (a, s2)" by fastforce
  have "tracked s2" by (rule tracked_close(1) [OF t c]) (use assms(2) c in simp)
  with c show ?thesis by (simp add: stop_service_def Let_def)
qed

lemma system_step_keeps:
  assumes "system_step cfg sg sg'" and t: "tracked (fst sg)" and wf: "graph_wf (snd sg)"
  shows "tracked (fst sg') \<and> graph_wf (snd sg')"
  using assms(1)
proof cases
  case (lifecycle s s' g)
  with t wf tracked_step show ?thesis by auto
next
  case (delivery now dt d)
  from handler_is_step [of "fst sg" cfg now dt d "snd sg"] tracked_step t have "tracked (fst sg')"
    unfolding delivery by simp
  moreover from handler_graph_wf [OF wf, of cfg now dt d "fst sg"] have "graph_wf (snd sg')" unfolding delivery by simp
  ultimately show ?thesis by blast
next
  case (flush g g' s)
  with t wf engine_writes_wf show ?thesis by auto
next
  case (maintenance db rk categories envs rs db' s)
  with wf have "graph_wf (graph_of db)" by simp
  from attempts_run [OF fresh_run_ok [OF this maintenance(3)], of categories envs] maintenance(4)
  have "graph_wf (graph_of db')" by (auto simp: run_advances_def run_ok_def)
  with maintenance t show ?thesis by simp
next
  case (backfill bcfg rt loads ls g content fs ok b s)
  from backfill_run_effect [OF backfill(5,4,3)] parse_line_kinds
  have "named_from (rows_of (parse_line rt loads) ls) g (bf_graph b)" by blast
  from named_from_wf [OF this] backfill t wf show ?thesis by simp
next
  case (stop last_flush g s)
  have "graph_wf (case last_flush g of Inl _ \<Rightarrow> g | Inr g' \<Rightarrow> g')"
    using stop(3) engine_writes_wf wf stop(1) by (auto split: sum.splits)
  moreover have "snd (stop_service last_flush (s, g)) = (case last_flush g of Inl _ \<Rightarrow> g | Inr g' \<Rightarrow> g')"
    by (simp add: stop_service_def Let_def)
  ultimately show ?thesis using stop t tracked_stop by simp
next
  case (restart w v s' s g)
  from start_reachable [OF restart(3)] obtain rs where "s' = (started v)\<lparr>rpcs := rs\<rparr>" by blast
  then have "tracked s'" by (simp add: tracked_started)
  with restart wf show ?thesis by simp
qed

text \<open>The start the witnesses begin with.\<close>

lemma demo_start: "\<exists>s0. start_service demo_outside (fresh_service []) = Up s0"
proof -
  have env: "from_env demo_env = Inr \<lparr>amqp_connection = lit ''amqp://b'', neo4j_host = lit ''bolt://d'',
      neo4j_username = lit ''u'', neo4j_password = lit ''p'', health_port = 8001\<rparr>"
    by (simp add: demo_env_def from_env_def missing_vars_def missing_def health_port_from_env_def DEFAULT_HEALTH_PORT_def)
  have connects_at_2: "fst (connect_from (\<lambda>n. n = 4) (\<lambda>n. n = (2 :: nat)) 0) = Connected"
    by (rule connects [of _ 2]) auto
  show ?thesis
    using start_consuming_effect(2) [where v = "fresh_service []" and rs = "[]" and prefix = "lit ''discogs''", OF refl refl] env connects_at_2
    by (force simp: start_service_def demo_outside_def service_config_accepted)
qed

text \<open>
  C5. Whatever the system does from its first start on an empty database - deliveries in any
  order and of any content, failed or lost writes, flushes, timers, recoveries, maintenance
  runs that fail anywhere, the backfill, stops and restarts - the graph satisfies its schema,
  and unless a recovery is pending the broker delivers for exactly the consumers the service
  counts.
\<close>

theorem system_invariant:
  assumes "start_service w v = Up s0" and "(system_step cfg)\<^sup>*\<^sup>* (s0, empty_graph) (s, g)"
  shows "graph_wf g \<and> (\<not> recovery_requested s \<longrightarrow> subscribed s = set (tags s) \<and> gauge s = int (length (tags s)))"
proof -
  from start_reachable [OF assms(1)] obtain rs where "s0 = (started v)\<lparr>rpcs := rs\<rparr>" by blast
  then have t0: "tracked s0" by (simp add: tracked_started)
  have "tracked (fst sg) \<and> graph_wf (snd sg)" if "(system_step cfg)\<^sup>*\<^sup>* (s0, empty_graph) sg" for sg
    using that
  proof (induction rule: rtranclp_induct)
    case base
    from t0 show ?case by (simp add: graph_wf_empty)
  next
    case (step a b)
    with system_step_keeps show ?case by blast
  qed
  from this [OF assms(2)] show ?thesis by (simp add: tracked_def)
qed

lemma system_invariant_witness:
  "\<exists>s0. start_service demo_outside (fresh_service []) = Up s0 \<and>
     graph_wf (snd (handler demo_handler 0 (lit ''releases'') (release_delivery Fine) (s0, empty_graph)))"
proof -
  obtain s0 where up: "start_service demo_outside (fresh_service []) = Up s0" using demo_start by blast
  obtain s' g' where h: "handler demo_handler 0 (lit ''releases'') (release_delivery Fine) (s0, empty_graph) = (s', g')"
    by fastforce
  then have "(system_step demo_handler)\<^sup>*\<^sup>* (s0, empty_graph) (s', g')"
    using system_step.delivery [of demo_handler "(s0, empty_graph)" 0 "lit ''releases''" "release_delivery Fine"] by simp
  from system_invariant [OF up this] up h show ?thesis by simp
qed

end
