(* ===== verification/ProcessLife.thy ===== *)
theory ProcessLife
  imports ServiceSystem
begin

text \<open>
  A whole life of the process: \<^verbatim>\<open>main\<close> and \<^verbatim>\<open>cli\<close> of \<^verbatim>\<open>graphinator/graphinator.py\<close> from the
  delay before the start to the exit code. What happens while the process waits is any
  behaviour of the system, second by second.
\<close>

section \<open>The parts of a life\<close>

definition startup_delay :: "pystr option \<Rightarrow> py_error + int" where
  "startup_delay env = py_int (case env of None \<Rightarrow> lit ''5'' | Some v \<Rightarrow> v)"

text \<open>A maintenance pass the previous process owed, or else a refresh of old statistics.\<close>

definition resume_owed :: "service \<Rightarrow> service" where
  "resume_owed v =
     (case resume_pending_maintenance v of (resumed, v1) \<Rightarrow> if resumed then v1 else snd (resume_stats_refresh v1))"

text \<open>
  The loop that polls for a stop; round \<open>n\<close> takes a second, in which \<open>second n\<close> happens. It may
  run forever. \<open>interrupt n\<close>: the round ends in a keyboard interrupt.
\<close>

partial_function (option) wait_for_stop ::
  "(nat \<Rightarrow> lifecycle \<times> graph \<Rightarrow> lifecycle \<times> graph) \<Rightarrow> (nat \<Rightarrow> bool) \<Rightarrow> nat \<Rightarrow> lifecycle \<times> graph \<Rightarrow> (lifecycle \<times> graph) option" where
  "wait_for_stop second interrupt n sg =
     (if shutdown_requested (fst sg) then Some sg
      else if interrupt n then Some (second n sg)
      else wait_for_stop second interrupt (Suc n) (second n sg))"

datatype background = ProgressReporter | BatchFlusher | QueueChecker

definition background_tasks :: "bool \<Rightarrow> background list" where
  "background_tasks batch_mode = [ProgressReporter] @ (if batch_mode then [BatchFlusher] else []) @ [QueueChecker]"

text \<open>A process that is up: its state and graph, its own tasks, its driver, its health server.\<close>

record process =
  pr_state :: "lifecycle \<times> graph"
  pr_tasks :: "background list"
  pr_driver_open :: bool
  pr_health_server :: bool

definition come_up :: "bool \<Rightarrow> lifecycle \<Rightarrow> graph \<Rightarrow> process" where
  "come_up batch_mode s g =
     \<lparr>pr_state = (on_service resume_owed s, g), pr_tasks = background_tasks batch_mode, pr_driver_open = True, pr_health_server = True\<rparr>"

text \<open>
  The end: consumers, tasks, batch engine, maintenance, connection, driver, health server. A
  driver that does not close is only logged.
\<close>

definition go_down :: "(graph \<Rightarrow> py_error + graph) \<Rightarrow> bool \<Rightarrow> process \<Rightarrow> process" where
  "go_down last_flush driver_closes p =
     p\<lparr>pr_state := stop_service last_flush (pr_state p), pr_tasks := [], pr_driver_open := \<not> driver_closes, pr_health_server := False\<rparr>"

text \<open>What surrounds a life: the delay, what the start finds, what happens while it runs.\<close>

record surroundings =
  su_delay :: "pystr option"
  su_start :: outside
  su_second :: "nat \<Rightarrow> lifecycle \<times> graph \<Rightarrow> lifecycle \<times> graph"
  su_interrupt :: "nat \<Rightarrow> bool"
  su_last_flush :: "graph \<Rightarrow> py_error + graph"
  su_driver_closes :: bool

text \<open>
  The exit code, and the process as it went down if it had come up. \<open>None\<close>: it runs forever.
\<close>

definition main_life :: "surroundings \<Rightarrow> service \<Rightarrow> graph \<Rightarrow> (nat \<times> process option) option" where
  "main_life w v g =
     (case startup_delay (su_delay w) of
        Inl _ \<Rightarrow> Some (exit_code Crashed, None)
      | Inr _ \<Rightarrow>
          (case start_service (su_start w) v of
             Up s \<Rightarrow>
               let p = come_up (ow_batch_mode (su_start w)) s g in
               map_option
                 (\<lambda>sg. (exit_code (Up s), Some (go_down (su_last_flush w) (su_driver_closes w) (p\<lparr>pr_state := sg\<rparr>))))
                 (wait_for_stop (su_second w) (su_interrupt w) 0 (pr_state p))
           | r \<Rightarrow> Some (exit_code r, None)))"

section \<open>Waiting\<close>

text \<open>The state after \<open>n\<close> seconds from second \<open>k\<close>, and whether the loop has ended by then.\<close>

fun after :: "(nat \<Rightarrow> 's \<Rightarrow> 's) \<Rightarrow> nat \<Rightarrow> nat \<Rightarrow> 's \<Rightarrow> 's" where
  "after second k 0 sg = sg"
| "after second k (Suc n) sg = after second (Suc k) n (second k sg)"

definition stops_at ::
  "(nat \<Rightarrow> lifecycle \<times> graph \<Rightarrow> lifecycle \<times> graph) \<Rightarrow> (nat \<Rightarrow> bool) \<Rightarrow> nat \<Rightarrow> lifecycle \<times> graph \<Rightarrow> nat \<Rightarrow> bool" where
  "stops_at second interrupt k sg n \<longleftrightarrow>
     shutdown_requested (fst (after second k n sg)) \<or> 0 < n \<and> interrupt (k + n - 1)"

lemma wait_once:
  "wait_for_stop second interrupt n sg =
     (if shutdown_requested (fst sg) then Some sg
      else if interrupt n then Some (second n sg)
      else wait_for_stop second interrupt (Suc n) (second n sg))"
  by (subst wait_for_stop.simps) simp

text \<open>The loop returns at the first second at which there is a reason to.\<close>

lemma wait_returns:
  assumes "stops_at second interrupt k sg n"
  shows "\<exists>m \<le> n. wait_for_stop second interrupt k sg = Some (after second k m sg) \<and> stops_at second interrupt k sg m"
  using assms
proof (induction n arbitrary: k sg)
  case 0
  then show ?case by (subst wait_once) (simp add: stops_at_def)
next
  case (Suc n)
  show ?case
  proof (cases "shutdown_requested (fst sg)")
    case True
    then show ?thesis by (subst wait_once) (auto simp: stops_at_def intro!: exI [of _ 0])
  next
    case run: False
    show ?thesis
    proof (cases "interrupt k")
      case True
      with run show ?thesis by (subst wait_once) (auto simp: stops_at_def intro!: exI [of _ 1])
    next
      case False
      have "stops_at second interrupt (Suc k) (second k sg) n"
        using Suc.prems False by (cases n) (auto simp: stops_at_def)
      from Suc.IH [OF this] obtain m where "m \<le> n"
        "wait_for_stop second interrupt (Suc k) (second k sg) = Some (after second (Suc k) m (second k sg))"
        "stops_at second interrupt (Suc k) (second k sg) m" by blast
      with run False show ?thesis
        by (subst wait_once) (auto simp: stops_at_def intro!: exI [of _ "Suc m"])
    qed
  qed
qed

text \<open>And at no other: a result is a state at which there was one.\<close>

lemma wait_result:
  assumes ret: "wait_for_stop second interrupt k sg = Some sg'"
  shows "\<exists>n. sg' = after second k n sg \<and> stops_at second interrupt k sg n"
proof (rule wait_for_stop.raw_induct [where
      P = "\<lambda>second interrupt k sg r. \<exists>n. r = after second k n sg \<and> stops_at second interrupt k sg n", OF _ ret], goal_cases)
  case (1 wait second interrupt k sg r)
  consider "shutdown_requested (fst sg)" "r = sg" | "interrupt k" "r = second k sg"
    | "\<not> shutdown_requested (fst sg)" "\<not> interrupt k" "wait second interrupt (Suc k) (second k sg) = Some r"
    using 1(2) by (auto split: if_splits)
  then show ?case
  proof cases
    case 1
    then have "r = after second k 0 sg \<and> stops_at second interrupt k sg 0" by (simp add: stops_at_def)
    then show ?thesis ..
  next
    case 2
    then have "r = after second k (Suc 0) sg \<and> stops_at second interrupt k sg (Suc 0)" by (simp add: stops_at_def)
    then show ?thesis ..
  next
    case 3
    from 1(1) [OF 3(3)] obtain n where "r = after second (Suc k) n (second k sg)"
      "stops_at second interrupt (Suc k) (second k sg) n" by blast
    with 3 have "r = after second k (Suc n) sg \<and> stops_at second interrupt k sg (Suc n)"
      by (cases n) (auto simp: stops_at_def)
    then show ?thesis ..
  qed
qed

section \<open>Coming up\<close>

text \<open>What the start resumes leaves the consumers and the queues alone.\<close>

definition steady :: "'a action \<Rightarrow> bool" where
  "steady m \<longleftrightarrow> (\<forall>v. keeps_consumers v (snd (m v)))"

lemma steady_pure [simp]: "steady (\<lambda>s. (r, s))"
  by (simp add: steady_def)

lemma steady_bind [intro]: "steady m \<Longrightarrow> (\<And>x. steady (f x)) \<Longrightarrow> steady (bindA m f)"
  unfolding steady_def bindA_def by (auto split: prod.splits sum.splits) (metis keeps_consumers_trans snd_conv)+

lemma steady_reads:
  "steady latest_extraction_version" "steady (load_extraction_signals v)" "steady (is_extraction_maintained v)"
  "steady (stored_stats_version v)"
  by (auto simp: steady_def keeps_consumers_def latest_extraction_version_def load_extraction_signals_def
      is_extraction_maintained_def stored_stats_version_def statement_def split: prod.splits fault.splits)

lemma resume_keeps_consumers: "keeps_consumers v (resume_owed v)"
proof -
  let ?owed = "bindA latest_extraction_version (\<lambda>lv. case lv of
      None \<Rightarrow> (\<lambda>s. (Inr None, s))
    | Some v \<Rightarrow> bindA (load_extraction_signals v) (\<lambda>signals.
        if \<not> set DATA_TYPES \<subseteq> signals then (\<lambda>s. (Inr None, s))
        else bindA (is_extraction_maintained v) (\<lambda>m s. (Inr (if m then None else Some v), s))))"
  have "steady ?owed" by (auto intro!: steady_bind steady_reads split: option.splits)
  then have k: "keeps_consumers v (snd (?owed v))" by (simp add: steady_def)
  have pending: "keeps_consumers v (snd (resume_pending_maintenance v))"
    using k by (auto simp: resume_pending_maintenance_def split: prod.splits sum.splits option.splits)
  let ?stats = "bindA latest_extraction_version (\<lambda>lv. case lv of
      None \<Rightarrow> (\<lambda>s. (Inr None, s))
    | Some v \<Rightarrow> bindA (load_extraction_signals v) (\<lambda>signals.
        if \<not> set DATA_TYPES \<subseteq> signals then (\<lambda>s. (Inr None, s))
        else bindA (is_extraction_maintained v) (\<lambda>m.
          if \<not> m then (\<lambda>s. (Inr None, s))
          else bindA (stored_stats_version v) (\<lambda>stats s. (Inr (if stats = Some STATS_VERSION then None else Some v), s)))))"
  have "steady ?stats" by (auto intro!: steady_bind steady_reads split: option.splits)
  then have "keeps_consumers u (snd (stats_refresh_version u))" for u
    by (simp add: steady_def stats_refresh_version_def)
  then have "keeps_consumers u (snd (resume_stats_refresh u))" for u
    by (auto simp: resume_stats_refresh_def start_stats_refresh_def keeps_consumers_def split: prod.splits sum.splits option.splits)
      (metis snd_conv)+
  with pending show ?thesis
    by (auto simp: resume_owed_def split: prod.splits) (metis keeps_consumers_trans snd_conv)
qed

lemma tracked_come_up:
  assumes "start_service w v = Up s"
  shows "tracked (fst (pr_state (come_up b s g)))"
proof -
  from start_reachable [OF assms] obtain rs where "s = (started v)\<lparr>rpcs := rs\<rparr>" by blast
  then have "tracked s" by (simp add: tracked_started)
  with resume_keeps_consumers [of "sv s"] show ?thesis
    by (simp add: come_up_def tracked_def keeps_consumers_def)
qed

section \<open>A life\<close>

lemma after_keeps: "(\<And>n sg. P sg \<Longrightarrow> P (second n sg)) \<Longrightarrow> P sg \<Longrightarrow> P (after second k n sg)"
  by (induction second k n sg rule: after.induct) auto

lemma system_steps_keep:
  assumes "(system_step cfg)\<^sup>*\<^sup>* sg sg'" and "tracked (fst sg) \<and> graph_wf (snd sg)"
  shows "tracked (fst sg') \<and> graph_wf (snd sg')"
  using assms by (induction rule: rtranclp_induct) (blast dest: system_step_keeps)+


text \<open>A life in which the signal arrives in the third second, for the witness.\<close>

definition demo_life :: surroundings where
  "demo_life = \<lparr>su_delay = None, su_start = demo_outside,
     su_second = (\<lambda>n sg. if n = 2 then ((signal_handler (fst sg))\<lparr>rpcs := []\<rparr>, snd sg) else sg),
     su_interrupt = (\<lambda>_. False), su_last_flush = Inr, su_driver_closes = True\<rparr>"


text \<open>A life that does not come up exits with 1, unless a stop was asked for before the broker answered.\<close>

lemma failed_start_exits:
  assumes "main_life w v g = Some (code, None)"
  shows "if start_service (su_start w) v = StoppedEarly \<and> succeeds (startup_delay (su_delay w)) then code = 0 else code = 1"
  using assms
  by (auto simp: main_life_def exit_code_def succeeds_def Let_def split: sum.splits start_result.splits)

end
