(* ===== verification/Telemetry.thy ===== *)
theory Telemetry
  imports CatalogNames
begin

text \<open>
  \<^verbatim>\<open>graphinator/telemetry.py\<close>: the instruments and their cache, the recording helpers, the spans
  of a delivery and of a flush. The provider and the tracer are the OpenTelemetry library's:
  what they answer is an argument, and every answer may be an exception.
\<close>

section \<open>Instruments\<close>

definition INSTRUMENTATION_SCOPE :: pystr where "INSTRUMENTATION_SCOPE = lit ''groovemap.graphinator''"
definition SOURCE :: pystr where "SOURCE = lit ''discogs''"
definition STORE :: pystr where "STORE = lit ''neo4j''"
definition MESSAGING_SYSTEM :: pystr where "MESSAGING_SYSTEM = lit ''rabbitmq''"

definition PIPELINE_MESSAGES :: pystr where "PIPELINE_MESSAGES = lit ''groovemap.pipeline.messages''"
definition PIPELINE_MESSAGE_DURATION :: pystr where "PIPELINE_MESSAGE_DURATION = lit ''groovemap.pipeline.message.duration''"
definition PIPELINE_BATCH_SIZE :: pystr where "PIPELINE_BATCH_SIZE = lit ''groovemap.pipeline.batch.size''"
definition PIPELINE_BATCH_FLUSH_DURATION :: pystr where
  "PIPELINE_BATCH_FLUSH_DURATION = lit ''groovemap.pipeline.batch.flush.duration''"
definition PIPELINE_CONSUMERS_ACTIVE :: pystr where "PIPELINE_CONSUMERS_ACTIVE = lit ''groovemap.pipeline.consumers.active''"
definition MESSAGING_CONSUMED_MESSAGES :: pystr where "MESSAGING_CONSUMED_MESSAGES = lit ''messaging.client.consumed.messages''"
definition OUTCOME_ATTRIBUTE :: pystr where "OUTCOME_ATTRIBUTE = lit ''outcome''"

definition ENTITY_SINGULAR :: "(pystr \<times> pystr) list" where
  "ENTITY_SINGULAR =
     [(lit ''artists'', lit ''artist''), (lit ''labels'', lit ''label''),
      (lit ''masters'', lit ''master''), (lit ''releases'', lit ''release'')]"

lemmas metric_names = PIPELINE_MESSAGES_def PIPELINE_MESSAGE_DURATION_def PIPELINE_BATCH_SIZE_def
  PIPELINE_BATCH_FLUSH_DURATION_def PIPELINE_CONSUMERS_ACTIVE_def MESSAGING_CONSUMED_MESSAGES_def

definition entity_for :: "pystr \<Rightarrow> pystr" where
  "entity_for data_type = (case map_of ENTITY_SINGULAR data_type of None \<Rightarrow> data_type | Some e \<Rightarrow> e)"

text \<open>What an instrument is told: an amount to add or a value to record, with attributes.\<close>

type_synonym attributes = "(pystr \<times> pystr) list"

datatype measurement = Added pystr int attributes | Recorded pystr rat attributes

fun instrument_of :: "measurement \<Rightarrow> pystr" where
  "instrument_of (Added n _ _) = n"
| "instrument_of (Recorded n _ _) = n"

text \<open>The installed provider: its number, whether it builds instruments, what they accept.\<close>

record provider =
  provider_generation :: int
  pv_builds :: bool
  pv_accepts :: "measurement \<Rightarrow> bool"

text \<open>
  A span as the collector gets it, and the module's state: the cached instruments with the
  provider that made each, what was measured with the instrument of which provider, the spans
  opened so far, the n-th under handle n.
\<close>

record span =
  sp_name :: pystr
  sp_attributes :: attributes
  sp_error :: bool
  sp_ended :: bool

record telemetry =
  cached :: "(pystr \<times> int) list"
  cached_generation :: int
  measured :: "(int \<times> measurement) list"
  spans :: "span list"

definition build_instruments :: "provider \<Rightarrow> (pystr \<times> int) list option" where
  "build_instruments pv =
     (if pv_builds pv
      then Some (map (\<lambda>n. (n, provider_generation pv))
        [PIPELINE_MESSAGES, PIPELINE_MESSAGE_DURATION, PIPELINE_BATCH_SIZE, PIPELINE_BATCH_FLUSH_DURATION,
         PIPELINE_CONSUMERS_ACTIVE, MESSAGING_CONSUMED_MESSAGES])
      else None)"

text \<open>\<open>None\<close>: an exception. A build that fails leaves the cache empty.\<close>

definition instrument :: "provider \<Rightarrow> pystr \<Rightarrow> telemetry \<Rightarrow> int option \<times> telemetry" where
  "instrument pv name t =
     (if cached_generation t \<noteq> provider_generation pv \<or> cached t = [] then
        (case build_instruments pv of
           None \<Rightarrow> (None, t\<lparr>cached := []\<rparr>)
         | Some is \<Rightarrow> (map_of is name, t\<lparr>cached := is, cached_generation := provider_generation pv\<rparr>))
      else (map_of (cached t) name, t))"

definition reset_instruments :: "telemetry \<Rightarrow> telemetry" where
  "reset_instruments t = t\<lparr>cached := [], cached_generation := -1\<rparr>"

section \<open>Recording\<close>

definition measure :: "provider \<Rightarrow> measurement \<Rightarrow> telemetry \<Rightarrow> bool \<times> telemetry" where
  "measure pv m t =
     (case instrument pv (instrument_of m) t of
        (None, t1) \<Rightarrow> (False, t1)
      | (Some g, t1) \<Rightarrow> if pv_accepts pv m then (True, t1\<lparr>measured := measured t1 @ [(g, m)]\<rparr>) else (False, t1))"

text \<open>The body of a helper's \<^verbatim>\<open>try\<close>: the first exception ends it, and is dropped.\<close>

fun record_all :: "provider \<Rightarrow> measurement list \<Rightarrow> telemetry \<Rightarrow> telemetry" where
  "record_all pv [] t = t"
| "record_all pv (m # ms) t = (case measure pv m t of (ok, t1) \<Rightarrow> if ok then record_all pv ms t1 else t1)"

definition message_measurements :: "pystr \<Rightarrow> rat \<Rightarrow> pystr \<Rightarrow> measurement list" where
  "message_measurements entity duration_s outcome =
     [Added PIPELINE_MESSAGES 1 [(lit ''source'', SOURCE), (lit ''entity'', entity), (lit ''outcome'', outcome)],
      Recorded PIPELINE_MESSAGE_DURATION duration_s [(lit ''source'', SOURCE), (lit ''entity'', entity)]]"

definition record_message :: "provider \<Rightarrow> pystr \<Rightarrow> pystr \<Rightarrow> rat \<Rightarrow> telemetry \<Rightarrow> telemetry" where
  "record_message pv entity outcome duration_s = record_all pv (message_measurements entity duration_s outcome)"

definition record_batch_flush :: "provider \<Rightarrow> pystr \<Rightarrow> pystr \<Rightarrow> nat \<Rightarrow> rat \<Rightarrow> telemetry \<Rightarrow> telemetry" where
  "record_batch_flush pv entity outcome batch_size duration_s =
     (let attrs = [(lit ''store'', STORE), (lit ''entity'', entity), (lit ''outcome'', outcome)] in
      record_all pv [Recorded PIPELINE_BATCH_SIZE (of_nat batch_size) attrs, Recorded PIPELINE_BATCH_FLUSH_DURATION duration_s attrs])"

definition record_consumer_started :: "provider \<Rightarrow> telemetry \<Rightarrow> telemetry" where
  "record_consumer_started pv = record_all pv [Added PIPELINE_CONSUMERS_ACTIVE 1 [(lit ''source'', SOURCE)]]"

definition record_consumer_stopped :: "provider \<Rightarrow> telemetry \<Rightarrow> telemetry" where
  "record_consumer_stopped pv = record_all pv [Added PIPELINE_CONSUMERS_ACTIVE (-1) [(lit ''source'', SOURCE)]]"

definition destination_attributes :: "pystr \<Rightarrow> attributes" where
  "destination_attributes destination =
     [(lit ''messaging.system'', MESSAGING_SYSTEM), (lit ''messaging.destination.name'', destination),
      (lit ''messaging.operation.name'', lit ''process'')]"

definition error_attribute :: "pystr option \<Rightarrow> attributes" where
  "error_attribute error_type = (case error_type of None \<Rightarrow> [] | Some e \<Rightarrow> [(lit ''error.type'', e)])"

definition record_consumed_message :: "provider \<Rightarrow> pystr \<Rightarrow> pystr option \<Rightarrow> telemetry \<Rightarrow> telemetry" where
  "record_consumed_message pv destination error_type =
     record_all pv [Added MESSAGING_CONSUMED_MESSAGES 1 (destination_attributes destination @ error_attribute error_type)]"

text \<open>The first attribute of a message that is non-empty text; \<open>None\<close>: absent or no text.\<close>

record envelope =
  consumer_tag_of :: "pystr option"
  routing_key_of :: "pystr option"
  exchange_of :: "pystr option"

definition consumed_destination :: "envelope \<Rightarrow> pystr" where
  "consumed_destination m =
     (case List.find (\<lambda>a. a \<noteq> None \<and> a \<noteq> Some []) [consumer_tag_of m, routing_key_of m, exchange_of m] of
        Some (Some v) \<Rightarrow> v
      | _ \<Rightarrow> lit ''unknown'')"

section \<open>Spans\<close>

text \<open>
  How a tracer answers: it cannot start a span; or the span's manager raises when it is entered;
  or it opens a span. And what the span's methods do.
\<close>

datatype span_start = NotStarted | NotEntered pystr | Opened

record tracer =
  tr_opening :: span_start
  tr_sets :: "pystr \<Rightarrow> bool"
  tr_status :: bool
  tr_recording :: "bool option"
  tr_context :: bool

definition on_span :: "nat \<Rightarrow> (span \<Rightarrow> span) \<Rightarrow> telemetry \<Rightarrow> telemetry" where
  "on_span h f t = (if h < length (spans t) then t\<lparr>spans := (spans t)[h := f (spans t ! h)]\<rparr> else t)"

definition set_attribute :: "pystr \<Rightarrow> pystr \<Rightarrow> span \<Rightarrow> span" where
  "set_attribute k v s = s\<lparr>sp_attributes := AList.update k v (sp_attributes s)\<rparr>"

definition mark_error :: "tracer \<Rightarrow> nat option \<Rightarrow> pystr \<Rightarrow> telemetry \<Rightarrow> telemetry" where
  "mark_error tr sp error_type t =
     (case sp of
        None \<Rightarrow> t
      | Some h \<Rightarrow>
          if \<not> tr_sets tr (lit ''error.type'') then t
          else
            let t1 = on_span h (set_attribute (lit ''error.type'') error_type) t in
            if tr_status tr then on_span h (sp_error_update (\<lambda>_. True)) t1 else t1)"

definition mark_consumed_error :: "tracer \<Rightarrow> nat option \<Rightarrow> pystr option \<Rightarrow> telemetry \<Rightarrow> telemetry" where
  "mark_consumed_error tr sp error_type t = (case error_type of None \<Rightarrow> t | Some e \<Rightarrow> mark_error tr sp e t)"

text \<open>\<open>failure\<close>: the class name of the exception, if there is one.\<close>

definition mark_flush_outcome :: "tracer \<Rightarrow> nat option \<Rightarrow> pystr \<Rightarrow> pystr option \<Rightarrow> telemetry \<Rightarrow> telemetry" where
  "mark_flush_outcome tr sp outcome failure t =
     (case sp of
        None \<Rightarrow> t
      | Some h \<Rightarrow>
          let t1 = if tr_sets tr OUTCOME_ATTRIBUTE then on_span h (set_attribute OUTCOME_ATTRIBUTE outcome) t else t in
          (case failure of None \<Rightarrow> t1 | Some e \<Rightarrow> mark_error tr sp e t1))"

definition open_span :: "pystr \<Rightarrow> attributes \<Rightarrow> telemetry \<Rightarrow> nat \<times> telemetry" where
  "open_span name attrs t =
     (length (spans t), t\<lparr>spans := spans t @ [\<lparr>sp_name = name, sp_attributes = attrs, sp_error = False, sp_ended = False\<rparr>]\<rparr>)"

text \<open>
  The span of a delivery around a block, which raises (the class name) or returns. Leaving the
  manager ends the span.
\<close>

definition consume_span ::
  "tracer \<Rightarrow> pystr \<Rightarrow> (nat option \<Rightarrow> telemetry \<Rightarrow> (pystr + 'a) \<times> telemetry) \<Rightarrow> telemetry \<Rightarrow> (pystr + 'a) \<times> telemetry" where
  "consume_span tr destination block t =
     (case tr_opening tr of
        NotStarted \<Rightarrow> block None t
      | NotEntered e \<Rightarrow> (Inl e, t)
      | Opened \<Rightarrow>
          (case open_span (lit ''process '' @ destination) (destination_attributes destination) t of
             (h, t1) \<Rightarrow>
               (case block (Some h) t1 of
                  (Inl e, t2) \<Rightarrow> (Inl e, on_span h (sp_ended_update (\<lambda>_. True)) (mark_error tr (Some h) e t2))
                | (Inr x, t2) \<Rightarrow> (Inr x, on_span h (sp_ended_update (\<lambda>_. True)) t2))))"

definition span_context_of :: "tracer \<Rightarrow> nat option \<Rightarrow> nat option" where
  "span_context_of tr sp =
     (case sp of
        None \<Rightarrow> None
      | Some h \<Rightarrow> if tr_recording tr = Some True \<and> tr_context tr then Some h else None)"

section \<open>What is recorded\<close>

text \<open>A filled cache has every instrument, each of the provider it was filled for.\<close>

definition INSTRUMENTS :: "pystr list" where
  "INSTRUMENTS = [PIPELINE_MESSAGES, PIPELINE_MESSAGE_DURATION, PIPELINE_BATCH_SIZE, PIPELINE_BATCH_FLUSH_DURATION,
     PIPELINE_CONSUMERS_ACTIVE, MESSAGING_CONSUMED_MESSAGES]"

definition cache_ok :: "telemetry \<Rightarrow> bool" where
  "cache_ok t \<longleftrightarrow> cached t = [] \<or> cached t = map (\<lambda>n. (n, cached_generation t)) INSTRUMENTS"

lemma build_instruments_some:
  "build_instruments pv = Some c \<longleftrightarrow> pv_builds pv \<and> c = map (\<lambda>n. (n, provider_generation pv)) INSTRUMENTS"
  by (auto simp: build_instruments_def INSTRUMENTS_def)

lemma instruments_distinct: "distinct INSTRUMENTS"
  by (simp add: INSTRUMENTS_def metric_names)

lemma map_of_same: "map_of (map (\<lambda>n. (n, g)) ns) n = (if n \<in> set ns then Some g else None)"
  by (induction ns) auto

text \<open>
  An instrument that is handed out was made by the provider now installed, whichever provider
  filled the cache before.
\<close>

lemma instrument_current:
  assumes "cache_ok t" and "instrument pv name t = (r, t')"
  shows "cache_ok t' \<and> measured t' = measured t \<and> spans t' = spans t \<and>
    (r \<noteq> None \<longrightarrow> r = Some (provider_generation pv)) \<and> (pv_builds pv \<and> name \<in> set INSTRUMENTS \<longrightarrow> r \<noteq> None)"
  using assms
  by (auto simp: instrument_def cache_ok_def map_of_same build_instruments_some split: if_splits option.splits)
    (auto simp: build_instruments_def)

lemma measure_effect:
  assumes "cache_ok t" and "measure pv m t = (ok, t')"
  shows "cache_ok t' \<and> spans t' = spans t \<and>
    measured t' = measured t @ (if ok then [(provider_generation pv, m)] else []) \<and>
    (pv_builds pv \<and> instrument_of m \<in> set INSTRUMENTS \<and> pv_accepts pv m \<longrightarrow> ok)"
proof -
  obtain r t1 where i: "instrument pv (instrument_of m) t = (r, t1)" by fastforce
  from instrument_current [OF assms(1) i] assms(2) i show ?thesis
    by (auto simp: measure_def cache_ok_def split: option.splits if_splits)
qed

text \<open>
  A helper adds measurements of the current provider only, in order, up to the first one that
  raises; it opens and changes no span; and when nothing raises it adds all.
\<close>

lemma record_all_effect:
  assumes "cache_ok t"
  shows "\<exists>n. measured (record_all pv ms t) = measured t @ map (Pair (provider_generation pv)) (take n ms)"
    and "cache_ok (record_all pv ms t)" and "spans (record_all pv ms t) = spans t"
proof -
  have "(\<exists>n. measured (record_all pv ms t) = measured t @ map (Pair (provider_generation pv)) (take n ms)) \<and>
    cache_ok (record_all pv ms t) \<and> spans (record_all pv ms t) = spans t"
    using assms
  proof (induction ms arbitrary: t)
    case (Cons m ms)
    obtain ok t1 where m: "measure pv m t = (ok, t1)" by fastforce
    note e = measure_effect [OF Cons.prems m]
    show ?case
    proof (cases ok)
      case True
      from Cons.IH [of t1] e obtain n where
        "measured (record_all pv ms t1) = measured t1 @ map (Pair (provider_generation pv)) (take n ms)"
        "cache_ok (record_all pv ms t1)" "spans (record_all pv ms t1) = spans t1" by blast
      with e m True show ?thesis by (auto intro: exI [of _ "Suc n"])
    next
      case False
      with e m show ?thesis by (auto intro: exI [of _ 0])
    qed
  qed simp
  then show "\<exists>n. measured (record_all pv ms t) = measured t @ map (Pair (provider_generation pv)) (take n ms)"
    and "cache_ok (record_all pv ms t)" and "spans (record_all pv ms t) = spans t" by blast+
qed

definition working :: "provider \<Rightarrow> bool" where
  "working pv \<longleftrightarrow> pv_builds pv \<and> (\<forall>m. pv_accepts pv m)"

lemma record_all_working:
  "working pv \<Longrightarrow> cache_ok t \<Longrightarrow> \<forall>m \<in> set ms. instrument_of m \<in> set INSTRUMENTS \<Longrightarrow>
   measured (record_all pv ms t) = measured t @ map (Pair (provider_generation pv)) ms"
proof (induction ms arbitrary: t)
  case (Cons m ms)
  obtain ok t1 where m: "measure pv m t = (ok, t1)" by fastforce
  from measure_effect [OF Cons.prems(2) m] Cons.prems have "ok" "cache_ok t1"
    "measured t1 = measured t @ [(provider_generation pv, m)]" by (auto simp: working_def)
  with Cons m show ?case by simp
qed simp

lemma message_instruments: "m \<in> set (message_measurements entity duration_s outcome) \<Longrightarrow>
   instrument_of m \<in> {PIPELINE_MESSAGES, PIPELINE_MESSAGE_DURATION}"
  by (auto simp: message_measurements_def)

lemma record_messages_working:
  assumes "working pv" and "cache_ok t"
  shows "measured (fold (\<lambda>out. record_message pv entity out duration_s) outs t) =
      measured t @ map (Pair (provider_generation pv)) (concat (map (message_measurements entity duration_s) outs)) \<and>
    cache_ok (fold (\<lambda>out. record_message pv entity out duration_s) outs t)"
  using assms(2)
proof (induction outs arbitrary: t)
  case (Cons a outs)
  have i: "\<forall>m \<in> set (message_measurements entity duration_s a). instrument_of m \<in> set INSTRUMENTS"
    using message_instruments [of _ entity duration_s a] by (auto simp: INSTRUMENTS_def)
  from record_all_working [OF assms(1) Cons.prems i] record_all_effect(2) [OF Cons.prems] Cons.IH
  show ?case by (simp add: record_message_def)
qed simp

lemma on_span_fields [simp]:
  "measured (on_span h f t) = measured t" "cached (on_span h f t) = cached t"
  "cached_generation (on_span h f t) = cached_generation t" "cache_ok (on_span h f t) = cache_ok t"
  by (simp_all add: on_span_def cache_ok_def)

lemma mark_error_fields [simp]:
  "measured (mark_error tr sp e t) = measured t" "cache_ok (mark_error tr sp e t) = cache_ok t"
  "measured (mark_consumed_error tr sp x t) = measured t" "cache_ok (mark_consumed_error tr sp x t) = cache_ok t"
  "measured (mark_flush_outcome tr sp out x t) = measured t" "cache_ok (mark_flush_outcome tr sp out x t) = cache_ok t"
  by (auto simp: mark_error_def mark_consumed_error_def mark_flush_outcome_def Let_def split: option.splits)

lemma record_consumed_working:
  "working pv \<Longrightarrow> cache_ok t \<Longrightarrow>
   measured (record_consumed_message pv destination error_type t) = measured t @
     [(provider_generation pv, Added MESSAGING_CONSUMED_MESSAGES 1 (destination_attributes destination @ error_attribute error_type))]"
  unfolding record_consumed_message_def by (subst record_all_working) (auto simp: INSTRUMENTS_def)

text \<open>The outcome of a block is its own, with a span or without one, unless the manager raises.\<close>

lemma consume_span_outcome:
  assumes "\<forall>e. tr_opening tr \<noteq> NotEntered e" and "\<And>sp t. fst (block sp t) = r"
  shows "fst (consume_span tr destination block t) = r"
proof (cases "tr_opening tr")
  case Opened
  obtain h t1 where o: "open_span (lit ''process '' @ destination) (destination_attributes destination) t = (h, t1)" by fastforce
  obtain x t2 where b: "block (Some h) t1 = (x, t2)" by fastforce
  with assms(2) [of "Some h" t1] have "x = r" by simp
  with Opened o b show ?thesis by (auto simp: consume_span_def split: sum.splits)
qed (use assms in \<open>simp_all add: consume_span_def\<close>)

text \<open>Entity attributes stay in a closed set.\<close>

lemma entity_closed: "dt \<in> set DATA_TYPES \<Longrightarrow> entity_for dt \<in> set (map snd ENTITY_SINGULAR)"
  by (auto simp: DATA_TYPES_def ENTITY_TYPES_def entity_for_def ENTITY_SINGULAR_def)

end
