(* ===== verification/ObservedHandler.thy ===== *)
theory ObservedHandler
  imports MessageHandler Telemetry
begin

text \<open>
  The handler of a delivery with what it reports: the span it runs in, the outcome of the record
  and the count of the delivery, as \<^verbatim>\<open>make_message_handler\<close> of \<^verbatim>\<open>graphinator/graphinator.py\<close>
  calls \<^verbatim>\<open>graphinator/telemetry.py\<close>.
\<close>

section \<open>Reports\<close>

text \<open>Where an exception is met whose class names the error; the names are arguments.\<close>

datatype site = AtNormalize | AtSettle | AtHandling

definition FAILED :: pystr where "FAILED = lit ''failed''"
definition PROCESSED :: pystr where "PROCESSED = lit ''processed''"
definition SKIPPED :: pystr where "SKIPPED = lit ''skipped''"

text \<open>
  The error type of a delivery and the outcomes recorded for it. A rejection that cannot be
  settled is recorded again by the exception's handler.
\<close>

definition reject_report :: "(site \<Rightarrow> pystr) \<Rightarrow> delivery \<Rightarrow> pystr \<Rightarrow> pystr option \<times> pystr list" where
  "reject_report names d e = (if dl_channel_up d then (Some e, [FAILED]) else (Some (names AtSettle), [FAILED, FAILED]))"

definition submit_report ::
  "handler_config \<Rightarrow> (site \<Rightarrow> pystr) \<Rightarrow> pystr \<Rightarrow> pydict \<Rightarrow> delivery \<Rightarrow> lifecycle \<Rightarrow> pystr option \<times> pystr list" where
  "submit_report cfg names dt record d s =
     (case fst (add_message cfg dt record d s) of None \<Rightarrow> (Some (names AtHandling), [FAILED]) | Some _ \<Rightarrow> (None, []))"

definition write_report ::
  "handler_config \<Rightarrow> (site \<Rightarrow> pystr) \<Rightarrow> pystr \<Rightarrow> pydict \<Rightarrow> delivery \<Rightarrow> lifecycle \<times> graph \<Rightarrow> pystr option \<times> pystr list" where
  "write_report cfg names dt record d sg =
     (case hc_normalize cfg dt record of
        Inl _ \<Rightarrow> reject_report names d (names AtNormalize)
      | Inr rec \<Rightarrow>
          if \<not> truthy (dget rec ''id'') then reject_report names d (lit ''MissingIdError'')
          else if \<not> graph_ready (sv (fst sg)) then (Some (lit ''RuntimeError''), [FAILED])
          else
            (case process_fn (text_runtime (hc_markers cfg)) dt rec (snd sg) of
               Inl _ \<Rightarrow> (Some (names AtHandling), [FAILED])
             | Inr (updated, _) \<Rightarrow>
                 if dl_write d \<noteq> Fine then (Some (names AtHandling), [FAILED])
                 else if \<not> dl_channel_up d then (Some (names AtSettle), [FAILED])
                 else (None, [if updated then PROCESSED else SKIPPED])))"

definition delivery_report ::
  "handler_config \<Rightarrow> (site \<Rightarrow> pystr) \<Rightarrow> pystr \<Rightarrow> delivery \<Rightarrow> lifecycle \<times> graph \<Rightarrow> pystr option \<times> pystr list" where
  "delivery_report cfg names dt d sg =
     (case sg of (s, g) \<Rightarrow>
        case dl_body d of
          Some (PDict record) \<Rightarrow>
            (case check_file_completion (hc_markers cfg) (marker_of dt record d) (sv s) of
               (Inl _, v) \<Rightarrow> (Some (names AtHandling), [FAILED])
             | (Inr True, v) \<Rightarrow> (None, [])
             | (Inr False, v) \<Rightarrow>
                 let s1 = s\<lparr>sv := rearm dt v\<rparr> in
                 if batched cfg d then submit_report cfg names dt record d s1 else write_report cfg names dt record d (s1, g))
        | _ \<Rightarrow> reject_report names d (lit ''MalformedRecord''))"

text \<open>The handler in its span; \<open>duration\<close> is what the clock measured. \<open>Inl\<close>: the handler raises.\<close>

definition observed_handler ::
  "provider \<Rightarrow> tracer \<Rightarrow> handler_config \<Rightarrow> (site \<Rightarrow> pystr) \<Rightarrow> rat \<Rightarrow> rat \<Rightarrow> pystr \<Rightarrow> envelope \<Rightarrow> delivery \<Rightarrow>
     lifecycle \<times> graph \<Rightarrow> telemetry \<Rightarrow> (pystr + lifecycle \<times> graph) \<times> telemetry" where
  "observed_handler pv tr cfg names now duration dt env d sg t =
     (if shutdown_requested (fst sg) then (Inr sg, t)
      else
        consume_span tr (consumed_destination env)
          (\<lambda>sp t1. case delivery_report cfg names dt d sg of (error_type, outcomes) \<Rightarrow>
             let t2 = fold (\<lambda>outcome. record_message pv (entity_for dt) outcome duration) outcomes t1 in
             (Inr (handler cfg now dt d sg),
              record_consumed_message pv (consumed_destination env) error_type (mark_consumed_error tr sp error_type t2)))
          t)"

section \<open>Observation changes nothing\<close>


section \<open>Every delivery is counted once\<close>

lemma report_write:
  assumes "dl_channel_up d" and "write_record cfg now dt record d (s, g) = (s', g')"
  shows "\<exists>e. settlements (sv s') = settlements (sv s) @ [e] \<and> is_settlement e \<and>
    (fst (write_report cfg names dt record d (s, g)) = None \<longleftrightarrow> e \<in> {Ack, Queued})"
proof -
  from assms have "s' = fst (write_record cfg now dt record d (s, g))" by simp
  with assms(1) show ?thesis
    by (auto simp: write_record_def write_report_def reject_report_def settle_up settlements_emit settlements_requeue
        settlements_dead_letter split: sum.splits fault.splits prod.splits)
qed

lemma report_submit:
  assumes "dl_channel_up d"
  shows "\<exists>e. settlements (sv (submit_record cfg now dt record d s)) = settlements (sv s) @ [e] \<and> is_settlement e \<and>
    e \<noteq> Ack \<and>
    (fst (submit_report cfg names dt record d s) = None \<longleftrightarrow> e \<in> {Queued, DeadLettered})"
  using settlements_submit [OF assms, of cfg now dt "record" s] assms
  by (auto simp: submit_report_def add_message_def settle_up Let_def split: if_splits)

text \<open>Which error type goes with which settlement.\<close>

definition reports_success :: "handler_config \<Rightarrow> delivery \<Rightarrow> event \<Rightarrow> bool" where
  "reports_success cfg d e \<longleftrightarrow>
     (case dl_body d of
        Some (PDict record) \<Rightarrow> is_marker record \<or> e \<in> {Ack, Queued} \<or> batched cfg d \<and> e = DeadLettered
      | _ \<Rightarrow> False)"

lemma report_settlement:
  assumes "coherent (sv s)" and up: "dl_channel_up d" and run: "\<not> shutdown_requested s"
  shows "\<exists>e. settlements (sv (fst (handler cfg now dt d (s, g)))) = settlements (sv s) @ [e] \<and> is_settlement e \<and>
    (fst (delivery_report cfg names dt d (s, g)) = None \<longleftrightarrow> reports_success cfg d e)"
proof (cases "\<exists>record. dl_body d = Some (PDict record)")
  case False
  then have "handler cfg now dt d (s, g) = (dead_letter cfg d s, g)"
    using run by (auto simp: handler_def split: option.splits pyval.splits)
  moreover have "fst (delivery_report cfg names dt d (s, g)) \<noteq> None" "\<not> reports_success cfg d DeadLettered"
    using False by (auto simp: delivery_report_def reject_report_def reports_success_def split: option.splits pyval.splits)
  ultimately show ?thesis using settlements_dead_letter [OF up] by auto
next
  case True
  then obtain "record" where body: "dl_body d = Some (PDict record)" by blast
  show ?thesis
  proof (cases "is_marker record")
    case True
    from marker_result [OF assms(1) True up] obtain w e where
      "check_file_completion (hc_markers cfg) (marker_of dt record d) (sv s) = (Inr True, w)"
      "settlements w = settlements (sv s) @ [e]" "is_settlement e" by blast
    with run body True show ?thesis by (auto simp: handler_def delivery_report_def reports_success_def)
  next
    case nm: False
    let ?s1 = "s\<lparr>sv := rearm dt (sv s)\<rparr>"
    have rep: "delivery_report cfg names dt d (s, g) =
      (if batched cfg d then submit_report cfg names dt record d ?s1 else write_report cfg names dt record d (?s1, g))"
      using body by (simp add: delivery_report_def record_passes [OF nm])
    show ?thesis
    proof (cases "batched cfg d")
      case True
      with report_submit [OF up, of cfg now dt "record" ?s1 names] handler_record [OF run body nm, of cfg now dt g] rep nm body
      show ?thesis by (auto simp: reports_success_def Let_def)
    next
      case False
      obtain s' g' where w: "write_record cfg now dt record d (?s1, g) = (s', g')" by fastforce
      from report_write [OF up w, of names] handler_record [OF run body nm, of cfg now dt g] rep nm body False w
      show ?thesis by (auto simp: reports_success_def Let_def)
    qed
  qed
qed


text \<open>
  The same bad record, dead-lettered in both modes, is a failed message with an error type in
  single mode; in batch mode it is counted as consumed without error and has no outcome.
\<close>

theorem batch_rejection_unreported:
  assumes "dl_body d = Some (PDict record)" and "\<not> is_marker record" and "dl_channel_up d"
    and "hc_normalize cfg dt record = Inl e"
  shows "delivery_report cfg names dt d (s, g) = (if batched cfg d then (None, []) else (Some (names AtNormalize), [FAILED]))"
  using assms
  by (simp add: delivery_report_def record_passes [OF assms(2)] submit_report_def add_message_def write_report_def
      reject_report_def settle_up succeeds_def Let_def)

text \<open>A library without a provider of its own, for the witness.\<close>

definition demo_provider :: provider where
  "demo_provider = \<lparr>provider_generation = 3, pv_builds = True, pv_accepts = (\<lambda>_. True)\<rparr>"

definition demo_tracer :: tracer where
  "demo_tracer = \<lparr>tr_opening = Opened, tr_sets = (\<lambda>_. True), tr_status = True, tr_recording = Some True, tr_context = True\<rparr>"

definition no_telemetry :: telemetry where
  "no_telemetry = \<lparr>cached = [], cached_generation = -1, measured = [], spans = []\<rparr>"

definition demo_envelope :: envelope where
  "demo_envelope = \<lparr>consumer_tag_of = Some [], routing_key_of = Some (lit ''r''), exchange_of = None\<rparr>"


end
