(* ===== verification/BatchObserver.thy ===== *)
theory BatchObserver
  imports Telemetry BatchSettings BatchProjection
begin

text \<open>
  The batch processor of \<^verbatim>\<open>graphinator/batch_processor.py\<close> as the shared engine sees it: the sink
  it writes to, and the observer it reports each flush and each settlement to, with the
  counters that progress, health and the flush trigger read.
\<close>

section \<open>The sink\<close>

definition batch_processors ::
  "'z runtime_scheme \<Rightarrow> (string \<times> (pydict list \<Rightarrow> graph \<Rightarrow> py_error + (nat set \<times> graph))) list" where
  "batch_processors rt =
     [(''artists'', process_artists_batch rt), (''labels'', process_labels_batch rt),
      (''masters'', process_masters_batch rt), (''releases'', process_releases_batch rt)]"

definition processor_write :: "'z runtime_scheme \<Rightarrow> string \<Rightarrow> pydict list \<Rightarrow> graph \<Rightarrow> py_error + (settlement list \<times> graph)" where
  "processor_write rt key payloads g =
     (case map_of (batch_processors rt) key of
        None \<Rightarrow> Inl ValueError
      | Some process \<Rightarrow>
          bindE (process payloads g) (\<lambda>(rejected, g'). Inr (batch_results (length payloads) rejected, g')))"

text \<open>The facade and the projector behind it are the same sink.\<close>

lemma processor_write_is_batch_write: "processor_write rt = batch_write rt"
  by (intro ext) (simp add: processor_write_def batch_processors_def batch_write_def)

section \<open>One flush\<close>

text \<open>
  The counters; a time is the clock's. An observation: the type, the number of records, whether
  the flush is known to have failed and with which class of exception, its span's handle.
\<close>

record observer =
  processed_counts :: "pystr \<Rightarrow> nat"
  batch_counts :: "pystr \<Rightarrow> nat"
  last_flush :: "pystr \<Rightarrow> rat"

record observation =
  ob_key :: pystr
  ob_size :: nat
  ob_failed :: bool
  ob_error :: "pystr option"
  ob_span :: "nat option"

definition new_observer :: "rat \<Rightarrow> observer" where
  "new_observer now = \<lparr>processed_counts = (\<lambda>_. 0), batch_counts = (\<lambda>_. 0), last_flush = (\<lambda>_. now)\<rparr>"

definition open_flush :: "pystr \<Rightarrow> nat \<Rightarrow> nat option \<Rightarrow> observation" where
  "open_flush key sz sp = \<lparr>ob_key = key, ob_size = sz, ob_failed = False, ob_error = None, ob_span = sp\<rparr>"

definition mark_failed :: "pystr option \<Rightarrow> observation \<Rightarrow> observation" where
  "mark_failed e o' = (case e of None \<Rightarrow> o'\<lparr>ob_failed := True\<rparr> | Some x \<Rightarrow> o'\<lparr>ob_failed := True, ob_error := Some x\<rparr>)"

text \<open>
  What the engine reports inside a flush: an exception it has classified, a batch kept for a
  retry, a record settled, with its entity, whether it was acknowledged, and its outcome. The
  engine hands back the flush's own observation, which is also the current one in its task.
\<close>

datatype flush_event = Classified pystr | RetryScheduled | ItemSettled pystr bool pystr

definition settled :: "pystr \<Rightarrow> bool \<Rightarrow> pystr \<Rightarrow> observer \<times> observation \<Rightarrow> observer \<times> observation" where
  "settled entity acked outcome oo =
     (case oo of (ob, o') \<Rightarrow>
        if acked then (ob\<lparr>processed_counts := (processed_counts ob)(entity := Suc (processed_counts ob entity))\<rparr>, o')
        else if outcome = lit ''poison'' then (ob, mark_failed None o')
        else (ob, o'))"

fun observe :: "flush_event \<Rightarrow> observer \<times> observation \<Rightarrow> observer \<times> observation" where
  "observe (Classified e) (ob, o') = (ob, mark_failed (Some e) o')"
| "observe RetryScheduled (ob, o') = (ob, mark_failed None o')"
| "observe (ItemSettled entity acked outcome) oo = settled entity acked outcome oo"

definition flush_outcome :: "observation \<Rightarrow> pystr" where
  "flush_outcome o' = (if ob_failed o' then lit ''failed'' else lit ''processed'')"

text \<open>Leaving the flush; \<open>raised\<close> is the class of the exception that leaves it, if one does.\<close>

definition close_flush ::
  "provider \<Rightarrow> tracer \<Rightarrow> pystr option \<Rightarrow> rat \<Rightarrow> rat \<Rightarrow> observer \<times> observation \<Rightarrow> telemetry \<Rightarrow> observer \<times> telemetry" where
  "close_flush pv tr raised now duration oo t =
     (case oo of (ob, o') \<Rightarrow>
        let o1 = (if raised = None then o' else mark_failed raised o');
            t1 = mark_flush_outcome tr (ob_span o1) (flush_outcome o1) (ob_error o1) t;
            t2 = record_batch_flush pv (entity_for (ob_key o1)) (flush_outcome o1) (ob_size o1) duration t1
        in (if ob_failed o1 then ob
            else ob\<lparr>batch_counts := (batch_counts ob)(ob_key o1 := Suc (batch_counts ob (ob_key o1))),
                    last_flush := (last_flush ob)(ob_key o1 := now)\<rparr>, t2))"

record flush_run =
  fr_key :: pystr
  fr_size :: nat
  fr_span :: "nat option"
  fr_events :: "flush_event list"
  fr_raised :: "pystr option"
  fr_ended :: rat
  fr_duration :: rat

definition run_flush :: "provider \<Rightarrow> tracer \<Rightarrow> flush_run \<Rightarrow> observer \<times> telemetry \<Rightarrow> observer \<times> telemetry" where
  "run_flush pv tr f ot =
     (case ot of (ob, t) \<Rightarrow>
        close_flush pv tr (fr_raised f) (fr_ended f) (fr_duration f)
          (fold observe (fr_events f) (ob, open_flush (fr_key f) (fr_size f) (fr_span f))) t)"

text \<open>The numbers progress and health are given, beside those of the engine's snapshot.\<close>

record batch_stats =
  st_processed :: "pystr \<Rightarrow> nat"
  st_batches :: "pystr \<Rightarrow> nat"
  st_pending :: "pystr \<Rightarrow> int"
  st_effective_batch_size :: "pystr \<Rightarrow> int"
  st_configured_batch_size :: int
  st_consecutive_failures :: "pystr \<Rightarrow> int"
  st_transient_failures :: "pystr \<Rightarrow> int"

record engine_snapshot =
  es_pending :: "pystr \<Rightarrow> int"
  es_batch_sizes :: "pystr \<Rightarrow> int"
  es_poison_attempts :: "pystr \<Rightarrow> int"
  es_transient_attempts :: "pystr \<Rightarrow> int"

definition get_stats :: "batch_config \<Rightarrow> observer \<Rightarrow> engine_snapshot \<Rightarrow> batch_stats" where
  "get_stats c ob es =
     \<lparr>st_processed = processed_counts ob, st_batches = batch_counts ob, st_pending = es_pending es,
      st_effective_batch_size = es_batch_sizes es, st_configured_batch_size = batch_size c,
      st_consecutive_failures = es_poison_attempts es, st_transient_failures = es_transient_attempts es\<rparr>"

section \<open>The counters\<close>

fun event_fails :: "flush_event \<Rightarrow> bool" where
  "event_fails (Classified e) = True"
| "event_fails RetryScheduled = True"
| "event_fails (ItemSettled entity acked outcome) = (\<not> acked \<and> outcome = lit ''poison'')"

definition flush_fails :: "flush_run \<Rightarrow> bool" where
  "flush_fails f \<longleftrightarrow> fr_raised f \<noteq> None \<or> list_ex event_fails (fr_events f)"

fun acks :: "pystr \<Rightarrow> flush_event \<Rightarrow> bool" where
  "acks k (ItemSettled entity acked outcome) = (acked \<and> entity = k)"
| "acks k e = False"

definition acked_in :: "pystr \<Rightarrow> flush_run list \<Rightarrow> nat" where
  "acked_in k fs = length (filter (acks k) (concat (map fr_events fs)))"

lemma mark_failed_fields [simp]:
  "ob_failed (mark_failed e o')" "ob_key (mark_failed e o') = ob_key o'" "ob_size (mark_failed e o') = ob_size o'"
  "ob_span (mark_failed e o') = ob_span o'"
  by (simp_all add: mark_failed_def split: option.splits)

lemma observe_effect:
  assumes "observe e (ob, o') = (ob1, o1)"
  shows "processed_counts ob1 k = processed_counts ob k + (if acks k e then 1 else 0) \<and>
    batch_counts ob1 = batch_counts ob \<and> last_flush ob1 = last_flush ob \<and>
    ob_key o1 = ob_key o' \<and> ob_size o1 = ob_size o' \<and> ob_failed o1 = (ob_failed o' \<or> event_fails e)"
  using assms by (cases e) (auto simp: settled_def split: if_splits)

lemma observe_all:
  "fold observe es (ob, o') = (ob1, o1) \<Longrightarrow>
   processed_counts ob1 k = processed_counts ob k + length (filter (acks k) es) \<and>
   batch_counts ob1 = batch_counts ob \<and> last_flush ob1 = last_flush ob \<and>
   ob_key o1 = ob_key o' \<and> ob_size o1 = ob_size o' \<and> ob_failed o1 = (ob_failed o' \<or> list_ex event_fails es)"
proof (induction es arbitrary: ob o')
  case (Cons e es)
  obtain ob2 o2 where s: "observe e (ob, o') = (ob2, o2)" by fastforce
  with Cons.prems have "fold observe es (ob2, o2) = (ob1, o1)" by simp
  from Cons.IH [OF this] observe_effect [OF s, of k] show ?case by auto
qed simp

lemma run_flush_effect:
  assumes "run_flush pv tr f (ob, t) = (ob', t')"
  shows "processed_counts ob' k = processed_counts ob k + length (filter (acks k) (fr_events f)) \<and>
    batch_counts ob' k = batch_counts ob k + (if fr_key f = k \<and> \<not> flush_fails f then 1 else 0) \<and>
    last_flush ob' k = (if fr_key f = k \<and> \<not> flush_fails f then fr_ended f else last_flush ob k)"
proof -
  obtain ob1 o1 where e: "fold observe (fr_events f) (ob, open_flush (fr_key f) (fr_size f) (fr_span f)) = (ob1, o1)"
    by fastforce
  from observe_all [OF e, of k] have "processed_counts ob1 k = processed_counts ob k + length (filter (acks k) (fr_events f))"
    "batch_counts ob1 = batch_counts ob" "last_flush ob1 = last_flush ob" "ob_key o1 = fr_key f"
    "ob_failed o1 = list_ex event_fails (fr_events f)"
    by (simp_all add: open_flush_def)
  with assms e show ?thesis
    by (auto simp: run_flush_def close_flush_def Let_def flush_fails_def)
qed

section \<open>The metrics of a flush\<close>

definition flush_measurements :: "flush_run \<Rightarrow> measurement list" where
  "flush_measurements f =
     (let attrs = [(lit ''store'', STORE), (lit ''entity'', entity_for (fr_key f)),
                   (lit ''outcome'', if flush_fails f then lit ''failed'' else lit ''processed'')] in
      [Recorded PIPELINE_BATCH_SIZE (of_nat (fr_size f)) attrs,
       Recorded PIPELINE_BATCH_FLUSH_DURATION (fr_duration f) attrs])"

lemma record_batch_flush_working:
  "working pv \<Longrightarrow> cache_ok t \<Longrightarrow>
   measured (record_batch_flush pv entity outcome n duration_s t) = measured t @ map (Pair (provider_generation pv))
     [Recorded PIPELINE_BATCH_SIZE (of_nat n) [(lit ''store'', STORE), (lit ''entity'', entity), (lit ''outcome'', outcome)],
      Recorded PIPELINE_BATCH_FLUSH_DURATION duration_s
        [(lit ''store'', STORE), (lit ''entity'', entity), (lit ''outcome'', outcome)]] \<and>
   cache_ok (record_batch_flush pv entity outcome n duration_s t)"
  unfolding record_batch_flush_def Let_def
  by (intro conjI record_all_effect(2), subst record_all_working) (auto simp: INSTRUMENTS_def)

lemma run_flush_measured:
  assumes "working pv" and "cache_ok t" and "run_flush pv tr f (ob, t) = (ob', t')"
  shows "measured t' = measured t @ map (Pair (provider_generation pv)) (flush_measurements f) \<and> cache_ok t'"
proof -
  obtain ob1 o1 where e: "fold observe (fr_events f) (ob, open_flush (fr_key f) (fr_size f) (fr_span f)) = (ob1, o1)"
    by fastforce
  from observe_all [OF e, of "[]"] have "ob_key o1 = fr_key f" "ob_size o1 = fr_size f"
    "ob_failed o1 = list_ex event_fails (fr_events f)" by (simp_all add: open_flush_def)
  with assms e record_batch_flush_working [OF assms(1)] show ?thesis
    by (auto simp: run_flush_def close_flush_def Let_def flush_fails_def flush_measurements_def flush_outcome_def)
qed

definition good_flushes :: "pystr \<Rightarrow> flush_run list \<Rightarrow> flush_run list" where
  "good_flushes k fs = filter (\<lambda>f. fr_key f = k \<and> \<not> flush_fails f) fs"

text \<open>
  C33. The batch counters are exact, over any sequence of flushes with whatever the engine
  reports in them: a type's processed count is the number of its acknowledged records, its batch
  count the number of its flushes without a failure, its last flush the end of the latest of
  these; and every flush, failed or not, is measured once in size and duration, with the
  outcome the counters have it under.
\<close>

theorem flushes_counted_exactly:
  assumes "working pv" and "cache_ok t" and "fold (run_flush pv tr) fs (new_observer start, t) = (ob, t')"
  shows "processed_counts ob k = acked_in k fs \<and> batch_counts ob k = length (good_flushes k fs) \<and>
    last_flush ob k = (if good_flushes k fs = [] then start else fr_ended (last (good_flushes k fs))) \<and>
    measured t' = measured t @ map (Pair (provider_generation pv)) (concat (map flush_measurements fs))"
proof -
  have "processed_counts ob k = processed_counts ob0 k + acked_in k fs \<and>
    batch_counts ob k = batch_counts ob0 k + length (good_flushes k fs) \<and>
    last_flush ob k = (if good_flushes k fs = [] then last_flush ob0 k else fr_ended (last (good_flushes k fs))) \<and>
    measured t' = measured u @ map (Pair (provider_generation pv)) (concat (map flush_measurements fs))"
    if "cache_ok u" and "fold (run_flush pv tr) fs (ob0, u) = (ob, t')" for ob0 u
    using that
  proof (induction fs arbitrary: ob0 u)
    case Nil
    then show ?case by (simp add: acked_in_def good_flushes_def)
  next
    case (Cons f fs)
    obtain ob1 u1 where r: "run_flush pv tr f (ob0, u) = (ob1, u1)" by fastforce
    note m = run_flush_measured [OF assms(1) Cons.prems(1) r] and e = run_flush_effect [OF r, of k]
    from Cons.prems(2) r have "fold (run_flush pv tr) fs (ob1, u1) = (ob, t')" by simp
    from Cons.IH [OF _ this] m e show ?case by (auto simp: acked_in_def good_flushes_def)
  qed
  from this [OF assms(2,3)] show ?thesis by (simp add: new_observer_def)
qed

text \<open>A flush with one rejected record and one that a retry follows, for the witness.\<close>

definition demo_flush :: "flush_event list \<Rightarrow> rat \<Rightarrow> flush_run" where
  "demo_flush es now =
     \<lparr>fr_key = lit ''labels'', fr_size = 2, fr_span = None, fr_events = es, fr_raised = None, fr_ended = now, fr_duration = 1\<rparr>"

definition demo_flushes :: "flush_run list" where
  "demo_flushes =
     [demo_flush [ItemSettled (lit ''labels'') True (lit ''processed''), ItemSettled (lit ''labels'') False (lit ''failed'')] 8,
      demo_flush [Classified (lit ''E''), RetryScheduled] 9]"

lemma flushes_counted_exactly_witness:
  "\<exists>ob t'. fold (run_flush \<lparr>provider_generation = 3, pv_builds = True, pv_accepts = (\<lambda>_. True)\<rparr>
        \<lparr>tr_opening = Opened, tr_sets = (\<lambda>_. True), tr_status = True, tr_recording = Some True, tr_context = True\<rparr>)
      demo_flushes (new_observer 5, \<lparr>cached = [], cached_generation = -1, measured = [], spans = []\<rparr>) = (ob, t') \<and>
    processed_counts ob (lit ''labels'') = 1 \<and> batch_counts ob (lit ''labels'') = 1 \<and> last_flush ob (lit ''labels'') = 8 \<and>
    length (measured t') = 4"
proof -
  let ?pv = "\<lparr>provider_generation = 3, pv_builds = True, pv_accepts = (\<lambda>_. True)\<rparr>"
  let ?tr = "\<lparr>tr_opening = Opened, tr_sets = (\<lambda>_. True), tr_status = True, tr_recording = Some True, tr_context = True\<rparr>"
  let ?t = "\<lparr>cached = [], cached_generation = -1, measured = [], spans = []\<rparr>"
  obtain ob t' where r: "fold (run_flush ?pv ?tr) demo_flushes (new_observer 5, ?t) = (ob, t')" by fastforce
  have pv: "working ?pv" "cache_ok ?t" by (simp_all add: working_def cache_ok_def)
  from flushes_counted_exactly [OF pv r, of "lit ''labels''"] r show ?thesis
    by (simp add: acked_in_def good_flushes_def demo_flushes_def demo_flush_def flush_fails_def flush_measurements_def Let_def)
qed

end
