(* ===== verification/ReleaseChecks.thy ===== *)
theory ReleaseChecks
  imports PyValue "HOL-Library.List_Lexorder"
begin

text \<open>
  The checks of a release, \<^verbatim>\<open>scripts/\<close>: the promoted contracts and their pins, the license and
  the package's version, the preview of the next version, and the metadata of a build. What the
  scripts read - parsed documents, digests, files, the results of \<^verbatim>\<open>cz\<close> and \<^verbatim>\<open>git\<close> - are
  arguments.
\<close>

section \<open>Assertions\<close>

datatype check_error = AssertionFailed | Raised py_error

definition assert_that :: "bool \<Rightarrow> check_error + unit" where
  "assert_that b = (if b then Inr () else Inl AssertionFailed)"

definition raising :: "py_error + 'a \<Rightarrow> check_error + 'a" where
  "raising r = (case r of Inl e \<Rightarrow> Inl (Raised e) | Inr x \<Rightarrow> Inr x)"

text \<open>\<^verbatim>\<open>assert expected == document[k1]...[kn]\<close>.\<close>

fun item_at :: "string list \<Rightarrow> pyval \<Rightarrow> py_error + pyval" where
  "item_at [] v = Inr v"
| "item_at (k # ks) v = bindE (py_item v k) (item_at ks)"

definition assert_item :: "pyval \<Rightarrow> string list \<Rightarrow> pyval \<Rightarrow> check_error + unit" where
  "assert_item doc ks expected = bindE (raising (item_at ks doc)) (\<lambda>v. assert_that (py_eq v expected))"

section \<open>Contracts\<close>

record contract_files =
  cf_catalog_source :: pyval
  cf_persistence_source :: pyval
  cf_compatibility :: pyval
  cf_runtime_attestation :: pyval
  cf_pyproject :: pyval
  cf_contract_digest :: pystr
  cf_binding_digest :: pystr
  cf_compatibility_digest :: pystr

definition hex_digits :: "pyval list" where
  "hex_digits = map (\<lambda>c. PStr [c]) (lit ''0123456789abcdef'')"

text \<open>\<^verbatim>\<open>set(v) <= set("0123456789abcdef")\<close>: the elements have to be hashable.\<close>

definition all_hex :: "pyval \<Rightarrow> py_error + bool" where
  "all_hex v =
     bindE (py_iter v) (\<lambda>xs.
       if \<exists>x \<in> set xs. is_list x \<or> is_dict x then Inl TypeError
       else Inr (\<forall>x \<in> set xs. \<exists>h \<in> set hex_digits. py_eq x h))"

definition check_contracts :: "contract_files \<Rightarrow> check_error + unit" where
  "check_contracts f =
     bindE (assert_item (cf_catalog_source f) [''contract_sha256''] (PStr (cf_contract_digest f))) (\<lambda>_.
     bindE (assert_item (cf_catalog_source f) [''binding_sha256''] (PStr (cf_binding_digest f))) (\<lambda>_.
     bindE (assert_item (cf_persistence_source f) [''contract_sha256''] (PStr (cf_compatibility_digest f))) (\<lambda>_.
     bindE (assert_item (cf_compatibility f) [''contract''] (PStr (lit ''groovemap.persistence''))) (\<lambda>_.
     bindE (assert_item (cf_compatibility f) [''version''] (PInt 1)) (\<lambda>_.
     bindE (assert_item (cf_compatibility f) [''application_runtime'', ''tested_version''] (PStr (lit ''0.1.0''))) (\<lambda>_.
     bindE (raising (item_at [''tool'', ''uv'', ''sources'', ''groovemap-runtime''] (cf_pyproject f))) (\<lambda>runtime_source.
     bindE (raising (item_at [''rev''] runtime_source)) (\<lambda>rev.
     bindE (raising (item_at [''source_commit''] (cf_runtime_attestation f))) (\<lambda>commit.
     bindE (assert_that (py_eq rev commit)) (\<lambda>_.
     bindE (raising (item_at [''compatibility_baseline''] (cf_runtime_attestation f))) (\<lambda>baseline.
     bindE (raising (item_at [''application_runtime'', ''tested_commit''] (cf_compatibility f))) (\<lambda>tested.
     bindE (assert_that (py_eq baseline tested)) (\<lambda>_.
     bindE (assert_item (cf_runtime_attestation f) [''source_repository'']
              (PStr (lit ''https://github.com/groovemap-music/python-libraries''))) (\<lambda>_.
     bindE (raising (item_at [''source_tree''] (cf_runtime_attestation f))) (\<lambda>tree.
     bindE (raising (py_len tree)) (\<lambda>n.
     bindE (assert_that (n = 40)) (\<lambda>_.
     bindE (raising (all_hex tree)) assert_that)))))))))))))))))"

section \<open>License and version\<close>

definition quote :: nat where "quote = 34"
definition newline :: nat where "newline = 10"

definition version_prefix :: pystr where
  "version_prefix = lit ''__version__ = '' @ [quote]"

text \<open>
  \<^verbatim>\<open>re.search(r'^__version__ = "([^"]+)"$', text, re.MULTILINE)\<close>: the group of the first match.
  Up to the next quote there is only one way to match.
\<close>

definition version_here :: "pystr \<Rightarrow> pystr option" where
  "version_here t =
     (if take (length version_prefix) t = version_prefix then
        let v = takeWhile (\<lambda>c. c \<noteq> quote) (drop (length version_prefix) t);
            tail = drop (length v) (drop (length version_prefix) t)
        in if v \<noteq> [] \<and> tail \<noteq> [] \<and> (tl tail = [] \<or> hd (tl tail) = newline) then Some v else None
      else None)"

fun find_version :: "bool \<Rightarrow> pystr \<Rightarrow> pystr option" where
  "find_version at_start [] = None"
| "find_version at_start (c # cs) =
     (case if at_start then version_here (c # cs) else None of
        Some v \<Rightarrow> Some v
      | None \<Rightarrow> find_version (c = newline) cs)"

definition MIT_HEADER :: pystr where "MIT_HEADER = lit ''MIT License'' @ [newline]"

definition check_license :: "pyval \<Rightarrow> pystr \<Rightarrow> pystr \<Rightarrow> check_error + unit" where
  "check_license pyproject init_text license_text =
     bindE (raising (item_at [''project''] pyproject)) (\<lambda>project.
       case find_version True init_text of
         None \<Rightarrow> Inl AssertionFailed
       | Some v \<Rightarrow>
           bindE (assert_item project [''license''] (PStr (lit ''MIT''))) (\<lambda>_.
           bindE (assert_item project [''version''] (PStr v)) (\<lambda>_.
           assert_that (take (length MIT_HEADER) license_text = MIT_HEADER))))"

section \<open>The preview of the next version\<close>

text \<open>\<^verbatim>\<open>needle in hay\<close>.\<close>

definition occurs :: "pystr \<Rightarrow> pystr \<Rightarrow> bool" where
  "occurs needle hay = list_ex (\<lambda>n. take (length needle) (drop n hay) = needle) [0..<Suc (length hay)]"

definition NO_COMMITS_EXIT :: int where "NO_COMMITS_EXIT = 3"
definition NO_COMMITS_MARKERS :: "pystr list" where
  "NO_COMMITS_MARKERS = [lit ''[NO_COMMITS_FOUND]'', lit ''No new commits found.'']"
definition RELEASE_GAP_EXIT :: int where "RELEASE_GAP_EXIT = 16"
definition RELEASE_GAP_MARKERS :: "pystr list" where
  "RELEASE_GAP_MARKERS =
     [lit ''bump: version '', lit ''tag to create: v'', lit ''increment detected: '',
      lit ''No tag found to do an incremental changelog'']"
definition NOT_ELIGIBLE_EXIT :: int where "NOT_ELIGIBLE_EXIT = 21"
definition NOT_ELIGIBLE_MARKERS :: "pystr list" where
  "NOT_ELIGIBLE_MARKERS = [lit ''[NO_COMMITS_TO_BUMP]'', lit ''The commits found are not eligible to be bumped'']"

definition accepted_result :: "int \<Rightarrow> pystr \<Rightarrow> bool" where
  "accepted_result returncode output \<longleftrightarrow>
     returncode = 0 \<or>
     returncode = NO_COMMITS_EXIT \<and> list_all (\<lambda>m. occurs m output) NO_COMMITS_MARKERS \<or>
     returncode = RELEASE_GAP_EXIT \<and> list_all (\<lambda>m. occurs m output) RELEASE_GAP_MARKERS \<or>
     returncode = NOT_ELIGIBLE_EXIT \<and> list_all (\<lambda>m. occurs m output) NOT_ELIGIBLE_MARKERS"

text \<open>The exit code of the preview, from what the command returned and printed.\<close>

definition preview_exit :: "int \<Rightarrow> pystr \<Rightarrow> pystr \<Rightarrow> int" where
  "preview_exit returncode out err =
     (if accepted_result returncode (out @ [newline] @ err) then 0 else returncode)"

section \<open>Build metadata\<close>

definition path_suffix :: "pystr \<Rightarrow> pystr" where
  "path_suffix name =
     (let tail = rev (takeWhile (\<lambda>c. c \<noteq> 46) (rev name)) in
      if length tail + 1 < length name \<and> tail \<noteq> [] then 46 # tail else [])"

record provenance =
  pv_artifacts :: "(pystr \<times> pystr) list"
  pv_builder :: pystr
  pv_commit :: pystr
  pv_python :: pystr
  pv_repository :: pystr

text \<open>
  \<open>git\<close>: whether it was found; \<open>rev_parse\<close>: what it printed, \<open>None\<close> when it failed or timed out;
  \<open>files\<close>: the names in \<^verbatim>\<open>dist\<close> with their digests. The result \<open>None\<close> is an exception.
\<close>

definition write_provenance :: "bool \<Rightarrow> pystr option \<Rightarrow> (pystr \<times> pystr) list \<Rightarrow> pystr \<Rightarrow> provenance option" where
  "write_provenance git rev_parse files sys_version =
     (if \<not> git then None
      else case rev_parse of
        None \<Rightarrow> None
      | Some printed \<Rightarrow>
          (case py_split sys_version of
             [] \<Rightarrow> None
           | python # _ \<Rightarrow>
               Some \<lparr>pv_artifacts = filter (\<lambda>f. path_suffix (fst f) \<in> {lit ''.gz'', lit ''.whl''}) (sort_key fst files),
                 pv_builder = lit ''scripts/release-dry-run.sh'', pv_commit = py_strip printed, pv_python = python,
                 pv_repository = lit ''https://github.com/groovemap-music/discogs-graph-enricher''\<rparr>))"

section \<open>What the checks guarantee\<close>

text \<open>A preview fails exactly when its result is not one of the explicit states, with the command's own code.\<close>

lemma preview_exit_zero: "preview_exit returncode out err = 0 \<longleftrightarrow> accepted_result returncode (out @ [newline] @ err)"
  by (auto simp: preview_exit_def accepted_result_def)

text \<open>A version line written as the package writes it is found again, whatever follows.\<close>

lemma version_written:
  assumes "v \<noteq> []" and "quote \<notin> set v" and "rest = [] \<or> hd rest = newline"
  shows "version_here (version_prefix @ v @ [quote] @ rest) = Some v"
proof -
  have w: "takeWhile (\<lambda>c. c \<noteq> quote) (v @ quote # rest) = v"
    using assms(2) by (subst takeWhile_append2) auto
  with assms(1,3) show ?thesis by (auto simp: version_here_def)
qed

lemma version_found:
  assumes "v \<noteq> []" and "quote \<notin> set v" and "rest = [] \<or> hd rest = newline"
  shows "find_version True (version_prefix @ v @ [quote] @ rest) = Some v"
proof -
  obtain c cs where c: "version_prefix @ v @ [quote] @ rest = c # cs" by (cases "version_prefix @ v @ [quote] @ rest") auto
  with version_written [OF assms] show ?thesis by simp
qed

text \<open>
  A document before the line keeps it found, as long as no line of it begins with an underscore:
  the license check compares with the version the package carries.
\<close>

lemma version_here_underscore: "version_here t = Some v \<Longrightarrow> \<exists>cs. t = 95 # cs"
  by (cases t) (auto simp: version_here_def version_prefix_def lit_def split: if_splits)

lemma find_version_skip:
  assumes "\<forall>n < length pre. (n = 0 \<and> at_start \<or> 0 < n \<and> pre ! (n - 1) = newline) \<longrightarrow> pre ! n \<noteq> 95" and "pre \<noteq> []"
  shows "find_version at_start (pre @ t) = find_version (last pre = newline) t"
  using assms
proof (induction pre arbitrary: at_start)
  case (Cons c pre)
  have "(if at_start then version_here (c # pre @ t) else None) = None"
    using Cons.prems(1) version_here_underscore [of "c # pre @ t"] by (cases "version_here (c # pre @ t)") auto
  then have step: "find_version at_start ((c # pre) @ t) = find_version (c = newline) (pre @ t)" by simp
  show ?case
  proof (cases "pre = []")
    case False
    have "\<forall>n < length pre. (n = 0 \<and> c = newline \<or> 0 < n \<and> pre ! (n - 1) = newline) \<longrightarrow> pre ! n \<noteq> 95"
    proof (intro allI impI)
      fix n
      assume n: "n < length pre" "n = 0 \<and> c = newline \<or> 0 < n \<and> pre ! (n - 1) = newline"
      then show "pre ! n \<noteq> 95" using Cons.prems(1) [rule_format, of "Suc n"] by (cases n) auto
    qed
    from Cons.IH [OF this False] step False show ?thesis by simp
  qed (use step in simp)
qed simp

theorem license_check_passes:
  assumes "\<forall>n < length pre. (n = 0 \<or> pre ! (n - 1) = newline) \<longrightarrow> pre ! n \<noteq> 95" and "pre = [] \<or> last pre = newline"
    and "v \<noteq> []" and "quote \<notin> set v" and "rest = [] \<or> hd rest = newline"
  shows "check_license (PDict [(lit ''project'', PDict [(lit ''license'', PStr (lit ''MIT'')), (lit ''version'', PStr w)])])
      (pre @ version_prefix @ v @ [quote] @ rest) (MIT_HEADER @ more_text) = (if w = v then Inr () else Inl AssertionFailed)"
proof -
  have "find_version True (pre @ version_prefix @ v @ [quote] @ rest) = Some v"
  proof (cases "pre = []")
    case True
    with version_found [OF assms(3-5)] show ?thesis by simp
  next
    case False
    have "\<forall>n < length pre. (n = 0 \<and> True \<or> 0 < n \<and> pre ! (n - 1) = newline) \<longrightarrow> pre ! n \<noteq> 95" using assms(1) by auto
    from find_version_skip [OF this False] version_found [OF assms(3-5)] assms(2) False show ?thesis by simp
  qed
  then show ?thesis by (simp add: check_license_def assert_item_def raising_def assert_that_def)
qed

text \<open>The artifacts of a build are its archives and wheels, in the order of their names.\<close>

lemma provenance_artifacts:
  assumes "write_provenance git rev_parse files sys_version = Some p"
  shows "sorted (map fst (pv_artifacts p))"
    and "set (pv_artifacts p) = {f \<in> set files. path_suffix (fst f) \<in> {lit ''.gz'', lit ''.whl''}}"
proof -
  have "pv_artifacts p = filter (\<lambda>f. path_suffix (fst f) \<in> {lit ''.gz'', lit ''.whl''}) (sort_key fst files)"
    using assms by (auto simp: write_provenance_def split: if_splits option.splits list.splits)
  then show "sorted (map fst (pv_artifacts p))"
    and "set (pv_artifacts p) = {f \<in> set files. path_suffix (fst f) \<in> {lit ''.gz'', lit ''.whl''}}"
    by (auto intro: sorted_filter sorted_sort_key)
qed

end
